(* ===== verification/Prelude.thy ===== *)
theory Prelude
  imports Main "HOL-Library.Word"
begin

text \<open>
  Shared vocabulary of the development: the C integer types as words, the theorem
  collections the components fill, the search of an array by a \<^verbatim>\<open>for\<close> loop with an
  early exit, and the facts on words, lists and bits that several components use.

  Conventions. A C array is a list of fixed length, a pointer into a static array is
  an index (\<open>nat option\<close>, \<open>None\<close> for \<^verbatim>\<open>NULL\<close>), a C string is a \<open>char list\<close> without its
  terminating NUL, and an unsigned C integer of \<open>w\<close> bits is a \<open>w word\<close>, whose
  arithmetic wraps as the C standard says. A C \<^verbatim>\<open>int\<close> is an \<open>int\<close>: its overflow is
  undefined in C. What \<^verbatim>\<open>KLOG\<close> and \<^verbatim>\<open>KERROR\<close> print goes to the serial port, is read by no
  component, and is left out of the states.
\<close>

unbundle bit_operations_syntax

type_synonym u8 = "8 word"
type_synonym u16 = "16 word"
type_synonym u32 = "32 word"
type_synonym u64 = "64 word"

named_theorems word_nat_simps \<open>reading word arithmetic as arithmetic on naturals\<close>

subsection \<open>Searching an array\<close>

text \<open>
  \<open>first_idx P xs\<close> is the index at which the loop
  \<^verbatim>\<open>for (i = 0; i < n; i++) if (P(a[i])) { ...; return; }\<close> stops.
\<close>

fun first_idx :: "('a \<Rightarrow> bool) \<Rightarrow> 'a list \<Rightarrow> nat option" where
  "first_idx P [] = None"
| "first_idx P (x # xs) = (if P x then Some 0 else map_option Suc (first_idx P xs))"

lemma first_idx_SomeD:
  "first_idx P xs = Some i \<Longrightarrow> i < length xs \<and> P (xs ! i) \<and> (\<forall>j < i. \<not> P (xs ! j))"
proof (induction xs arbitrary: i)
  case (Cons x xs)
  then show ?case by (cases i) (auto split: if_splits simp: nth_Cons' less_Suc_eq_0_disj)
qed simp

lemma first_idx_Some_less: "first_idx P xs = Some i \<Longrightarrow> i < length xs"
  by (simp add: first_idx_SomeD)

lemma first_idx_Some_holds: "first_idx P xs = Some i \<Longrightarrow> P (xs ! i)"
  by (simp add: first_idx_SomeD)

lemma first_idx_None_iff: "first_idx P xs = None \<longleftrightarrow> (\<forall>x \<in> set xs. \<not> P x)"
  by (induction xs) auto

lemma first_idx_SomeI:
  "i < length xs \<Longrightarrow> P (xs ! i) \<Longrightarrow> (\<And>j. j < i \<Longrightarrow> \<not> P (xs ! j)) \<Longrightarrow> first_idx P xs = Some i"
proof (induction xs arbitrary: i)
  case (Cons x xs)
  show ?case
  proof (cases i)
    case (Suc k)
    have "first_idx P xs = Some k"
      using Cons.prems(1,2) Cons.prems(3)[of "Suc j" for j] Suc by (intro Cons.IH) auto
    moreover have "\<not> P x" using Cons.prems(3)[of 0] Suc by simp
    ultimately show ?thesis using Suc by simp
  qed (use Cons.prems in simp)
qed simp

lemma first_idx_append:
  "first_idx P (xs @ ys) =
     (case first_idx P xs of Some i \<Rightarrow> Some i
      | None \<Rightarrow> map_option (\<lambda>k. length xs + k) (first_idx P ys))"
proof (induction xs)
  case Nil
  show ?case by (cases "first_idx P ys") auto
next
  case (Cons a xs)
  then show ?case by (cases "first_idx P xs"; cases "first_idx P ys") auto
qed

lemma first_idx_ex: "x \<in> set xs \<Longrightarrow> P x \<Longrightarrow> \<exists>i. first_idx P xs = Some i"
  by (metis first_idx_None_iff not_Some_eq)

lemma find_unique:
  "x \<in> set xs \<Longrightarrow> (\<And>y. y \<in> set xs \<Longrightarrow> P y \<longleftrightarrow> y = x) \<Longrightarrow> find P xs = Some x"
  by (induction xs) auto

lemma find_append: "List.find P (xs @ ys) = (case List.find P xs of None \<Rightarrow> List.find P ys | Some x \<Rightarrow> Some x)"
  by (induction xs) auto

subsection \<open>Lists\<close>

lemma length_fold_list_update [simp]:
  "length (fold (\<lambda>i bm. bm[i := f i]) is bm) = length bm"
  by (induction "is" arbitrary: bm) auto

lemma nth_fold_list_update:
  "k < length bm \<Longrightarrow>
   fold (\<lambda>i bm. bm[i := f i]) is bm ! k = (if k \<in> set is then f k else bm ! k)"
proof (induction "is" arbitrary: bm)
  case (Cons a "is")
  then show ?case by (cases "k = a") auto
qed simp

lemma set_list_update_cases: "x \<in> set (xs[i := y]) \<Longrightarrow> x = y \<or> x \<in> set xs"
  using set_update_subset_insert by fastforce

lemma ball_updateI: "\<forall>x \<in> set xs. P x \<Longrightarrow> P y \<Longrightarrow> \<forall>x \<in> set (xs[i := y]). P x"
  by (auto dest: set_list_update_cases)

lemma length_filter_update:
  "i < length xs \<Longrightarrow>
   length (filter P (xs[i := y])) + (if P (xs ! i) then 1 else 0) =
   length (filter P xs) + (if P y then 1 else 0)"
proof (induction xs arbitrary: i)
  case (Cons x xs)
  then show ?case by (cases i) (fastforce split: if_splits)+
qed simp

subsection \<open>Words and bits\<close>

lemma bit_test_eq0 [simp]: "(w AND push_bit n 1 = 0) \<longleftrightarrow> \<not> bit w n" for w :: "'a::len word"
  by (simp add: push_bit_of_1 and_exp_eq_0_iff_not_bit)

lemma bit_test_exp_eq0 [simp]: "(w AND 2 ^ n = 0) \<longleftrightarrow> \<not> bit w n" for w :: "'a::len word"
  by (rule and_exp_eq_0_iff_not_bit)

lemma word_nonzero_bit: "w \<noteq> 0 \<Longrightarrow> \<exists>n < LENGTH('a). bit w n" for w :: "'a::len word"
  by (metis bit_0_eq bit_imp_le_length bit_word_eqI bot_apply bot_bool_def)

lemma unat_div_word [word_nat_simps]: "unat (a div b) = unat a div unat b" for a b :: "'a::len word"
  by (rule unat_div)

lemma unat_mod_word [word_nat_simps]: "unat (a mod b) = unat a mod unat b" for a b :: "'a::len word"
  by (rule unat_mod)

lemma unat_drop_bit_div [word_nat_simps]: "unat (drop_bit n a) = unat a div 2 ^ n" for a :: "'a::len word"
  by (simp add: unat_drop_bit_eq drop_bit_eq_div [where 'a = nat])

lemma unat_add_small [word_nat_simps]:
  "unat a + unat b < 2 ^ LENGTH('a) \<Longrightarrow> unat (a + b) = unat a + unat b" for a b :: "'a::len word"
  by (simp add: unat_word_ariths)

lemma unat_mult_small [word_nat_simps]:
  "unat a * unat b < 2 ^ LENGTH('a) \<Longrightarrow> unat (a * b) = unat a * unat b" for a b :: "'a::len word"
  by (simp add: unat_word_ariths)

lemma unat_suc_less: "a < b \<Longrightarrow> unat (a + 1) = Suc (unat a)" for a b :: "'a::len word"
proof -
  assume "a < b"
  then have "Suc (unat a) < 2 ^ LENGTH('a)"
    using unsigned_less [of b, where 'a = nat] unfolding word_less_nat_alt by linarith
  then show ?thesis by (simp add: unat_word_ariths)
qed

lemma word_loop_measure: "a < b \<Longrightarrow> unat b - unat (a + 1) < unat b - unat a" for a b :: "'a::len word"
  by (simp only: unat_suc_less word_less_nat_alt)

lemma unat_of_nat_small: "n < 2 ^ LENGTH('a) \<Longrightarrow> unat (of_nat n :: 'a::len word) = n"
  by (simp add: take_bit_nat_eq_self unat_of_nat)

lemma unat_and_mask: "unat (x AND mask n) = unat x mod 2 ^ n" for x :: "'a::len word"
  unfolding take_bit_eq_mask [symmetric] unsigned_take_bit_eq by (rule take_bit_eq_mod)

lemma unat_and_255 [word_nat_simps]: "unat (x AND 255) = unat x mod 256" for x :: "'a::len word"
  using unat_and_mask [of x 8] by (simp add: mask_eq_exp_minus_1)

lemma unat_and_65535 [word_nat_simps]: "unat (x AND 65535) = unat x mod 65536" for x :: "'a::len word"
  using unat_and_mask [of x 16] by (simp add: mask_eq_exp_minus_1)

lemma unat_ucast_mod [word_nat_simps]:
  "unat (ucast x :: 'b::len word) = unat x mod 2 ^ LENGTH('b)" for x :: "'a::len word"
  by (simp add: unsigned_ucast_eq take_bit_eq_mod)

subsection \<open>Loops that may fail\<close>

text \<open>A \<^verbatim>\<open>for\<close> loop over a list whose body may leave the modelled memory (\<open>None\<close>).\<close>

fun ofold :: "('a \<Rightarrow> 's \<Rightarrow> 's option) \<Rightarrow> 'a list \<Rightarrow> 's \<Rightarrow> 's option" where
  "ofold f [] s = Some s"
| "ofold f (x # xs) s = (case f x s of None \<Rightarrow> None | Some s' \<Rightarrow> ofold f xs s')"

lemma ofold_append: "ofold f (xs @ ys) s = (case ofold f xs s of None \<Rightarrow> None | Some s' \<Rightarrow> ofold f ys s')"
  by (induction xs arbitrary: s) (auto split: option.splits)

lemma ofold_Some:
  assumes "\<And>x s. x \<in> set xs \<Longrightarrow> P s \<Longrightarrow> f x s = Some (g x s) \<and> P (g x s)" "P s"
  shows "ofold f xs s = Some (fold g xs s) \<and> P (fold g xs s)"
  using assms by (induction xs arbitrary: s) auto

end
