(* ===== verification/Vmm.thy ===== *)
theory Vmm
  imports Prelude
begin

text \<open>
  The virtual memory manager of \<^verbatim>\<open>vmm.c\<close>: the boot page tables that identity-map the first
  6 GB with 1 GB pages, and the table of recorded mappings behind \<^verbatim>\<open>vmm_map_page\<close>,
  \<^verbatim>\<open>vmm_unmap_page\<close> and \<^verbatim>\<open>vmm_translate\<close>. The addresses the linker gives the static tables
  are parameters of \<open>vmm_initialize\<close>; \<open>page_walk\<close> is the processor's 4-level walk, the
  specification the boot tables are checked against. The two TLB flushes
  (\<^verbatim>\<open>invlpg\<close>) have no effect on the recorded state.
\<close>

subsection \<open>State and operations\<close>

definition PML4_INDEX :: "u64 \<Rightarrow> u64" where "PML4_INDEX vaddr = drop_bit 39 vaddr AND 0x1FF"
definition PDPT_INDEX :: "u64 \<Rightarrow> u64" where "PDPT_INDEX vaddr = drop_bit 30 vaddr AND 0x1FF"
definition PD_INDEX :: "u64 \<Rightarrow> u64" where "PD_INDEX vaddr = drop_bit 21 vaddr AND 0x1FF"
definition PT_INDEX :: "u64 \<Rightarrow> u64" where "PT_INDEX vaddr = drop_bit 12 vaddr AND 0x1FF"
definition PAGE_OFFSET :: "u64 \<Rightarrow> u64" where "PAGE_OFFSET vaddr = vaddr AND 0xFFF"

abbreviation PTE_PRESENT :: u64 where "PTE_PRESENT \<equiv> 0x001"
abbreviation PTE_WRITABLE :: u64 where "PTE_WRITABLE \<equiv> 0x002"
abbreviation PTE_ACCESSED :: u64 where "PTE_ACCESSED \<equiv> 0x020"
abbreviation PTE_HUGE :: u64 where "PTE_HUGE \<equiv> 0x080"

definition DEFAULT_FLAGS :: u64 where
  "DEFAULT_FLAGS = (PTE_PRESENT OR PTE_WRITABLE OR PTE_ACCESSED)"

record vmm_mapping_t =
  map_vaddr :: u64
  map_paddr :: u64
  map_flags :: u64

abbreviation VMM_MAX_MAPPINGS :: nat where "VMM_MAX_MAPPINGS \<equiv> 1024"

record vmm_t =
  kernel_pml4 :: "u64 list"
  kernel_pdpt :: "u64 list"
  cr3 :: u64
  vmm_mappings :: "vmm_mapping_t list"
  vmm_mapping_count :: u32

definition vmm_static :: vmm_t where
  "vmm_static = \<lparr>kernel_pml4 = replicate 512 0, kernel_pdpt = replicate 512 0, cr3 = 0,
     vmm_mappings = replicate VMM_MAX_MAPPINGS \<lparr>map_vaddr = 0, map_paddr = 0, map_flags = 0\<rparr>,
     vmm_mapping_count = 0\<rparr>"

definition vmm_initialize :: "u64 \<Rightarrow> u64 \<Rightarrow> vmm_t \<Rightarrow> vmm_t" where
  "vmm_initialize pml4_address pdpt_address s =
     (let pml4 = fold (\<lambda>i t. t[i := 0]) [0..<512] (kernel_pml4 s);
          pdpt = fold (\<lambda>i t. t[i := 0]) [0..<512] (kernel_pdpt s);
          pml4_entry = pdpt_address OR DEFAULT_FLAGS;
          pml4 = pml4[0 := pml4_entry];
          pml4 = pml4[256 := pml4_entry];
          pdpt = fold (\<lambda>i t. t[i := (of_nat i * 0x40000000) OR DEFAULT_FLAGS OR PTE_HUGE]) [0..<6] pdpt
      in s\<lparr>kernel_pml4 := pml4, kernel_pdpt := pdpt, cr3 := pml4_address\<rparr>)"

definition vmm_map_page :: "u64 \<Rightarrow> u64 \<Rightarrow> u64 \<Rightarrow> vmm_t \<Rightarrow> vmm_t" where
  "vmm_map_page vaddr paddr flags s =
     (if vmm_mapping_count s \<ge> of_nat VMM_MAX_MAPPINGS then s
      else s\<lparr>vmm_mappings := (vmm_mappings s)
               [unat (vmm_mapping_count s) := \<lparr>map_vaddr = vaddr, map_paddr = paddr, map_flags = flags\<rparr>],
             vmm_mapping_count := vmm_mapping_count s + 1\<rparr>)"

definition vmm_unmap_page :: "u64 \<Rightarrow> vmm_t \<Rightarrow> vmm_t" where
  "vmm_unmap_page vaddr s =
     (case first_idx (\<lambda>m. map_vaddr m = vaddr) (take (unat (vmm_mapping_count s)) (vmm_mappings s)) of
        Some i \<Rightarrow>
          s\<lparr>vmm_mappings := fold (\<lambda>j t. t[j := t ! Suc j]) [i..<unat (vmm_mapping_count s - 1)] (vmm_mappings s),
            vmm_mapping_count := vmm_mapping_count s - 1\<rparr>
      | None \<Rightarrow> s)"

definition vmm_translate :: "u64 \<Rightarrow> vmm_t \<Rightarrow> u64" where
  "vmm_translate vaddr s =
     (case first_idx (\<lambda>m. map_vaddr m = vaddr) (take (unat (vmm_mapping_count s)) (vmm_mappings s)) of
        Some i \<Rightarrow> map_paddr (vmm_mappings s ! i)
      | None \<Rightarrow> 0)"

subsection \<open>The recorded mappings as an association list\<close>

definition vmm_inv :: "vmm_t \<Rightarrow> bool" where
  "vmm_inv s \<longleftrightarrow> length (vmm_mappings s) = VMM_MAX_MAPPINGS \<and>
                 unat (vmm_mapping_count s) \<le> VMM_MAX_MAPPINGS"

definition vmm_list :: "vmm_t \<Rightarrow> vmm_mapping_t list" where
  "vmm_list s = take (unat (vmm_mapping_count s)) (vmm_mappings s)"

text \<open>The abstract state: for every page the mappings recorded for it, with their flags, oldest first.\<close>

definition page_maps :: "u64 \<Rightarrow> vmm_mapping_t list \<Rightarrow> (u64 \<times> u64) list" where
  "page_maps v ms = map (\<lambda>m. (map_paddr m, map_flags m)) (filter (\<lambda>m. map_vaddr m = v) ms)"

definition vmm_abs :: "vmm_t \<Rightarrow> u64 \<Rightarrow> (u64 \<times> u64) list" where
  "vmm_abs s v = page_maps v (vmm_list s)"

definition drop_nth :: "nat \<Rightarrow> 'a list \<Rightarrow> 'a list" where
  "drop_nth i xs = take i xs @ drop (Suc i) xs"

text \<open>The shifting loop removes one element of the prefix in use.\<close>

lemma shift_loop_length [simp]:
  "length (fold (\<lambda>j t. t[j := t ! Suc j]) is m) = length m"
  by (induction "is" arbitrary: m) auto

lemma shift_loop_nth:
  "i \<le> n \<Longrightarrow> n < length m \<Longrightarrow> k < length m \<Longrightarrow>
   fold (\<lambda>j t. t[j := t ! Suc j]) [i..<n] m ! k = (if i \<le> k \<and> k < n then m ! Suc k else m ! k)"
proof (induction "n - i" arbitrary: i m)
  case 0
  then show ?case by auto
next
  case (Suc d)
  then have "[i..<n] = i # [Suc i..<n]" by (metis upt_conv_Cons zero_less_Suc zero_less_diff)
  then show ?case
    using Suc.hyps(1) [of "Suc i" "m[i := m ! Suc i]"] Suc.hyps(2) Suc.prems
    by (auto simp: nth_list_update)
qed

lemma shift_loop_take:
  assumes "i < n" "n \<le> length m"
  shows "take (n - Suc 0) (fold (\<lambda>j t. t[j := t ! Suc j]) [i..<n - Suc 0] m) = drop_nth i (take n m)"
proof (rule nth_equalityI)
  show "length (take (n - Suc 0) (fold (\<lambda>j t. t[j := t ! Suc j]) [i..<n - Suc 0] m)) =
        length (drop_nth i (take n m))"
    using assms by (simp add: drop_nth_def)
  fix k assume "k < length (take (n - Suc 0) (fold (\<lambda>j t. t[j := t ! Suc j]) [i..<n - Suc 0] m))"
  then have k: "k < n - Suc 0" by simp
  then show "take (n - Suc 0) (fold (\<lambda>j t. t[j := t ! Suc j]) [i..<n - Suc 0] m) ! k = drop_nth i (take n m) ! k"
    using assms by (auto simp: shift_loop_nth drop_nth_def nth_append)
qed

lemma vmm_list_map_page:
  assumes "vmm_inv s"
  shows "vmm_list (vmm_map_page vaddr paddr flags s) =
     (if length (vmm_list s) < VMM_MAX_MAPPINGS
      then vmm_list s @ [\<lparr>map_vaddr = vaddr, map_paddr = paddr, map_flags = flags\<rparr>] else vmm_list s)"
    and "vmm_inv (vmm_map_page vaddr paddr flags s)"
proof -
  have len: "length (vmm_list s) = unat (vmm_mapping_count s)"
    using assms by (simp add: vmm_list_def vmm_inv_def)
  have full: "vmm_mapping_count s \<ge> of_nat VMM_MAX_MAPPINGS \<longleftrightarrow> \<not> length (vmm_list s) < VMM_MAX_MAPPINGS"
    by (simp add: len word_le_nat_alt not_less)
  have suc: "unat (vmm_mapping_count s + 1) = Suc (unat (vmm_mapping_count s))"
    using assms by (simp add: vmm_inv_def word_nat_simps)
  show "vmm_list (vmm_map_page vaddr paddr flags s) =
     (if length (vmm_list s) < VMM_MAX_MAPPINGS
      then vmm_list s @ [\<lparr>map_vaddr = vaddr, map_paddr = paddr, map_flags = flags\<rparr>] else vmm_list s)"
    using assms full suc len
    by (auto simp: vmm_map_page_def vmm_list_def vmm_inv_def take_Suc_conv_app_nth)
  show "vmm_inv (vmm_map_page vaddr paddr flags s)"
    using assms full suc len by (auto simp: vmm_map_page_def vmm_inv_def)
qed

lemma vmm_list_unmap_page:
  assumes "vmm_inv s"
  shows "vmm_list (vmm_unmap_page vaddr s) =
     (case first_idx (\<lambda>m. map_vaddr m = vaddr) (vmm_list s) of
        Some i \<Rightarrow> drop_nth i (vmm_list s) | None \<Rightarrow> vmm_list s)"
    and "vmm_inv (vmm_unmap_page vaddr s)"
proof -
  have dec: "unat (vmm_mapping_count s - 1) = unat (vmm_mapping_count s) - 1" if "0 < unat (vmm_mapping_count s)"
    using that by (simp add: unat_sub word_le_nat_alt)
  show "vmm_list (vmm_unmap_page vaddr s) =
     (case first_idx (\<lambda>m. map_vaddr m = vaddr) (vmm_list s) of
        Some i \<Rightarrow> drop_nth i (vmm_list s) | None \<Rightarrow> vmm_list s)"
    using assms dec
    by (auto simp: vmm_unmap_page_def vmm_list_def vmm_inv_def shift_loop_take
             split: option.splits dest!: first_idx_Some_less)
  show "vmm_inv (vmm_unmap_page vaddr s)"
    using assms dec
    by (auto simp: vmm_unmap_page_def vmm_inv_def split: option.splits dest!: first_idx_Some_less)
qed

lemma page_maps_first_idx:
  "page_maps v ms = (case first_idx (\<lambda>m. map_vaddr m = v) ms of
     None \<Rightarrow> [] | Some i \<Rightarrow> (map_paddr (ms ! i), map_flags (ms ! i)) # page_maps v (drop (Suc i) ms))"
  by (induction ms) (auto simp: page_maps_def split: option.splits)

lemma page_maps_remove_first:
  fixes w v ms
  defines "rest \<equiv> (case first_idx (\<lambda>m. map_vaddr m = v) ms of None \<Rightarrow> ms | Some i \<Rightarrow> drop_nth i ms)"
  shows "page_maps w rest = (if w = v then tl (page_maps v ms) else page_maps w ms)"
proof (cases "first_idx (\<lambda>m. map_vaddr m = v) ms")
  case None
  then show ?thesis by (simp add: rest_def page_maps_first_idx [of v ms])
next
  case (Some i)
  note i = first_idx_SomeD [OF Some]
  then have none: "page_maps v (take i ms) = []" by (auto simp: page_maps_def filter_empty_conv in_set_conv_nth)
  have split: "ms = take i ms @ ms ! i # drop (Suc i) ms" using i by (simp add: id_take_nth_drop)
  have "page_maps w ms = page_maps w (take i ms) @ page_maps w [ms ! i] @ page_maps w (drop (Suc i) ms)"
    by (subst split) (simp add: page_maps_def)
  moreover have "page_maps w rest = page_maps w (take i ms) @ page_maps w (drop (Suc i) ms)"
    by (simp add: rest_def Some drop_nth_def page_maps_def)
  ultimately show ?thesis using i none by (cases "w = v") (simp_all add: page_maps_def [of _ "[_]"])
qed

lemma vmm_translate_abs:
  "vmm_inv s \<Longrightarrow> vmm_translate v s = (case vmm_abs s v of [] \<Rightarrow> 0 | (p, _) # _ \<Rightarrow> p)"
  unfolding vmm_translate_def vmm_abs_def page_maps_first_idx [of v "vmm_list s"]
  by (auto simp: vmm_list_def split: option.splits dest!: first_idx_Some_less)

lemma vmm_abs_map_page:
  assumes "vmm_inv s"
  shows "vmm_abs (vmm_map_page v p f s) =
     (if length (vmm_list s) < VMM_MAX_MAPPINGS then (vmm_abs s)(v := vmm_abs s v @ [(p, f)]) else vmm_abs s)"
  by (auto simp: vmm_abs_def page_maps_def vmm_list_map_page(1) [OF assms] fun_eq_iff)

lemma vmm_abs_unmap_page:
  assumes "vmm_inv s"
  shows "vmm_abs (vmm_unmap_page v s) = (vmm_abs s)(v := tl (vmm_abs s v))"
proof
  fix w
  have "vmm_list (vmm_unmap_page v s) =
      (case first_idx (\<lambda>m. map_vaddr m = v) (vmm_list s) of None \<Rightarrow> vmm_list s | Some i \<Rightarrow> drop_nth i (vmm_list s))"
    by (simp add: vmm_list_unmap_page(1) [OF assms] split: option.splits)
  then show "vmm_abs (vmm_unmap_page v s) w = ((vmm_abs s)(v := tl (vmm_abs s v))) w"
    using page_maps_remove_first [where w = w and v = v and ms = "vmm_list s"] by (simp add: vmm_abs_def)
qed

lemma vmm_unmap_length:
  assumes "vmm_inv s"
  shows "length (vmm_list (vmm_unmap_page v s)) = length (vmm_list s) - (if vmm_abs s v = [] then 0 else 1)"
  unfolding vmm_abs_def page_maps_first_idx [of v "vmm_list s"]
  by (auto simp: vmm_list_unmap_page(1) [OF assms] drop_nth_def split: option.splits dest!: first_idx_Some_less)

subsection \<open>The processor's page walk\<close>

text \<open>
  The translation an x86-64 processor performs with the two static tables when the entry
  used in the second one is a 1 GB page: the present bit of both entries is set, the
  PML4 entry points (bits 12 to 51) at the table at \<open>pdpt_address\<close>, and the physical address
  is the frame of the second entry (bits 30 to 51) and the low 30 bits of the virtual one.
\<close>

definition page_walk :: "u64 \<Rightarrow> vmm_t \<Rightarrow> u64 \<Rightarrow> u64 option" where
  "page_walk pdpt_address s vaddr =
     (let e4 = kernel_pml4 s ! unat (PML4_INDEX vaddr); e3 = kernel_pdpt s ! unat (PDPT_INDEX vaddr) in
      if e4 AND PTE_PRESENT \<noteq> 0 \<and> (e4 AND 0x000FFFFFFFFFF000) = pdpt_address \<and>
         e3 AND PTE_PRESENT \<noteq> 0 \<and> e3 AND PTE_HUGE \<noteq> 0
      then Some ((e3 AND 0x000FFFFFC0000000) OR (vaddr AND 0x3FFFFFFF)) else None)"

definition tables_sized :: "vmm_t \<Rightarrow> bool" where
  "tables_sized s \<longleftrightarrow> length (kernel_pml4 s) = 512 \<and> length (kernel_pdpt s) = 512"

definition page_aligned :: "u64 \<Rightarrow> bool" where
  "page_aligned a \<longleftrightarrow> a AND 0x000FFFFFFFFFF000 = a"

lemma vmm_initialize_pml4:
  "tables_sized s \<Longrightarrow> k \<in> {0, 256} \<Longrightarrow>
   kernel_pml4 (vmm_initialize pml4 pdpt s) ! k = pdpt OR DEFAULT_FLAGS"
  by (auto simp: vmm_initialize_def tables_sized_def Let_def nth_list_update)

lemma vmm_initialize_pml4_other:
  "tables_sized s \<Longrightarrow> k < 512 \<Longrightarrow> k \<notin> {0, 256} \<Longrightarrow> kernel_pml4 (vmm_initialize pml4 pdpt s) ! k = 0"
  by (auto simp: vmm_initialize_def tables_sized_def Let_def nth_list_update nth_fold_list_update)

lemma vmm_initialize_pdpt:
  "tables_sized s \<Longrightarrow> k < 512 \<Longrightarrow>
   kernel_pdpt (vmm_initialize pml4 pdpt s) ! k =
     (if k < 6 then of_nat k * 0x40000000 OR DEFAULT_FLAGS OR PTE_HUGE else 0)"
  by (auto simp: vmm_initialize_def tables_sized_def Let_def nth_fold_list_update)

lemma entry_points_at_table:
  assumes "page_aligned a"
  shows "(a OR DEFAULT_FLAGS) AND 0x000FFFFFFFFFF000 = a" "(a OR DEFAULT_FLAGS) AND PTE_PRESENT \<noteq> 0"
proof -
  have "(a OR DEFAULT_FLAGS) AND 0x000FFFFFFFFFF000 =
        (a AND 0x000FFFFFFFFFF000) OR (DEFAULT_FLAGS AND 0x000FFFFFFFFFF000)"
    by (rule bit.conj_disj_distrib2)
  then show "(a OR DEFAULT_FLAGS) AND 0x000FFFFFFFFFF000 = a"
    using assms by (simp add: page_aligned_def DEFAULT_FLAGS_def)
  have "bit (a OR DEFAULT_FLAGS) 0" by (simp add: DEFAULT_FLAGS_def bit_or_iff bit_0 even_or_iff)
  then show "(a OR DEFAULT_FLAGS) AND PTE_PRESENT \<noteq> 0"
    using bit_test_exp_eq0 [of "a OR DEFAULT_FLAGS" 0] by simp
qed

text \<open>With a PML4 index of 0 or 256 and a PDPT index below 6 the walk reaches a 1 GB page.\<close>

lemma page_walk_huge:
  assumes "tables_sized s" "page_aligned pdpt" "unat (PML4_INDEX v) \<in> {0, 256}" "unat (PDPT_INDEX v) < 6"
  shows "page_walk pdpt (vmm_initialize pml4 pdpt s) v =
           Some (PDPT_INDEX v * 0x40000000 OR (v AND 0x3FFFFFFF))"
proof -
  let ?i = "unat (PDPT_INDEX v)"
  have e4: "kernel_pml4 (vmm_initialize pml4 pdpt s) ! unat (PML4_INDEX v) = pdpt OR DEFAULT_FLAGS"
    by (rule vmm_initialize_pml4 [OF assms(1,3)])
  have e3: "kernel_pdpt (vmm_initialize pml4 pdpt s) ! ?i = of_nat ?i * 0x40000000 OR DEFAULT_FLAGS OR PTE_HUGE"
    using vmm_initialize_pdpt [OF assms(1), of ?i] assms(4) by simp
  have "?i = 0 \<or> ?i = 1 \<or> ?i = 2 \<or> ?i = 3 \<or> ?i = 4 \<or> ?i = 5" using assms(4) by arith
  then have "(of_nat ?i * 0x40000000 OR DEFAULT_FLAGS OR PTE_HUGE) AND PTE_PRESENT \<noteq> (0 :: u64) \<and>
        (of_nat ?i * 0x40000000 OR DEFAULT_FLAGS OR PTE_HUGE) AND PTE_HUGE \<noteq> (0 :: u64) \<and>
        (of_nat ?i * 0x40000000 OR DEFAULT_FLAGS OR PTE_HUGE) AND 0x000FFFFFC0000000 = (of_nat ?i * 0x40000000 :: u64)"
    by (elim disjE; simp only:) (simp_all add: DEFAULT_FLAGS_def)
  then show ?thesis
    using entry_points_at_table [OF assms(2)]
    by (simp add: page_walk_def e4 e3 Let_def)
qed

lemma low_address_indices:
  assumes "v < 0x180000000"
  shows "PML4_INDEX v = 0" "PDPT_INDEX v = drop_bit 30 v" "unat (drop_bit 30 v) < 6"
proof -
  have v: "unat v < 0x180000000" using assms by (simp add: word_less_nat_alt)
  have "unat (drop_bit 39 v) = 0" using v by (simp add: unat_drop_bit_div)
  then show "PML4_INDEX v = 0" by (simp add: PML4_INDEX_def unat_eq_zero)
  show u: "unat (drop_bit 30 v) < 6" using v by (simp add: unat_drop_bit_div)
  have "drop_bit 30 v AND 0x1FF = take_bit 9 (drop_bit 30 v)" by (simp add: take_bit_eq_mask mask_numeral)
  also have "\<dots> = drop_bit 30 v"
    using u by (intro iffD2 [OF word_unat_eq_iff]) (simp add: unsigned_take_bit_eq take_bit_nat_eq_self)
  finally show "PDPT_INDEX v = drop_bit 30 v" by (simp add: PDPT_INDEX_def)
qed

lemma join_1gb_page: "drop_bit 30 v * 0x40000000 OR (v AND 0x3FFFFFFF) = v" for v :: u64
proof -
  have "drop_bit 30 v * 0x40000000 = push_bit 30 (drop_bit 30 v)" by (simp add: push_bit_eq_mult)
  moreover have "v AND 0x3FFFFFFF = take_bit 30 v" by (simp add: take_bit_eq_mask mask_numeral)
  moreover have "push_bit 30 (drop_bit 30 v) OR take_bit 30 v = v"
    by (rule bit_word_eqI) (auto simp: bit_or_iff bit_push_bit_iff bit_drop_bit_eq bit_take_bit_iff)
  ultimately show ?thesis by simp
qed

lemma high_half_indices:
  "PML4_INDEX (v OR 0xFFFF800000000000) = PML4_INDEX v OR 256"
  "PDPT_INDEX (v OR 0xFFFF800000000000) = PDPT_INDEX v"
  "(v OR 0xFFFF800000000000) AND 0x3FFFFFFF = v AND 0x3FFFFFFF"
  unfolding PML4_INDEX_def PDPT_INDEX_def drop_bit_or bit.conj_disj_distrib2 by simp_all

subsection \<open>Properties\<close>

text \<open>
  After \<open>vmm_initialize\<close> the processor translates every virtual address below 6 GB to
  itself, and the same address in the high-half alias at 0xFFFF800000000000 to it too.
\<close>

theorem vmm_identity_map:
  assumes "tables_sized s" and "page_aligned pdpt" and "v < 0x180000000"
  shows "page_walk pdpt (vmm_initialize pml4 pdpt s) v = Some v \<and>
         page_walk pdpt (vmm_initialize pml4 pdpt s) (v OR 0xFFFF800000000000) = Some v"
  using page_walk_huge [OF assms(1,2), of v] low_address_indices [OF assms(3)] join_1gb_page [of v]
    page_walk_huge [OF assms(1,2), of "v OR 0xFFFF800000000000"]
  by (simp add: high_half_indices)

theorem vmm_identity_map_witness:
  "page_walk 0x5000 (vmm_initialize 0x4000 0x5000 vmm_static) 0xC0001234 = Some 0xC0001234"
  using vmm_identity_map [of vmm_static "0x5000" "0xC0001234" "0x4000"]
  by (simp add: tables_sized_def vmm_static_def page_aligned_def)

text \<open>
  C5: The table of recorded mappings implements, for every page, a queue of mappings whose oldest one is in force. \<open>vmm_translate\<close> reads the
  oldest mapping of the page, 0 when it has none. \<open>vmm_map_page\<close> puts the mapping at the end of the queue of its page as long as fewer than 1024 mappings
  are recorded, and changes nothing then. \<open>vmm_unmap_page\<close> removes the oldest mapping of the page, so that the next older one comes into force, and
  leaves every other page as it was. Both keep the table well formed, and the number of recorded mappings changes accordingly.
\<close>

theorem vmm_map_unmap_refine:
  assumes "vmm_inv s"
  shows "vmm_translate v s = (case vmm_abs s v of [] \<Rightarrow> 0 | (p, _) # _ \<Rightarrow> p) \<and>
    vmm_abs (vmm_map_page v p f s) =
      (if length (vmm_list s) < VMM_MAX_MAPPINGS then (vmm_abs s)(v := vmm_abs s v @ [(p, f)]) else vmm_abs s) \<and>
    length (vmm_list (vmm_map_page v p f s)) = min VMM_MAX_MAPPINGS (length (vmm_list s) + 1) \<and>
    vmm_abs (vmm_unmap_page v s) = (vmm_abs s)(v := tl (vmm_abs s v)) \<and>
    length (vmm_list (vmm_unmap_page v s)) = length (vmm_list s) - (if vmm_abs s v = [] then 0 else 1) \<and>
    vmm_inv (vmm_map_page v p f s) \<and> vmm_inv (vmm_unmap_page v s)"
proof -
  have "length (vmm_list s) \<le> VMM_MAX_MAPPINGS" using assms by (simp add: vmm_list_def vmm_inv_def)
  then have "length (vmm_list (vmm_map_page v p f s)) = min VMM_MAX_MAPPINGS (length (vmm_list s) + 1)"
    by (simp add: vmm_list_map_page(1) [OF assms])
  then show ?thesis
    using vmm_translate_abs [OF assms] vmm_abs_map_page [OF assms] vmm_abs_unmap_page [OF assms] vmm_unmap_length [OF assms]
      vmm_list_map_page(2) [OF assms] vmm_list_unmap_page(2) [OF assms]
    by blast
qed

lemma vmm_static_inv: "vmm_inv vmm_static" "vmm_list vmm_static = []"
  by (simp_all add: vmm_inv_def vmm_list_def vmm_static_def)

theorem vmm_map_unmap_refine_witness:
  "vmm_abs (vmm_map_page 0x1000 0x2000 3 vmm_static) 0x1000 = [(0x2000, 3)] \<and>
   vmm_translate 0x1000 (vmm_map_page 0x1000 0x2000 3 vmm_static) = 0x2000"
proof -
  note one = vmm_map_unmap_refine [OF vmm_static_inv(1), of "0x1000" "0x2000" 3]
  then have "vmm_inv (vmm_map_page 0x1000 0x2000 3 vmm_static)" by blast
  from vmm_map_unmap_refine [OF this, of "0x1000" 0 0] one show ?thesis
    by (simp add: vmm_abs_def page_maps_def vmm_static_inv)
qed

text \<open>
  Mapping a page again does not replace its mapping, and unmapping it once does not make it unmapped: the newer mapping comes into force.
\<close>

theorem vmm_unmap_exposes_duplicate:
  assumes "vmm_inv s" "length (vmm_list s) + 2 \<le> VMM_MAX_MAPPINGS" "vmm_abs s v = []"
  shows "vmm_translate v (vmm_map_page v q g (vmm_map_page v p f s)) = p \<and>
    vmm_translate v (vmm_unmap_page v (vmm_map_page v q g (vmm_map_page v p f s))) = q"
proof -
  let ?s1 = "vmm_map_page v p f s" and ?s2 = "vmm_map_page v q g (vmm_map_page v p f s)"
  have inv: "vmm_inv ?s1" "vmm_inv ?s2" "vmm_inv (vmm_unmap_page v ?s2)"
    using assms(1) by (simp_all add: vmm_list_map_page(2) vmm_list_unmap_page(2))
  have "length (vmm_list ?s1) < VMM_MAX_MAPPINGS" using assms(2) by (simp add: vmm_list_map_page(1) [OF assms(1)])
  then have "vmm_abs ?s2 v = [(p, f), (q, g)]"
    using assms(2,3) by (simp add: vmm_abs_map_page [OF inv(1)] vmm_abs_map_page [OF assms(1)])
  then show ?thesis
    by (simp add: vmm_translate_abs [OF inv(2)] vmm_translate_abs [OF inv(3)] vmm_abs_unmap_page [OF inv(2)])
qed

theorem vmm_unmap_exposes_duplicate_witness:
  "vmm_translate 0x1000 (vmm_unmap_page 0x1000 (vmm_map_page 0x1000 0x3000 3 (vmm_map_page 0x1000 0x2000 3 vmm_static))) = 0x3000"
  using vmm_unmap_exposes_duplicate [OF vmm_static_inv(1), of "0x1000" "0x3000" 3 "0x2000" 3]
  by (simp add: vmm_static_inv vmm_abs_def page_maps_def)

end
