(* ===== verification/Allocator.thy ===== *)
theory Allocator
  imports Prelude
begin

text \<open>
  The interface the kernel's two allocators share: the frame allocator of \<^verbatim>\<open>pmm.c\<close> and
  \<^verbatim>\<open>kmalloc\<close>/\<^verbatim>\<open>kfree\<close> of \<^verbatim>\<open>heap.c\<close>. A provider says which addresses it could hand out
  (\<open>free\<close>) and which are handed out (\<open>live\<close>); the client lemmas are that an address is never
  handed out twice without a release in between, and that a run of allocations returns
  distinct addresses.
\<close>

text \<open>A client that allocates \<open>n\<close> times in a row.\<close>

primrec alloc_seq :: "('s \<Rightarrow> 'a \<times> 's) \<Rightarrow> nat \<Rightarrow> 's \<Rightarrow> 'a list \<times> 's" where
  "alloc_seq alloc 0 s = ([], s)"
| "alloc_seq alloc (Suc n) s =
     (let (a, s') = alloc s; (as, s'') = alloc_seq alloc n s' in (a # as, s''))"

locale allocator =
  fixes alloc :: "'s \<Rightarrow> 'a \<times> 's"
    and release :: "'a \<Rightarrow> 's \<Rightarrow> 's"
    and free :: "'s \<Rightarrow> 'a set"
    and live :: "'s \<Rightarrow> 'a set"
    and invar :: "'s \<Rightarrow> bool"
  assumes free_finite: "invar s \<Longrightarrow> finite (free s)"
    and free_live_disjoint: "invar s \<Longrightarrow> free s \<inter> live s = {}"
    and alloc_law: "invar s \<Longrightarrow> free s \<noteq> {} \<Longrightarrow> alloc s = (a, s') \<Longrightarrow>
          a \<in> free s \<and> free s' = free s - {a} \<and> live s' = insert a (live s) \<and> invar s'"
    and release_law: "invar s \<Longrightarrow> a \<in> live s \<Longrightarrow>
          free (release a s) = insert a (free s) \<and> live (release a s) = live s - {a} \<and>
          invar (release a s)"
begin

lemma alloc_not_live:
  "invar s \<Longrightarrow> free s \<noteq> {} \<Longrightarrow> alloc s = (a, s') \<Longrightarrow> a \<notin> live s"
  using alloc_law free_live_disjoint by blast

lemma alloc_release:
  assumes "invar s" "free s \<noteq> {}" "alloc s = (a, s')"
  shows "free (release a s') = free s" "live (release a s') = live s" "invar (release a s')"
  using alloc_law [OF assms] release_law [of s' a] alloc_not_live [OF assms] by auto

lemma alloc_seq_distinct:
  assumes "invar s" "n \<le> card (free s)" "alloc_seq alloc n s = (as, s')"
  shows "length as = n \<and> distinct as \<and> set as \<subseteq> free s \<and> free s' = free s - set as \<and>
         live s' = live s \<union> set as \<and> invar s'"
  using assms
proof (induction n arbitrary: s as s')
  case 0
  then show ?case by simp
next
  case (Suc n)
  obtain a s1 where a: "alloc s = (a, s1)" by fastforce
  obtain as1 where as1: "alloc_seq alloc n s1 = (as1, s')" "as = a # as1"
    using Suc.prems(3) a by (auto split: prod.splits)
  have ne: "free s \<noteq> {}" using Suc.prems(2) by auto
  note step = alloc_law [OF Suc.prems(1) ne a]
  have "n \<le> card (free s1)"
    using Suc.prems(2) step free_finite [OF Suc.prems(1)] by simp
  then show ?case using Suc.IH [of s1 as1 s'] step as1 by auto
qed

end

end
