(* ===== verification/Pmm.thy ===== *)
theory Pmm
  imports Allocator
begin

text \<open>
  The physical memory manager of \<^verbatim>\<open>pmm.c\<close>: a bitmap with one bit per 4 KB frame (1 = free)
  and a counter of free frames. The state is the static \<^verbatim>\<open>pmm_state\<close> together with the
  static array \<^verbatim>\<open>bitmap_storage\<close> that its \<^verbatim>\<open>bitmap\<close> pointer always denotes after
  \<^verbatim>\<open>pmm_initialize\<close>. The abstraction is the set of free frame numbers; the invariant ties the
  counter to its cardinality and keeps it below \<^verbatim>\<open>total_frames\<close>.
\<close>

subsection \<open>State and operations\<close>

abbreviation FRAME_SIZE :: u64 where "FRAME_SIZE \<equiv> 4096"
abbreviation BITMAP_WORDS :: nat where "BITMAP_WORDS \<equiv> 131072"

record pmm_t =
  bitmap :: "u64 list"
  total_frames :: u64
  free_frames :: u64
  base_address :: u64

definition pmm_static :: pmm_t where
  "pmm_static = \<lparr>bitmap = replicate BITMAP_WORDS 0, total_frames = 0, free_frames = 0,
                 base_address = 0\<rparr>"

definition pmm_initialize :: "u64 \<Rightarrow> pmm_t \<Rightarrow> pmm_t" where
  "pmm_initialize total_memory s =
     (let frames = (total_memory + FRAME_SIZE - 1) div FRAME_SIZE;
          bitmap_size = (frames + 63) div 64;
          too_large = bitmap_size > 131072;
          bitmap_size' = (if too_large then 131072 else bitmap_size);
          frames' = (if too_large then bitmap_size' * 64 else frames)
      in s\<lparr>total_frames := frames', free_frames := 0, base_address := 0,
           bitmap := fold (\<lambda>i bm. bm[i := 0]) [0..<unat bitmap_size'] (bitmap s)\<rparr>)"

function pmm_add_loop :: "u64 \<Rightarrow> u64 \<Rightarrow> u64 \<Rightarrow> pmm_t \<Rightarrow> pmm_t" where
  "pmm_add_loop frame end_frame bitmap_end s =
     (if frame < end_frame \<and> frame < total_frames s then
        (let bitmap_idx = frame div 64; bit_idx = unat (frame mod 64); i = unat bitmap_idx in
         if bitmap_idx \<ge> bitmap_end then s
         else pmm_add_loop (frame + 1) end_frame bitmap_end
                (if bitmap s ! i AND push_bit bit_idx 1 = 0
                 then s\<lparr>bitmap := (bitmap s)[i := bitmap s ! i OR push_bit bit_idx 1],
                        free_frames := free_frames s + 1\<rparr>
                 else s))
      else s)"
  by pat_completeness auto
termination
  by (relation "measure (\<lambda>(frame, end_frame, bitmap_end, s). unat end_frame - unat frame)")
     (auto simp: word_loop_measure)

definition pmm_add_available_range :: "u64 \<Rightarrow> u64 \<Rightarrow> pmm_t \<Rightarrow> pmm_t" where
  "pmm_add_available_range address len s =
     (if len = 0 then s
      else let start_frame = address div FRAME_SIZE;
               end_frame = (address + len + FRAME_SIZE - 1) div FRAME_SIZE;
               bitmap_end = (total_frames s + 63) div 64
           in pmm_add_loop start_frame end_frame bitmap_end s)"

function pmm_reserve_loop :: "u64 \<Rightarrow> u64 \<Rightarrow> u64 \<Rightarrow> pmm_t \<Rightarrow> pmm_t" where
  "pmm_reserve_loop frame end_frame bitmap_end s =
     (if frame < end_frame \<and> frame < total_frames s then
        (let bitmap_idx = frame div 64; bit_idx = unat (frame mod 64); i = unat bitmap_idx in
         if bitmap_idx \<ge> bitmap_end then s
         else pmm_reserve_loop (frame + 1) end_frame bitmap_end
                (if bitmap s ! i AND push_bit bit_idx 1 \<noteq> 0
                 then s\<lparr>bitmap := (bitmap s)[i := bitmap s ! i AND NOT (push_bit bit_idx 1)],
                        free_frames := free_frames s - 1\<rparr>
                 else s))
      else s)"
  by pat_completeness auto
termination
  by (relation "measure (\<lambda>(frame, end_frame, bitmap_end, s). unat end_frame - unat frame)")
     (auto simp: word_loop_measure)

definition pmm_reserve_range :: "u64 \<Rightarrow> u64 \<Rightarrow> pmm_t \<Rightarrow> pmm_t" where
  "pmm_reserve_range address len s =
     (if len = 0 then s
      else let start_frame = address div FRAME_SIZE;
               end_frame = (address + len + FRAME_SIZE - 1) div FRAME_SIZE;
               bitmap_end = (total_frames s + 63) div 64
           in pmm_reserve_loop start_frame end_frame bitmap_end s)"

text \<open>The inner loop of \<^verbatim>\<open>pmm_allocate_frame\<close>: the lowest set bit of one bitmap entry.\<close>

definition pmm_lowest_bit :: "u64 \<Rightarrow> nat option" where
  "pmm_lowest_bit w = find (\<lambda>bit_idx. w AND push_bit bit_idx 1 \<noteq> 0) [0..<64]"

function pmm_allocate_loop :: "u64 \<Rightarrow> pmm_t \<Rightarrow> u64 \<times> pmm_t" where
  "pmm_allocate_loop bitmap_idx s =
     (if bitmap_idx < (total_frames s + 63) div 64 then
        (let i = unat bitmap_idx in
         if bitmap s ! i \<noteq> 0 then
           (case pmm_lowest_bit (bitmap s ! i) of
              Some bit_idx \<Rightarrow>
                (let frame_num = bitmap_idx * 64 + of_nat bit_idx;
                     paddr = frame_num * FRAME_SIZE
                 in (paddr,
                     s\<lparr>bitmap := (bitmap s)[i := bitmap s ! i AND NOT (push_bit bit_idx 1)],
                       free_frames := free_frames s - 1\<rparr>))
            | None \<Rightarrow> pmm_allocate_loop (bitmap_idx + 1) s)
         else pmm_allocate_loop (bitmap_idx + 1) s)
      else (0, s))"
  by pat_completeness auto
termination
  by (relation "measure (\<lambda>(bitmap_idx, s). unat ((total_frames s + 63) div 64) - unat bitmap_idx)")
     (auto simp: word_loop_measure)

definition pmm_allocate_frame :: "pmm_t \<Rightarrow> u64 \<times> pmm_t" where
  "pmm_allocate_frame s = pmm_allocate_loop 0 s"

definition pmm_free_frame :: "u64 \<Rightarrow> pmm_t \<Rightarrow> pmm_t" where
  "pmm_free_frame paddr s =
     (let frame_num = paddr div FRAME_SIZE; bitmap_idx = frame_num div 64;
          bit_idx = unat (frame_num mod 64); i = unat bitmap_idx
      in if bitmap_idx \<ge> (total_frames s + 63) div 64 then s
         else s\<lparr>bitmap := (bitmap s)[i := bitmap s ! i OR push_bit bit_idx 1],
                free_frames := free_frames s + 1\<rparr>)"

definition pmm_get_available :: "pmm_t \<Rightarrow> u64" where
  "pmm_get_available s = free_frames s * FRAME_SIZE"

declare pmm_add_loop.simps [simp del] pmm_reserve_loop.simps [simp del]
  pmm_allocate_loop.simps [simp del]

subsection \<open>The free set and the invariant\<close>

definition frame_free :: "pmm_t \<Rightarrow> nat \<Rightarrow> bool" where
  "frame_free s f \<longleftrightarrow> f div 64 < length (bitmap s) \<and> bit (bitmap s ! (f div 64)) (f mod 64)"

definition free_set :: "pmm_t \<Rightarrow> nat set" where
  "free_set s = {f. frame_free s f}"

definition pmm_inv :: "pmm_t \<Rightarrow> bool" where
  "pmm_inv s \<longleftrightarrow>
     length (bitmap s) = BITMAP_WORDS \<and>
     unat (total_frames s) \<le> BITMAP_WORDS * 64 \<and>
     free_set s \<subseteq> {..<unat (total_frames s)} \<and>
     unat (free_frames s) = card (free_set s)"

lemma free_set_finite [simp]: "finite (free_set s)"
proof (rule finite_subset)
  show "free_set s \<subseteq> {..<64 * length (bitmap s)}"
    by (auto simp: free_set_def frame_free_def)
qed simp

text \<open>Setting and clearing one bit of the bitmap, on the free set.\<close>

lemma frame_free_update:
  "i < length (bitmap s) \<Longrightarrow>
   frame_free (s\<lparr>bitmap := (bitmap s)[i := w], free_frames := n\<rparr>) g \<longleftrightarrow>
     (if g div 64 = i then bit w (g mod 64) else frame_free s g)"
  by (simp add: frame_free_def)

lemma frame_eqI: "g div 64 = f div 64 \<Longrightarrow> g mod 64 = f mod 64 \<Longrightarrow> g = f" for f g :: nat
  by (metis div_mult_mod_eq)

lemma free_set_set_bit:
  assumes "f div 64 < length (bitmap s)"
  shows "free_set (s\<lparr>bitmap := (bitmap s)[f div 64 := bitmap s ! (f div 64) OR push_bit (f mod 64) 1],
                     free_frames := n\<rparr>) = insert f (free_set s)" (is "free_set ?s' = _")
proof (rule set_eqI)
  fix g
  have "frame_free ?s' g \<longleftrightarrow> g = f \<or> frame_free s g"
    unfolding frame_free_update [OF assms]
    using assms frame_eqI [of g f] by (auto simp: frame_free_def bit_or_iff bit_exp_iff)
  then show "g \<in> free_set ?s' \<longleftrightarrow> g \<in> insert f (free_set s)"
    by (simp add: free_set_def)
qed

lemma free_set_clear_bit:
  assumes "f div 64 < length (bitmap s)"
  shows "free_set (s\<lparr>bitmap := (bitmap s)[f div 64 := bitmap s ! (f div 64) AND NOT (push_bit (f mod 64) 1)],
                     free_frames := n\<rparr>) = free_set s - {f}" (is "free_set ?s' = _")
proof (rule set_eqI)
  fix g
  have "frame_free ?s' g \<longleftrightarrow> frame_free s g \<and> g \<noteq> f"
    unfolding frame_free_update [OF assms]
    using assms frame_eqI [of g f]
    by (auto simp: frame_free_def bit_and_iff bit_not_iff bit_exp_iff)
  then show "g \<in> free_set ?s' \<longleftrightarrow> g \<in> free_set s - {f}"
    by (simp add: free_set_def)
qed

subsection \<open>One bit set, one bit cleared\<close>

text \<open>
  The three update statements of the code (add, reserve and allocate, free) as the two
  transitions of the abstract allocator.
\<close>

definition mark_free :: "nat \<Rightarrow> pmm_t \<Rightarrow> pmm_t" where
  "mark_free f s =
     s\<lparr>bitmap := (bitmap s)[f div 64 := bitmap s ! (f div 64) OR push_bit (f mod 64) 1],
       free_frames := free_frames s + 1\<rparr>"

definition mark_used :: "nat \<Rightarrow> pmm_t \<Rightarrow> pmm_t" where
  "mark_used f s =
     s\<lparr>bitmap := (bitmap s)[f div 64 := bitmap s ! (f div 64) AND NOT (push_bit (f mod 64) 1)],
       free_frames := free_frames s - 1\<rparr>"

lemma mark_free_simps [simp]:
  "total_frames (mark_free f s) = total_frames s" "base_address (mark_free f s) = base_address s"
  "length (bitmap (mark_free f s)) = length (bitmap s)"
  "free_frames (mark_free f s) = free_frames s + 1"
  by (simp_all add: mark_free_def)

lemma mark_used_simps [simp]:
  "total_frames (mark_used f s) = total_frames s" "base_address (mark_used f s) = base_address s"
  "length (bitmap (mark_used f s)) = length (bitmap s)"
  "free_frames (mark_used f s) = free_frames s - 1"
  by (simp_all add: mark_used_def)

lemma pmm_inv_words:
  assumes "pmm_inv s"
  shows "unat ((total_frames s + 63) div 64) = (unat (total_frames s) + 63) div 64"
  using assms by (simp add: pmm_inv_def word_nat_simps)

lemma pmm_inv_index:
  assumes "pmm_inv s" "f < unat (total_frames s)"
  shows "f div 64 < length (bitmap s)" "f div 64 < unat ((total_frames s + 63) div 64)"
  using assms by (auto simp: pmm_inv_words) (auto simp: pmm_inv_def)

lemma pmm_inv_card:
  assumes "pmm_inv s"
  shows "card (free_set s) \<le> unat (total_frames s)"
  using assms card_mono [of "{..<unat (total_frames s)}" "free_set s"] by (simp add: pmm_inv_def)

lemma free_set_mark_free:
  "f div 64 < length (bitmap s) \<Longrightarrow> free_set (mark_free f s) = insert f (free_set s)"
  unfolding mark_free_def by (rule free_set_set_bit)

lemma free_set_mark_used:
  "f div 64 < length (bitmap s) \<Longrightarrow> free_set (mark_used f s) = free_set s - {f}"
  unfolding mark_used_def by (rule free_set_clear_bit)

lemma pmm_inv_mark_free:
  assumes "pmm_inv s" "f < unat (total_frames s)" "f \<notin> free_set s"
  shows "pmm_inv (mark_free f s)"
proof -
  have "unat (free_frames s) + 1 < 2 ^ 64"
    using pmm_inv_card [OF assms(1)] assms(1) by (simp add: pmm_inv_def)
  then have "unat (free_frames s + 1) = card (insert f (free_set s))"
    using assms by (simp add: pmm_inv_def word_nat_simps)
  with assms show ?thesis
    by (simp add: pmm_inv_def free_set_mark_free [OF pmm_inv_index(1) [OF assms(1,2)]])
qed

lemma pmm_inv_mark_used:
  assumes "pmm_inv s" "f \<in> free_set s"
  shows "pmm_inv (mark_used f s)"
proof -
  have "card (free_set s) > 0" using assms(2) by (auto simp: card_gt_0_iff)
  then have "unat (free_frames s) \<ge> 1" using assms(1) by (simp add: pmm_inv_def)
  then have "unat (free_frames s - 1) = card (free_set s - {f})"
    using assms by (simp add: pmm_inv_def unat_sub word_le_nat_alt)
  moreover have "f div 64 < length (bitmap s)"
    using assms(2) by (simp add: free_set_def frame_free_def)
  ultimately show ?thesis
    using assms(1) by (auto simp: pmm_inv_def free_set_mark_used)
qed

subsection \<open>Initialisation\<close>

lemma pmm_initialize_total_frames:
  "unat (total_frames (pmm_initialize m s)) \<le> BITMAP_WORDS * 64"
proof -
  define tf where "tf = (m + FRAME_SIZE - 1) div FRAME_SIZE"
  have "unat tf < 2 ^ 52"
    unfolding tf_def unat_div_word using unsigned_less [of "m + FRAME_SIZE - 1", where 'a = nat]
    by (simp add: less_mult_imp_div_less)
  then have "unat ((tf + 63) div 64) = (unat tf + 63) div 64"
    by (simp add: word_nat_simps)
  then show ?thesis
    unfolding pmm_initialize_def tf_def [symmetric]
    by (auto simp: Let_def word_less_nat_alt)
qed

lemma pmm_initialize_frames:
  assumes "unat m + 4095 < 2 ^ 64"
  shows "unat (total_frames (pmm_initialize m s)) = min ((unat m + 4095) div 4096) (BITMAP_WORDS * 64)"
proof -
  define tf where "tf = (m + FRAME_SIZE - 1) div FRAME_SIZE"
  have "m + FRAME_SIZE - 1 = m + 4095" by simp
  then have tf: "unat tf = (unat m + 4095) div 4096" unfolding tf_def using assms by (simp add: word_nat_simps)
  then have "unat tf < 2 ^ 52" using assms by (simp add: less_mult_imp_div_less)
  then have w: "unat ((tf + 63) div 64) = (unat tf + 63) div 64" by (simp add: word_nat_simps)
  then have "total_frames (pmm_initialize m s) = (if unat tf > 131072 * 64 then 131072 * 64 else tf)"
    unfolding pmm_initialize_def tf_def [symmetric] by (auto simp: Let_def word_less_nat_alt)
  then show ?thesis using tf by auto
qed

text \<open>
  Every word up to the last one the frames use is cleared, so no frame is free after
  initialisation, whatever an earlier initialisation left in the static bitmap below it.
\<close>

lemma pmm_initialize_inv:
  assumes "length (bitmap s) = BITMAP_WORDS" "free_set s = {}"
  shows "pmm_inv (pmm_initialize m s)" "free_set (pmm_initialize m s) = {}"
proof -
  have "\<not> frame_free (pmm_initialize m s) f" for f
  proof
    assume *: "frame_free (pmm_initialize m s) f"
    then have "f div 64 < length (bitmap s)"
      by (simp add: frame_free_def pmm_initialize_def Let_def)
    with * have "frame_free s f"
      by (auto simp: frame_free_def pmm_initialize_def Let_def nth_fold_list_update split: if_splits)
    with assms(2) show False by (auto simp: free_set_def)
  qed
  then show fs: "free_set (pmm_initialize m s) = {}" by (simp add: free_set_def)
  show "pmm_inv (pmm_initialize m s)"
    using fs pmm_initialize_total_frames [of m s] assms(1)
    by (simp add: pmm_inv_def) (simp add: pmm_initialize_def Let_def)
qed

lemma pmm_static_free_set: "length (bitmap pmm_static) = BITMAP_WORDS" "free_set pmm_static = {}"
  by (auto simp: pmm_static_def free_set_def frame_free_def)

subsection \<open>Adding and reserving ranges\<close>

lemma frame_index_word:
  "unat (frame div 64) = unat frame div 64" "unat (frame mod 64) = unat frame mod 64"
  for frame :: u64
  by (simp_all add: word_nat_simps)

lemma pmm_add_loop_exit:
  "\<not> (frame < end_frame \<and> frame < total_frames s) \<Longrightarrow>
   pmm_add_loop frame end_frame bitmap_end s = s"
  by (subst pmm_add_loop.simps) (simp only: if_False)

lemma pmm_add_loop_step:
  assumes "pmm_inv s" "bitmap_end = (total_frames s + 63) div 64"
    and "frame < end_frame" "frame < total_frames s"
  shows "pmm_add_loop frame end_frame bitmap_end s =
     pmm_add_loop (frame + 1) end_frame bitmap_end
       (if unat frame \<in> free_set s then s else mark_free (unat frame) s)"
proof -
  have f: "unat frame < unat (total_frames s)" using assms(4) by (simp add: word_less_nat_alt)
  have "unat frame div 64 < length (bitmap s)" "\<not> bitmap_end \<le> frame div 64"
    using pmm_inv_index [OF assms(1) f] assms(2)
    by (simp_all add: word_le_nat_alt frame_index_word)
  then show ?thesis
    using assms(3,4)
    by (subst pmm_add_loop.simps)
       (simp add: Let_def frame_index_word free_set_def frame_free_def mark_free_def)
qed

lemma pmm_reserve_loop_exit:
  "\<not> (frame < end_frame \<and> frame < total_frames s) \<Longrightarrow>
   pmm_reserve_loop frame end_frame bitmap_end s = s"
  by (subst pmm_reserve_loop.simps) (simp only: if_False)

lemma pmm_reserve_loop_step:
  assumes "pmm_inv s" "bitmap_end = (total_frames s + 63) div 64"
    and "frame < end_frame" "frame < total_frames s"
  shows "pmm_reserve_loop frame end_frame bitmap_end s =
     pmm_reserve_loop (frame + 1) end_frame bitmap_end
       (if unat frame \<in> free_set s then mark_used (unat frame) s else s)"
proof -
  have f: "unat frame < unat (total_frames s)" using assms(4) by (simp add: word_less_nat_alt)
  have "unat frame div 64 < length (bitmap s)" "\<not> bitmap_end \<le> frame div 64"
    using pmm_inv_index [OF assms(1) f] assms(2)
    by (simp_all add: word_le_nat_alt frame_index_word)
  then show ?thesis
    using assms(3,4)
    by (subst pmm_reserve_loop.simps)
       (simp add: Let_def frame_index_word free_set_def frame_free_def mark_used_def)
qed

definition frames_between :: "u64 \<Rightarrow> u64 \<Rightarrow> pmm_t \<Rightarrow> nat set" where
  "frames_between a b s = {f. unat a \<le> f \<and> f < unat b \<and> f < unat (total_frames s)}"

definition frames_overlapping :: "nat \<Rightarrow> nat \<Rightarrow> pmm_t \<Rightarrow> nat set" where
  "frames_overlapping address len s =
     {f. f < unat (total_frames s) \<and> address < (f + 1) * 4096 \<and> f * 4096 < address + len}"

lemma frames_between_step:
  "a < b \<Longrightarrow> a < total_frames s \<Longrightarrow>
   frames_between a b s = insert (unat a) (frames_between (a + 1) b s)"
  by (auto simp: frames_between_def unat_suc_less word_less_nat_alt)

lemma frames_between_empty:
  "\<not> (a < b \<and> a < total_frames s) \<Longrightarrow> frames_between a b s = {}"
  by (auto simp: frames_between_def word_less_nat_alt)

lemma pmm_add_loop_free_set:
  assumes "pmm_inv s" "bitmap_end = (total_frames s + 63) div 64"
  shows "pmm_inv (pmm_add_loop frame end_frame bitmap_end s) \<and>
         total_frames (pmm_add_loop frame end_frame bitmap_end s) = total_frames s \<and>
         free_set (pmm_add_loop frame end_frame bitmap_end s) =
           free_set s \<union> frames_between frame end_frame s"
  using assms
proof (induction "unat end_frame - unat frame" arbitrary: frame s rule: less_induct)
  case less
  show ?case
  proof (cases "frame < end_frame \<and> frame < total_frames s")
    case False
    show ?thesis
      using less.prems(1)
      by (simp add: pmm_add_loop_exit [OF False] frames_between_empty [OF False])
  next
    case True
    define s' where "s' = (if unat frame \<in> free_set s then s else mark_free (unat frame) s)"
    have f: "unat frame < unat (total_frames s)" using True by (simp add: word_less_nat_alt)
    have s': "pmm_inv s'" "total_frames s' = total_frames s" "free_set s' = insert (unat frame) (free_set s)"
      using less.prems(1) f pmm_inv_index(1) [OF less.prems(1) f]
      by (auto simp: s'_def pmm_inv_mark_free free_set_mark_free)
    have eq: "pmm_add_loop frame end_frame bitmap_end s = pmm_add_loop (frame + 1) end_frame bitmap_end s'"
      using pmm_add_loop_step [OF less.prems] True by (simp add: s'_def)
    have "frames_between frame end_frame s = insert (unat frame) (frames_between (frame + 1) end_frame s')"
      using True s'(2) frames_between_step [of frame end_frame s] by (simp add: frames_between_def)
    moreover have "unat end_frame - unat (frame + 1) < unat end_frame - unat frame"
      using True by (simp add: word_loop_measure)
    ultimately show ?thesis
      using less.hyps [of "frame + 1" s'] s' less.prems(2) unfolding eq by auto
  qed
qed

lemma pmm_reserve_loop_free_set:
  assumes "pmm_inv s" "bitmap_end = (total_frames s + 63) div 64"
  shows "pmm_inv (pmm_reserve_loop frame end_frame bitmap_end s) \<and>
         total_frames (pmm_reserve_loop frame end_frame bitmap_end s) = total_frames s \<and>
         free_set (pmm_reserve_loop frame end_frame bitmap_end s) =
           free_set s - frames_between frame end_frame s"
  using assms
proof (induction "unat end_frame - unat frame" arbitrary: frame s rule: less_induct)
  case less
  show ?case
  proof (cases "frame < end_frame \<and> frame < total_frames s")
    case False
    show ?thesis
      using less.prems(1)
      by (simp add: pmm_reserve_loop_exit [OF False] frames_between_empty [OF False])
  next
    case True
    define s' where "s' = (if unat frame \<in> free_set s then mark_used (unat frame) s else s)"
    have f: "unat frame < unat (total_frames s)" using True by (simp add: word_less_nat_alt)
    have s': "pmm_inv s'" "total_frames s' = total_frames s" "free_set s' = free_set s - {unat frame}"
      using less.prems(1) f pmm_inv_index(1) [OF less.prems(1) f]
      by (auto simp: s'_def pmm_inv_mark_used free_set_mark_used)
    have eq: "pmm_reserve_loop frame end_frame bitmap_end s =
                pmm_reserve_loop (frame + 1) end_frame bitmap_end s'"
      using pmm_reserve_loop_step [OF less.prems] True by (simp add: s'_def)
    have "frames_between frame end_frame s = insert (unat frame) (frames_between (frame + 1) end_frame s')"
      using True s'(2) frames_between_step [of frame end_frame s] by (simp add: frames_between_def)
    moreover have "unat end_frame - unat (frame + 1) < unat end_frame - unat frame"
      using True by (simp add: word_loop_measure)
    ultimately show ?thesis
      using less.hyps [of "frame + 1" s'] s' less.prems(2) unfolding eq by auto
  qed
qed

subsection \<open>Allocation\<close>

lemma pmm_lowest_bit_Some:
  assumes "w \<noteq> 0"
  shows "\<exists>b < 64. pmm_lowest_bit w = Some b \<and> bit w b \<and> (\<forall>k < b. \<not> bit w k)"
proof -
  obtain n where "n < 64" "bit w n" using word_nonzero_bit [OF assms] by auto
  then have "pmm_lowest_bit w \<noteq> None"
    by (auto simp: pmm_lowest_bit_def find_None_iff)
  then obtain b where b: "pmm_lowest_bit w = Some b" by blast
  then obtain i where i: "i < length [0..<64]" "bit w ([0..<64] ! i)" "b = [0..<64] ! i"
      "\<forall>j < i. \<not> bit w ([0..<64] ! j)"
    unfolding pmm_lowest_bit_def find_Some_iff by auto
  then have "i < 64" "b = i" "\<forall>j < i. \<not> bit w j" by auto
  with b i show ?thesis by auto
qed

text \<open>
  What the scan returns: the least free frame at or after the start of word \<open>bitmap_idx\<close>,
  or 0 and an unchanged state when there is none.
\<close>

lemma pmm_allocate_loop_result:
  assumes "pmm_inv s" "\<forall>f \<in> free_set s. 64 * unat bitmap_idx \<le> f"
  shows "if free_set s = {} then pmm_allocate_loop bitmap_idx s = (0, s)
         else pmm_allocate_loop bitmap_idx s =
                (of_nat (Min (free_set s)) * FRAME_SIZE, mark_used (Min (free_set s)) s)"
  using assms(2)
proof (induction "unat ((total_frames s + 63) div 64) - unat bitmap_idx" arbitrary: bitmap_idx
       rule: less_induct)
  case less
  let ?W = "(total_frames s + 63) div 64"
  show ?case
  proof (cases "bitmap_idx < ?W")
    case False
    then have "(unat (total_frames s) + 63) div 64 \<le> unat bitmap_idx"
      using pmm_inv_words [OF assms(1)] by (simp add: word_less_nat_alt)
    then have "unat (total_frames s) \<le> f" if "f \<in> free_set s" for f
      using less.prems that by fastforce
    then have "free_set s = {}" using assms(1) by (fastforce simp: pmm_inv_def)
    with False show ?thesis by (subst pmm_allocate_loop.simps) simp
  next
    case True
    let ?i = "unat bitmap_idx"
    have i_len: "?i < length (bitmap s)"
      using True assms(1) pmm_inv_words [OF assms(1)] by (auto simp: word_less_nat_alt pmm_inv_def)
    show ?thesis
    proof (cases "bitmap s ! ?i = 0")
      case zero: True
      have "64 * unat (bitmap_idx + 1) \<le> f" if "f \<in> free_set s" for f
      proof (rule ccontr)
        assume "\<not> 64 * unat (bitmap_idx + 1) \<le> f"
        with True less.prems that have "f div 64 = ?i" by (auto simp: unat_suc_less)
        with that zero show False by (simp add: free_set_def frame_free_def)
      qed
      moreover have "unat ?W - unat (bitmap_idx + 1) < unat ?W - ?i"
        using True by (rule word_loop_measure)
      moreover have "pmm_allocate_loop bitmap_idx s = pmm_allocate_loop (bitmap_idx + 1) s"
        using True zero by (subst pmm_allocate_loop.simps) simp
      ultimately show ?thesis using less.hyps by simp
    next
      case nonzero: False
      then obtain b where b: "b < 64" "pmm_lowest_bit (bitmap s ! ?i) = Some b"
          "bit (bitmap s ! ?i) b" "\<forall>k < b. \<not> bit (bitmap s ! ?i) k"
        using pmm_lowest_bit_Some by blast
      let ?f = "64 * ?i + b"
      have fdm: "?f div 64 = ?i" "?f mod 64 = b" using b(1) by auto
      have mem: "?f \<in> free_set s"
        using b fdm i_len by (simp add: free_set_def frame_free_def)
      have "?f \<le> g" if g: "g \<in> free_set s" for g
      proof (rule ccontr)
        assume "\<not> ?f \<le> g"
        moreover have "64 * ?i \<le> g" using less.prems g by blast
        ultimately obtain k where "g = 64 * ?i + k" "k < b"
          by (metis add_less_cancel_left le_Suc_ex not_less)
        with b(1) have "g div 64 = ?i" "g mod 64 < b" by auto
        with g b(4) show False by (simp add: free_set_def frame_free_def)
      qed
      then have min: "Min (free_set s) = ?f" using mem by (intro Min_eqI) auto
      have "bitmap_idx * 64 + of_nat b = (of_nat ?f :: u64)"
        by (simp add: mult.commute)
      then have "pmm_allocate_loop bitmap_idx s = (of_nat ?f * FRAME_SIZE, mark_used ?f s)"
        using True nonzero b(1,2)
        by (subst pmm_allocate_loop.simps)
           (simp add: Let_def mark_used_def fdm del: of_nat_add of_nat_mult)
      then show ?thesis using mem min by auto
    qed
  qed
qed

lemma pmm_allocate_frame_empty:
  "pmm_inv s \<Longrightarrow> free_set s = {} \<Longrightarrow> pmm_allocate_frame s = (0, s)"
  using pmm_allocate_loop_result [of s 0] by (simp add: pmm_allocate_frame_def)

lemma pmm_allocate_frame_Min:
  "pmm_inv s \<Longrightarrow> free_set s \<noteq> {} \<Longrightarrow>
   pmm_allocate_frame s = (of_nat (Min (free_set s)) * FRAME_SIZE, mark_used (Min (free_set s)) s)"
  using pmm_allocate_loop_result [of s 0] by (simp add: pmm_allocate_frame_def)

lemma frame_address_unat:
  assumes "f < BITMAP_WORDS * 64"
  shows "unat (of_nat f * FRAME_SIZE :: u64) = f * 4096"
    and "(of_nat f * FRAME_SIZE :: u64) div FRAME_SIZE = of_nat f"
proof -
  show *: "unat (of_nat f * FRAME_SIZE :: u64) = f * 4096"
    using assms by (simp add: unat_of_nat_small word_nat_simps)
  show "(of_nat f * FRAME_SIZE :: u64) div FRAME_SIZE = of_nat f"
    using assms by (intro iffD2 [OF word_unat_eq_iff]) (simp add: unat_div_word * unat_of_nat_small)
qed

lemma free_set_bound:
  "pmm_inv s \<Longrightarrow> f \<in> free_set s \<Longrightarrow> f < unat (total_frames s) \<and> f < BITMAP_WORDS * 64"
  by (fastforce simp: pmm_inv_def)

text \<open>Freeing a frame below \<open>total_frames\<close> sets its bit and counts it.\<close>

lemma pmm_free_frame_mark:
  assumes "pmm_inv s" "f < unat (total_frames s)"
  shows "pmm_free_frame (of_nat f * FRAME_SIZE) s = mark_free f s"
proof -
  have f: "f < BITMAP_WORDS * 64" using assms by (simp add: pmm_inv_def)
  then have uf: "unat (of_nat f :: u64) = f" by (simp add: unat_of_nat_small)
  have "\<not> (total_frames s + 63) div 64 \<le> (of_nat f :: u64) div 64"
    using pmm_inv_index(2) [OF assms] by (simp add: word_le_nat_alt unat_div_word uf)
  then show ?thesis
    by (simp add: pmm_free_frame_def Let_def frame_address_unat(2) [OF f] mark_free_def
                  frame_index_word uf)
qed

lemma mark_free_mark_used:
  assumes "f \<in> free_set s"
  shows "mark_free f (mark_used f s) = s"
proof -
  let ?w = "bitmap s ! (f div 64)"
  have i: "f div 64 < length (bitmap s)" and b: "bit ?w (f mod 64)"
    using assms by (simp_all add: free_set_def frame_free_def)
  have "(?w AND NOT (push_bit (f mod 64) 1)) OR push_bit (f mod 64) 1 = ?w"
    using b by (intro bit_word_eqI) (auto simp: bit_or_iff bit_and_iff bit_not_iff bit_exp_iff)
  then show ?thesis
    using i by (simp add: mark_free_def mark_used_def)
qed

subsection \<open>The frame allocator as an allocator\<close>

definition frame_addr :: "nat \<Rightarrow> u64" where
  "frame_addr f = of_nat f * FRAME_SIZE"

definition free_addrs :: "pmm_t \<Rightarrow> u64 set" where
  "free_addrs s = frame_addr ` free_set s"

definition live_addrs :: "pmm_t \<Rightarrow> u64 set" where
  "live_addrs s = frame_addr ` ({..<unat (total_frames s)} - free_set s)"

lemma frame_addr_inj: "inj_on frame_addr {..<BITMAP_WORDS * 64}"
  unfolding frame_addr_def
  by (rule inj_on_inverseI [where g = "\<lambda>a. unat a div 4096"]) (simp add: frame_address_unat(1))

lemma frame_addr_eq_iff:
  "f < BITMAP_WORDS * 64 \<Longrightarrow> g < BITMAP_WORDS * 64 \<Longrightarrow> frame_addr f = frame_addr g \<longleftrightarrow> f = g"
  using frame_addr_inj by (auto simp: inj_on_def)

lemma free_set_subset: "pmm_inv s \<Longrightarrow> free_set s \<subseteq> {..<BITMAP_WORDS * 64}"
  using free_set_bound by fastforce

lemma managed_subset: "pmm_inv s \<Longrightarrow> {..<unat (total_frames s)} \<subseteq> {..<BITMAP_WORDS * 64}"
  by (auto simp: pmm_inv_def)

interpretation frames: allocator pmm_allocate_frame pmm_free_frame free_addrs live_addrs pmm_inv
proof
  fix s assume inv: "pmm_inv s"
  show "finite (free_addrs s)" by (simp add: free_addrs_def)
  have "frame_addr f \<noteq> frame_addr g" if "f \<in> free_set s" "g < unat (total_frames s)" "g \<notin> free_set s" for f g
  proof -
    have "g < BITMAP_WORDS * 64" using that(2) inv by (simp add: pmm_inv_def)
    then show ?thesis using that free_set_bound [OF inv that(1)] by (metis frame_addr_eq_iff)
  qed
  then show "free_addrs s \<inter> live_addrs s = {}"
    by (auto simp: free_addrs_def live_addrs_def)
next
  fix s a s' assume inv: "pmm_inv s" and ne: "free_addrs s \<noteq> {}" and al: "pmm_allocate_frame s = (a, s')"
  let ?f = "Min (free_set s)"
  have ne': "free_set s \<noteq> {}" using ne by (simp add: free_addrs_def)
  then have f: "?f \<in> free_set s" by simp
  note fb = free_set_bound [OF inv f]
  have s': "s' = mark_used ?f s" "a = frame_addr ?f"
    using al pmm_allocate_frame_Min [OF inv ne'] by (simp_all add: frame_addr_def)
  have fs: "free_set s' = free_set s - {?f}" "total_frames s' = total_frames s"
    unfolding s' using pmm_inv_index(1) [OF inv conjunct1 [OF fb]] by (simp_all add: free_set_mark_used)
  have "free_addrs s' = free_addrs s - {a}"
    unfolding free_addrs_def fs s'(2)
    using inj_on_image_set_diff [OF frame_addr_inj, of "free_set s" "{?f}"] free_set_subset [OF inv] fb
    by auto
  moreover have "live_addrs s' = insert a (live_addrs s)"
    unfolding live_addrs_def fs s'(2) using fb by auto
  ultimately show "a \<in> free_addrs s \<and> free_addrs s' = free_addrs s - {a} \<and>
      live_addrs s' = insert a (live_addrs s) \<and> pmm_inv s'"
    using s' f pmm_inv_mark_used [OF inv f] by (simp add: free_addrs_def)
next
  fix s a assume inv: "pmm_inv s" and "a \<in> live_addrs s"
  then obtain f where f: "f < unat (total_frames s)" "f \<notin> free_set s" "a = frame_addr f"
    by (auto simp: live_addrs_def)
  have eq: "pmm_free_frame a s = mark_free f s"
    using pmm_free_frame_mark [OF inv f(1)] f(3) by (simp add: frame_addr_def)
  have fs: "free_set (mark_free f s) = insert f (free_set s)"
    using pmm_inv_index(1) [OF inv f(1)] by (rule free_set_mark_free)
  have "live_addrs (mark_free f s) = live_addrs s - {a}"
  proof -
    have "{..<unat (total_frames s)} - insert f (free_set s) = ({..<unat (total_frames s)} - free_set s) - {f}"
      by auto
    moreover have "{..<unat (total_frames s)} - free_set s \<subseteq> {..<BITMAP_WORDS * 64}" "{f} \<subseteq> {..<BITMAP_WORDS * 64}"
      using managed_subset [OF inv] f(1) by auto
    ultimately show ?thesis
      unfolding live_addrs_def fs f(3)
      using inj_on_image_set_diff [OF frame_addr_inj, of "{..<unat (total_frames s)} - free_set s" "{f}"]
      by auto
  qed
  then show "free_addrs (pmm_free_frame a s) = insert a (free_addrs s) \<and>
      live_addrs (pmm_free_frame a s) = live_addrs s - {a} \<and> pmm_inv (pmm_free_frame a s)"
    using eq fs f pmm_inv_mark_free [OF inv f(1,2)] by (simp add: free_addrs_def)
qed

subsection \<open>Properties\<close>

text \<open>
  C2: Allocation hands out the lowest free frame: under the invariant, when some frame is
  free, \<open>pmm_allocate_frame\<close> returns the address of the least one, removes exactly it
  from the free set, decrements the counter, and keeps the invariant; when no frame is
  free it returns 0 and changes nothing.
\<close>

theorem pmm_allocate_least_frame:
  assumes "pmm_inv s" and "pmm_allocate_frame s = (paddr, s')"
  shows "if free_set s = {} then paddr = 0 \<and> s' = s
         else unat paddr = 4096 * Min (free_set s) \<and> free_set s' = free_set s - {Min (free_set s)} \<and>
              unat (free_frames s') + 1 = unat (free_frames s) \<and> total_frames s' = total_frames s \<and>
              pmm_inv s'"
proof (cases "free_set s = {}")
  case True
  then show ?thesis using pmm_allocate_frame_empty [OF assms(1)] assms(2) by simp
next
  case False
  let ?f = "Min (free_set s)"
  have f: "?f \<in> free_set s" using False by simp
  note fb = free_set_bound [OF assms(1) f]
  have eq: "paddr = of_nat ?f * FRAME_SIZE" "s' = mark_used ?f s"
    using assms(2) pmm_allocate_frame_Min [OF assms(1) False] by auto
  have inv': "pmm_inv s'" unfolding eq by (rule pmm_inv_mark_used [OF assms(1) f])
  have fs': "free_set s' = free_set s - {?f}"
    unfolding eq using pmm_inv_index(1) [OF assms(1) conjunct1 [OF fb]] by (rule free_set_mark_used)
  have "unat (free_frames s') + 1 = unat (free_frames s)"
    using inv' assms(1) card_Suc_Diff1 [OF free_set_finite f] by (simp add: pmm_inv_def fs')
  with False inv' fs' fb eq show ?thesis by (simp add: frame_address_unat(1))
qed

text \<open>A machine of three frames, the last two of them free.\<close>

definition pmm_example :: pmm_t where
  "pmm_example = pmm_reserve_range 0 4096 (pmm_add_available_range 0 12288 (pmm_initialize 12288 pmm_static))"

lemma pmm_example_initial:
  "pmm_inv (pmm_initialize 12288 pmm_static)" "free_set (pmm_initialize 12288 pmm_static) = {}"
  "total_frames (pmm_initialize 12288 pmm_static) = 3"
  using pmm_initialize_inv [OF pmm_static_free_set] by (simp_all, simp add: pmm_initialize_def)

lemma pmm_range_sets:
  assumes "pmm_inv s" and "0 < unat len" and "unat address + unat len + 4095 < 2 ^ 64"
  shows "free_set (pmm_add_available_range address len s) =
           free_set s \<union> frames_overlapping (unat address) (unat len) s \<and>
         free_set (pmm_reserve_range address len s) =
           free_set s - frames_overlapping (unat address) (unat len) s \<and>
         pmm_inv (pmm_add_available_range address len s) \<and> pmm_inv (pmm_reserve_range address len s) \<and>
         total_frames (pmm_add_available_range address len s) = total_frames s \<and>
         total_frames (pmm_reserve_range address len s) = total_frames s"
proof -
  let ?a = "address div FRAME_SIZE" and ?e = "(address + len + FRAME_SIZE - 1) div FRAME_SIZE"
  have len0: "len \<noteq> 0" using assms(2) by auto
  have "address + len + FRAME_SIZE - 1 = address + len + 4095" by simp
  then have e: "unat ?e = (unat address + unat len + 4095) div 4096"
    using assms(3) by (simp add: word_nat_simps)
  have a: "unat ?a = unat address div 4096" by (simp add: word_nat_simps)
  have "frames_between ?a ?e s = frames_overlapping (unat address) (unat len) s"
    unfolding frames_between_def frames_overlapping_def e a by auto
  then show ?thesis
    using pmm_add_loop_free_set [OF assms(1) refl, of ?a ?e] len0
      pmm_reserve_loop_free_set [OF assms(1) refl, of ?a ?e]
    by (simp add: pmm_add_available_range_def pmm_reserve_range_def Let_def)
qed

text \<open>
  C9: Adding an available range frees exactly the frames that overlap it and lie below
  \<open>total_frames\<close>, and reserving a range takes exactly those away, provided the end of the
  range, rounded up to a frame, does not wrap past 2^64; both keep the invariant.
\<close>

theorem pmm_ranges:
  assumes "pmm_inv s" and "0 < unat len" and "unat address + unat len + 4095 < 2 ^ 64"
  shows "free_set (pmm_add_available_range address len s) =
           free_set s \<union> frames_overlapping (unat address) (unat len) s \<and>
         free_set (pmm_reserve_range address len s) =
           free_set s - frames_overlapping (unat address) (unat len) s \<and>
         pmm_inv (pmm_add_available_range address len s) \<and> pmm_inv (pmm_reserve_range address len s)"
  using pmm_range_sets [OF assms] by blast

lemma pmm_example_added:
  "free_set (pmm_add_available_range 0 12288 (pmm_initialize 12288 pmm_static)) = {0, 1, 2}"
  "pmm_inv (pmm_add_available_range 0 12288 (pmm_initialize 12288 pmm_static))"
  "total_frames (pmm_add_available_range 0 12288 (pmm_initialize 12288 pmm_static)) = 3"
proof -
  let ?s = "pmm_initialize 12288 pmm_static"
  have "frames_between 0 3 ?s = {0, 1, 2}"
    by (auto simp: frames_between_def pmm_example_initial)
  then show "free_set (pmm_add_available_range 0 12288 ?s) = {0, 1, 2}"
    "pmm_inv (pmm_add_available_range 0 12288 ?s)"
    "total_frames (pmm_add_available_range 0 12288 ?s) = 3"
    using pmm_add_loop_free_set [OF pmm_example_initial(1) refl, of 0 3]
    by (simp_all add: pmm_add_available_range_def pmm_example_initial)
qed

lemma pmm_example_state: "pmm_inv pmm_example" "free_set pmm_example = {1, 2}" "total_frames pmm_example = 3"
proof -
  let ?s = "pmm_add_available_range 0 12288 (pmm_initialize 12288 pmm_static)"
  have "frames_between 0 1 ?s = {0}"
    by (auto simp: frames_between_def pmm_example_added)
  then show "pmm_inv pmm_example" "free_set pmm_example = {1, 2}" "total_frames pmm_example = 3"
    using pmm_reserve_loop_free_set [OF pmm_example_added(2) refl, of 0 1]
    by (auto simp: pmm_example_def pmm_reserve_range_def pmm_example_added)
qed

theorem pmm_ranges_witness:
  "free_set (pmm_add_available_range 4096 4097 (pmm_initialize 12288 pmm_static)) = {1, 2}"
  using pmm_ranges [OF pmm_example_initial(1), of 4097 4096]
  by (auto simp: pmm_example_initial frames_overlapping_def)

theorem pmm_allocate_least_frame_witness:
  "unat (fst (pmm_allocate_frame pmm_example)) = 4096 \<and> free_set (snd (pmm_allocate_frame pmm_example)) = {2} \<and>
   fst (pmm_allocate_frame (pmm_initialize 12288 pmm_static)) = 0"
  using pmm_allocate_least_frame [OF pmm_example_state(1), of "fst (pmm_allocate_frame pmm_example)"
      "snd (pmm_allocate_frame pmm_example)"]
    pmm_allocate_least_frame [OF pmm_example_initial(1), of "fst (pmm_allocate_frame (pmm_initialize 12288 pmm_static))"
      "snd (pmm_allocate_frame (pmm_initialize 12288 pmm_static))"]
  by (simp add: pmm_example_state pmm_example_initial(2))

text \<open>
  Freeing what was just allocated restores the manager exactly, bitmap and counter.
\<close>

theorem pmm_free_undoes_allocate:
  assumes "pmm_inv s" and "free_set s \<noteq> {}"
  shows "pmm_free_frame (fst (pmm_allocate_frame s)) (snd (pmm_allocate_frame s)) = s"
proof -
  let ?f = "Min (free_set s)"
  have f: "?f \<in> free_set s" using assms(2) by simp
  note fb = free_set_bound [OF assms(1) f]
  show ?thesis
    using pmm_free_frame_mark [OF pmm_inv_mark_used [OF assms(1) f], of ?f] fb
    by (simp add: pmm_allocate_frame_Min [OF assms] mark_free_mark_used [OF f])
qed

theorem pmm_free_undoes_allocate_witness:
  "pmm_free_frame (fst (pmm_allocate_frame pmm_example)) (snd (pmm_allocate_frame pmm_example)) = pmm_example"
  using pmm_free_undoes_allocate [OF pmm_example_state(1)] by (simp add: pmm_example_state)

text \<open>
  A run of \<open>n\<close> allocations with at least \<open>n\<close> frames free returns \<open>n\<close> distinct frame
  addresses, none of which was handed out before, and all of them inside physical memory.
\<close>

theorem pmm_allocations_distinct:
  assumes "pmm_inv s" and "n \<le> unat (free_frames s)" and "alloc_seq pmm_allocate_frame n s = (ps, s')"
  shows "length ps = n \<and> distinct ps \<and> set ps \<inter> live_addrs s = {} \<and>
         (\<forall>p \<in> set ps. unat p < 4096 * unat (total_frames s)) \<and>
         unat (free_frames s') = unat (free_frames s) - n \<and> pmm_inv s'"
proof -
  have card: "card (free_addrs s) = unat (free_frames s)"
    using assms(1) card_image [OF inj_on_subset [OF frame_addr_inj free_set_subset [OF assms(1)]]]
    by (simp add: free_addrs_def pmm_inv_def)
  note run = frames.alloc_seq_distinct [OF assms(1) _ assms(3), unfolded card, OF assms(2)]
  have "unat p < 4096 * unat (total_frames s)" if p: "p \<in> set ps" for p
  proof -
    obtain f where "f \<in> free_set s" "p = frame_addr f"
      using run p by (auto simp: free_addrs_def)
    then show ?thesis
      using free_set_bound [OF assms(1)] by (fastforce simp: frame_addr_def frame_address_unat(1))
  qed
  moreover have "unat (free_frames s') = card (free_addrs s')"
    using run card_image [OF inj_on_subset [OF frame_addr_inj free_set_subset [of s']]]
    by (simp add: free_addrs_def pmm_inv_def)
  then have "unat (free_frames s') = unat (free_frames s) - n"
    using run card distinct_card [of ps] card_Diff_subset [of "set ps" "free_addrs s"] by simp
  ultimately show ?thesis
    using run frames.free_live_disjoint [OF assms(1)] by auto
qed

theorem pmm_allocations_distinct_witness:
  "distinct (fst (alloc_seq pmm_allocate_frame 2 pmm_example))"
proof -
  have "unat (free_frames pmm_example) = 2"
    using pmm_example_state by (simp add: pmm_inv_def)
  then show ?thesis
    using pmm_allocations_distinct [OF pmm_example_state(1), of 2 "fst (alloc_seq pmm_allocate_frame 2 pmm_example)"
        "snd (alloc_seq pmm_allocate_frame 2 pmm_example)"] by simp
qed

text \<open>
  \<open>pmm_free_frame\<close> has no check against freeing a frame that is already free. The
  bitmap is unchanged but the counter grows, so from then on \<open>pmm_get_available\<close> reports
  more memory than there are free frames and the invariant is lost.
\<close>

theorem pmm_double_free_overcounts:
  assumes "pmm_inv s" and "f \<in> free_set s"
  shows "free_set (pmm_free_frame (frame_addr f) s) = free_set s \<and>
         free_frames (pmm_free_frame (frame_addr f) s) = free_frames s + 1 \<and>
         \<not> pmm_inv (pmm_free_frame (frame_addr f) s)"
proof -
  note fb = free_set_bound [OF assms]
  have eq: "pmm_free_frame (frame_addr f) s = mark_free f s"
    unfolding frame_addr_def using pmm_free_frame_mark [OF assms(1)] fb by blast
  have fs: "free_set (mark_free f s) = free_set s"
    using pmm_inv_index(1) [OF assms(1) conjunct1 [OF fb]] assms(2) by (simp add: free_set_mark_free insert_absorb)
  have "unat (free_frames s) + 1 < 2 ^ 64"
    using pmm_inv_card [OF assms(1)] assms(1) by (simp add: pmm_inv_def)
  then have "unat (free_frames s + 1) \<noteq> card (free_set s)"
    using assms(1) by (simp add: pmm_inv_def word_nat_simps)
  then show ?thesis by (simp add: eq fs pmm_inv_def)
qed

theorem pmm_double_free_overcounts_witness:
  "\<not> pmm_inv (pmm_free_frame (frame_addr 1) pmm_example)"
  using pmm_double_free_overcounts [OF pmm_example_state(1), of 1] by (simp add: pmm_example_state)

text \<open>
  The range check of \<open>pmm_free_frame\<close> compares bitmap entries, not frames. When
  \<open>total_frames\<close> is not a multiple of 64, every frame number from \<open>total_frames\<close> to the end of
  the last entry passes it, and the frame, which is not part of physical memory, becomes
  allocatable.
\<close>

theorem pmm_free_accepts_frames_beyond_memory:
  assumes "pmm_inv s" and "unat (total_frames s) \<le> f" and "f < (unat (total_frames s) + 63) div 64 * 64"
  shows "f \<in> free_set (pmm_free_frame (frame_addr f) s) \<and>
         4096 * unat (total_frames s) \<le> unat (frame_addr f)"
proof -
  have le: "unat (total_frames s) \<le> BITMAP_WORDS * 64" using assms(1) by (simp add: pmm_inv_def)
  then have "(unat (total_frames s) + 63) div 64 \<le> BITMAP_WORDS" by simp
  with assms(3) have f: "f < BITMAP_WORDS * 64" by linarith
  then have uf: "unat (of_nat f :: u64) = f" by (simp add: unat_of_nat_small)
  have "f div 64 < (unat (total_frames s) + 63) div 64"
    using assms(3) by (simp add: less_mult_imp_div_less)
  then have "\<not> (total_frames s + 63) div 64 \<le> (of_nat f :: u64) div 64"
    using uf pmm_inv_words [OF assms(1)] by (simp add: word_le_nat_alt frame_index_word)
  then have "pmm_free_frame (frame_addr f) s = mark_free f s"
    by (simp add: pmm_free_frame_def Let_def frame_addr_def frame_address_unat(2) [OF f] mark_free_def
                  frame_index_word uf)
  moreover have "f div 64 < length (bitmap s)" using f assms(1) by (auto simp: pmm_inv_def)
  ultimately show ?thesis
    using assms(2) by (simp add: free_set_mark_free frame_addr_def frame_address_unat(1) [OF f])
qed

theorem pmm_free_accepts_frames_beyond_memory_witness:
  "10 \<in> free_set (pmm_free_frame (frame_addr 10) pmm_example)"
  using pmm_free_accepts_frames_beyond_memory [OF pmm_example_state(1), of 10] by (simp add: pmm_example_state)

end
