(* ===== verification/Kheap.thy ===== *)
theory Kheap
  imports Allocator
begin

text \<open>
  The kernel heap of \<^verbatim>\<open>heap.c\<close>: five slab caches of 32 objects for requests of up to 256
  bytes and 64 blocks of 1 MB behind them. All addresses are fixed when the heap is
  initialised; an allocation records its size and owner in the object or block it takes.
  The invariant says that the regions of two objects or blocks never overlap and that each
  cache's \<^verbatim>\<open>free_count\<close> counts its unused objects.
\<close>

subsection \<open>State and operations\<close>

record slab_object_t =
  so_address :: u64
  so_size :: u64
  so_used :: bool
  so_owner :: string
  so_next :: "nat option"

record slab_cache_t =
  objects :: "slab_object_t list"
  free_count :: u32

record buddy_block_t =
  bb_address :: u64
  bb_size :: u64
  bb_used :: bool
  bb_owner :: string
  bb_next :: "nat option"

record heap_t =
  slab_caches :: "slab_cache_t list"
  buddy_blocks :: "buddy_block_t list"
  buddy_block_count :: u32

abbreviation SLAB_OBJECTS_PER_CACHE :: nat where "SLAB_OBJECTS_PER_CACHE \<equiv> 32"
abbreviation BUDDY_BLOCKS_MAX :: nat where "BUDDY_BLOCKS_MAX \<equiv> 64"

text \<open>Both loops write every field of every element of their static array.\<close>

definition init_slab_caches :: "heap_t \<Rightarrow> heap_t" where
  "init_slab_caches s = s\<lparr>slab_caches :=
     map (\<lambda>cache_idx. \<lparr>objects =
            map (\<lambda>i. \<lparr>so_address = 0x100000 + of_nat cache_idx * 0x10000 + of_nat i * 512,
                      so_size = 0, so_used = False, so_owner = ''Free'', so_next = None\<rparr>)
                [0..<SLAB_OBJECTS_PER_CACHE],
            free_count = of_nat SLAB_OBJECTS_PER_CACHE\<rparr>) [0..<5]\<rparr>"

definition init_buddy_blocks :: "heap_t \<Rightarrow> heap_t" where
  "init_buddy_blocks s = s\<lparr>buddy_blocks :=
     map (\<lambda>i. \<lparr>bb_address = 0x200000 + of_nat i * 0x100000, bb_size = 0x100000, bb_used = False,
               bb_owner = ''Free'', bb_next = None\<rparr>) [0..<BUDDY_BLOCKS_MAX],
     buddy_block_count := of_nat BUDDY_BLOCKS_MAX\<rparr>"

definition heap_initialize :: "heap_t \<Rightarrow> heap_t" where
  "heap_initialize s = init_buddy_blocks (init_slab_caches s)"

text \<open>The chain of size tests at the head of \<^verbatim>\<open>kmalloc\<close>; \<open>None\<close> for \<^verbatim>\<open>cache_idx = -1\<close>.\<close>

definition slab_cache_index :: "u64 \<Rightarrow> nat option" where
  "slab_cache_index sz =
     (if sz \<le> 16 then Some 0 else if sz \<le> 32 then Some 1 else if sz \<le> 64 then Some 2
      else if sz \<le> 128 then Some 3 else if sz \<le> 256 then Some 4 else None)"

definition take_slab_object :: "nat \<Rightarrow> nat \<Rightarrow> u64 \<Rightarrow> string \<Rightarrow> heap_t \<Rightarrow> heap_t" where
  "take_slab_object c i sz owner s =
     (let cache = slab_caches s ! c in
      s\<lparr>slab_caches := (slab_caches s)[c := cache\<lparr>
          objects := (objects cache)[i := (objects cache ! i)\<lparr>so_used := True, so_size := sz, so_owner := owner\<rparr>],
          free_count := free_count cache - 1\<rparr>]\<rparr>)"

definition buddy_alloc :: "u64 \<Rightarrow> string \<Rightarrow> heap_t \<Rightarrow> u64 \<times> heap_t" where
  "buddy_alloc sz owner s =
     (case first_idx (\<lambda>b. \<not> bb_used b \<and> bb_size b \<ge> sz)
             (take (unat (buddy_block_count s)) (buddy_blocks s)) of
        Some i \<Rightarrow> (bb_address (buddy_blocks s ! i),
                   s\<lparr>buddy_blocks := (buddy_blocks s)[i :=
                       (buddy_blocks s ! i)\<lparr>bb_used := True, bb_size := sz, bb_owner := owner\<rparr>]\<rparr>)
      | None \<Rightarrow> (0, s))"

definition kmalloc :: "u64 \<Rightarrow> string \<Rightarrow> heap_t \<Rightarrow> u64 \<times> heap_t" where
  "kmalloc sz owner_name s =
     (if sz = 0 then (0, s)
      else case slab_cache_index sz of
             Some c \<Rightarrow>
               (case first_idx (\<lambda>obj. \<not> so_used obj) (objects (slab_caches s ! c)) of
                  Some i \<Rightarrow> (so_address (objects (slab_caches s ! c) ! i),
                             take_slab_object c i sz owner_name s)
                | None \<Rightarrow> buddy_alloc sz owner_name s)
           | None \<Rightarrow> buddy_alloc sz owner_name s)"

definition release_slab_object :: "nat \<Rightarrow> nat \<Rightarrow> heap_t \<Rightarrow> heap_t" where
  "release_slab_object c i s =
     (let cache = slab_caches s ! c in
      s\<lparr>slab_caches := (slab_caches s)[c := cache\<lparr>
          objects := (objects cache)[i := (objects cache ! i)\<lparr>so_used := False, so_owner := ''Free'', so_size := 0\<rparr>],
          free_count := free_count cache + 1\<rparr>]\<rparr>)"

definition kfree :: "u64 \<Rightarrow> heap_t \<Rightarrow> heap_t" where
  "kfree addr s =
     (if addr = 0 then s
      else case find (\<lambda>(c, i). so_address (objects (slab_caches s ! c) ! i) = addr \<and>
                               so_used (objects (slab_caches s ! c) ! i))
                     (List.product [0..<5] [0..<SLAB_OBJECTS_PER_CACHE]) of
             Some (c, i) \<Rightarrow> release_slab_object c i s
           | None \<Rightarrow>
               (case first_idx (\<lambda>b. bb_address b = addr \<and> bb_used b)
                       (take (unat (buddy_block_count s)) (buddy_blocks s)) of
                  Some i \<Rightarrow> s\<lparr>buddy_blocks := (buddy_blocks s)[i :=
                              (buddy_blocks s ! i)\<lparr>bb_used := False, bb_owner := ''Free''\<rparr>]\<rparr>
                | None \<Rightarrow> s))"

definition coalesce_step :: "nat \<Rightarrow> buddy_block_t list \<Rightarrow> buddy_block_t list" where
  "coalesce_step i bs =
     (if \<not> bb_used (bs ! i) \<and> \<not> bb_used (bs ! (i + 1)) \<and> bb_size (bs ! i) = bb_size (bs ! (i + 1)) \<and>
         bb_address (bs ! i) + bb_size (bs ! i) = bb_address (bs ! (i + 1))
      then bs[i := (bs ! i)\<lparr>bb_size := bb_size (bs ! i) * 2\<rparr>,
              i + 1 := (bs ! (i + 1))\<lparr>bb_size := 0, bb_owner := ''Merged''\<rparr>]
      else bs)"

definition heap_coalesce :: "heap_t \<Rightarrow> heap_t" where
  "heap_coalesce s = s\<lparr>buddy_blocks :=
     fold coalesce_step [0..<unat (buddy_block_count s - 1)] (buddy_blocks s)\<rparr>"

subsection \<open>Invariant\<close>

definition slab_address :: "nat \<Rightarrow> nat \<Rightarrow> nat" where
  "slab_address c i = 0x100000 + c * 0x10000 + i * 512"

definition buddy_address :: "nat \<Rightarrow> nat" where
  "buddy_address i = 0x200000 + i * 0x100000"

definition slab_class_size :: "nat \<Rightarrow> nat" where
  "slab_class_size c = 16 * 2 ^ c"

definition slab_object_ok :: "nat \<Rightarrow> nat \<Rightarrow> slab_object_t \<Rightarrow> bool" where
  "slab_object_ok c i obj \<longleftrightarrow>
     so_address obj = of_nat (slab_address c i) \<and> unat (so_size obj) \<le> slab_class_size c \<and>
     (so_used obj \<longrightarrow> so_size obj \<noteq> 0)"

definition slab_cache_ok :: "nat \<Rightarrow> slab_cache_t \<Rightarrow> bool" where
  "slab_cache_ok c cache \<longleftrightarrow>
     length (objects cache) = SLAB_OBJECTS_PER_CACHE \<and>
     (\<forall>i < SLAB_OBJECTS_PER_CACHE. slab_object_ok c i (objects cache ! i)) \<and>
     unat (free_count cache) = length (filter (\<lambda>obj. \<not> so_used obj) (objects cache))"

definition region :: "u64 \<Rightarrow> u64 \<Rightarrow> nat set" where
  "region a n = {unat a..<unat a + unat n}"

abbreviation block_region :: "buddy_block_t \<Rightarrow> nat set" where
  "block_region b \<equiv> region (bb_address b) (bb_size b)"

definition buddy_ok :: "buddy_block_t list \<Rightarrow> bool" where
  "buddy_ok bs \<longleftrightarrow>
     length bs = BUDDY_BLOCKS_MAX \<and>
     (\<forall>i < BUDDY_BLOCKS_MAX. bb_address (bs ! i) = of_nat (buddy_address i) \<and>
        block_region (bs ! i) \<subseteq> {buddy_address 0..<buddy_address BUDDY_BLOCKS_MAX} \<and>
        (bb_used (bs ! i) \<longrightarrow> bb_size (bs ! i) \<noteq> 0)) \<and>
     (\<forall>i < BUDDY_BLOCKS_MAX. \<forall>j < BUDDY_BLOCKS_MAX. i \<noteq> j \<longrightarrow>
        block_region (bs ! i) \<inter> block_region (bs ! j) = {})"

definition heap_inv :: "heap_t \<Rightarrow> bool" where
  "heap_inv s \<longleftrightarrow>
     length (slab_caches s) = 5 \<and> (\<forall>c < 5. slab_cache_ok c (slab_caches s ! c)) \<and>
     buddy_ok (buddy_blocks s) \<and> buddy_block_count s = of_nat BUDDY_BLOCKS_MAX"

lemma unat_slab_address:
  "c < 5 \<Longrightarrow> i < 32 \<Longrightarrow> unat (of_nat (slab_address c i) :: u64) = slab_address c i"
  by (rule unat_of_nat_small) (simp add: slab_address_def)

lemma unat_buddy_address: "i \<le> 64 \<Longrightarrow> unat (of_nat (buddy_address i) :: u64) = buddy_address i"
  by (rule unat_of_nat_small) (simp add: buddy_address_def)

lemma buddy_address_word: "0x200000 + of_nat i * 0x100000 = (of_nat (buddy_address i) :: u64)"
  by (simp add: buddy_address_def algebra_simps)

lemma slab_address_word:
  "0x100000 + of_nat c * 0x10000 + of_nat i * 512 = (of_nat (slab_address c i) :: u64)"
  by (simp add: slab_address_def algebra_simps)

lemma buddy_address_mono: "i < j \<Longrightarrow> buddy_address i + 0x100000 \<le> buddy_address j"
  by (simp add: buddy_address_def)

lemma heap_initialize_inv: "heap_inv (heap_initialize s)"
proof -
  have len: "length (filter (\<lambda>obj. \<not> so_used obj) (map f [0..<32])) = 32"
    if "\<And>i. \<not> so_used (f i)" for f
    using that by simp
  have "slab_cache_ok c (slab_caches (heap_initialize s) ! c)" if "c < 5" for c
    using that
    by (simp add: heap_initialize_def init_slab_caches_def init_buddy_blocks_def slab_cache_ok_def
        slab_object_ok_def slab_address_word len del: upt_rec_numeral)
  moreover have "buddy_ok (buddy_blocks (heap_initialize s))"
    unfolding buddy_ok_def
    by (auto simp: heap_initialize_def init_buddy_blocks_def region_def buddy_address_word
        unat_buddy_address nat_neq_iff dest: buddy_address_mono)
       (auto simp: buddy_address_def)
  ultimately show ?thesis
    by (simp add: heap_inv_def) (simp add: heap_initialize_def init_slab_caches_def init_buddy_blocks_def)
qed

subsection \<open>Every operation keeps the invariant\<close>

lemma region_mono: "n \<le> m \<Longrightarrow> region a n \<subseteq> region a m"
  by (auto simp: region_def word_le_nat_alt)

lemma region_empty [simp]: "region a 0 = {}"
  by (simp add: region_def)

lemma buddy_okD:
  assumes "buddy_ok bs"
  shows "length bs = BUDDY_BLOCKS_MAX"
    "i < BUDDY_BLOCKS_MAX \<Longrightarrow> bb_address (bs ! i) = of_nat (buddy_address i)"
    "i < BUDDY_BLOCKS_MAX \<Longrightarrow> block_region (bs ! i) \<subseteq> {buddy_address 0..<buddy_address BUDDY_BLOCKS_MAX}"
    "i < BUDDY_BLOCKS_MAX \<Longrightarrow> bb_used (bs ! i) \<Longrightarrow> bb_size (bs ! i) \<noteq> 0"
    "i < BUDDY_BLOCKS_MAX \<Longrightarrow> j < BUDDY_BLOCKS_MAX \<Longrightarrow> i \<noteq> j \<Longrightarrow>
       block_region (bs ! i) \<inter> block_region (bs ! j) = {}"
  using assms unfolding buddy_ok_def by blast+

lemma buddy_okI:
  assumes "length bs = BUDDY_BLOCKS_MAX"
    and "\<And>i. i < BUDDY_BLOCKS_MAX \<Longrightarrow> bb_address (bs ! i) = of_nat (buddy_address i)"
    and "\<And>i. i < BUDDY_BLOCKS_MAX \<Longrightarrow> block_region (bs ! i) \<subseteq> {buddy_address 0..<buddy_address BUDDY_BLOCKS_MAX}"
    and "\<And>i. i < BUDDY_BLOCKS_MAX \<Longrightarrow> bb_used (bs ! i) \<Longrightarrow> bb_size (bs ! i) \<noteq> 0"
    and "\<And>i j. i < BUDDY_BLOCKS_MAX \<Longrightarrow> j < BUDDY_BLOCKS_MAX \<Longrightarrow> i \<noteq> j \<Longrightarrow>
       block_region (bs ! i) \<inter> block_region (bs ! j) = {}"
  shows "buddy_ok bs"
  unfolding buddy_ok_def using assms by blast

text \<open>Replacing a block by one at the same address that is no larger: both \<^verbatim>\<open>kmalloc\<close> and \<^verbatim>\<open>kfree\<close> do so.\<close>

lemma buddy_ok_update:
  assumes "buddy_ok bs" "i < BUDDY_BLOCKS_MAX" "bb_address b = bb_address (bs ! i)"
    "bb_size b \<le> bb_size (bs ! i)" "bb_used b \<longrightarrow> bb_size b \<noteq> 0"
  shows "buddy_ok (bs[i := b])"
proof (rule buddy_okI)
  have sub: "block_region b \<subseteq> block_region (bs ! i)"
    unfolding assms(3) by (rule region_mono [OF assms(4)])
  note len = buddy_okD(1) [OF assms(1)]
  show "length (bs[i := b]) = BUDDY_BLOCKS_MAX" using len by simp
  fix j assume j: "j < BUDDY_BLOCKS_MAX"
  show "bb_address (bs[i := b] ! j) = of_nat (buddy_address j)"
    using buddy_okD(2) [OF assms(1) j] assms(3) len assms(2) by (cases "j = i") auto
  show "block_region (bs[i := b] ! j) \<subseteq> {buddy_address 0..<buddy_address BUDDY_BLOCKS_MAX}"
    using subset_trans [OF sub buddy_okD(3) [OF assms(1,2)]] buddy_okD(3) [OF assms(1) j] len assms(2)
    by (cases "j = i") simp_all
  show "bb_used (bs[i := b] ! j) \<Longrightarrow> bb_size (bs[i := b] ! j) \<noteq> 0"
    using buddy_okD(4) [OF assms(1) j] assms(5) len assms(2) by (cases "j = i") auto
  fix k assume k: "k < BUDDY_BLOCKS_MAX" "j \<noteq> k"
  show "block_region (bs[i := b] ! j) \<inter> block_region (bs[i := b] ! k) = {}"
    using sub buddy_okD(5) [OF assms(1) j k] len assms(2) k(2)
    by (cases "j = i"; cases "k = i") (simp_all, blast+)
qed

lemma buddy_ok_block:
  assumes "buddy_ok bs" "i < BUDDY_BLOCKS_MAX"
  shows "unat (bb_address (bs ! i)) = buddy_address i"
    "bb_size (bs ! i) \<noteq> 0 \<Longrightarrow> buddy_address i + unat (bb_size (bs ! i)) \<le> buddy_address BUDDY_BLOCKS_MAX"
proof -
  show u: "unat (bb_address (bs ! i)) = buddy_address i"
    using assms(2) by (simp add: buddy_okD(2) [OF assms] unat_buddy_address)
  assume "bb_size (bs ! i) \<noteq> 0"
  then have "0 < unat (bb_size (bs ! i))" by (simp add: unat_gt_0)
  then have "buddy_address i + unat (bb_size (bs ! i)) - 1 \<in> block_region (bs ! i)"
    unfolding region_def u atLeastLessThan_iff by linarith
  then show "buddy_address i + unat (bb_size (bs ! i)) \<le> buddy_address BUDDY_BLOCKS_MAX"
    using buddy_okD(3) [OF assms] by fastforce
qed

lemma coalesce_step_length [simp]: "length (coalesce_step i bs) = length bs"
  by (simp add: coalesce_step_def)

text \<open>Merging two adjacent blocks gives the first one exactly the union of their regions.\<close>

lemma coalesce_region:
  assumes "buddy_ok bs" "Suc i < BUDDY_BLOCKS_MAX" "bb_size (bs ! i) = bb_size (bs ! Suc i)"
    "bb_address (bs ! i) + bb_size (bs ! i) = bb_address (bs ! Suc i)"
  shows "region (bb_address (bs ! i)) (bb_size (bs ! i) * 2) = block_region (bs ! i) \<union> block_region (bs ! Suc i)"
proof (cases "bb_size (bs ! i) = 0")
  case True
  then show ?thesis using assms(3) by (simp add: region_def)
next
  case False
  have i: "i < BUDDY_BLOCKS_MAX" using assms(2) by simp
  note b = buddy_ok_block [OF assms(1) i]
  have le: "unat (bb_size (bs ! i)) \<le> 0x4200000"
    using b(2) [OF False] by (simp add: buddy_address_def)
  then have "unat (bb_size (bs ! i) * 2) = 2 * unat (bb_size (bs ! i))"
    by (simp add: word_nat_simps)
  moreover have "unat (bb_address (bs ! Suc i)) = buddy_address i + unat (bb_size (bs ! i))"
    using assms(4) b le i by (simp add: word_nat_simps buddy_address_def flip: assms(4))
  ultimately show ?thesis
    using b(1) assms(3) by (auto simp: region_def)
qed

lemma coalesce_step_ok:
  assumes "buddy_ok bs" "Suc i < BUDDY_BLOCKS_MAX"
  shows "buddy_ok (coalesce_step i bs)"
proof (cases "\<not> bb_used (bs ! i) \<and> \<not> bb_used (bs ! Suc i) \<and> bb_size (bs ! i) = bb_size (bs ! Suc i) \<and>
         bb_address (bs ! i) + bb_size (bs ! i) = bb_address (bs ! Suc i)")
  case False
  then have "coalesce_step i bs = bs" by (auto simp: coalesce_step_def)
  then show ?thesis using assms(1) by simp
next
  case True
  let ?bi = "(bs ! i)\<lparr>bb_size := bb_size (bs ! i) * 2\<rparr>"
  let ?bs = "coalesce_step i bs"
  have len: "length bs = BUDDY_BLOCKS_MAX" using assms(1) by (simp add: buddy_ok_def)
  have bs: "?bs ! k = (if k = Suc i then (bs ! Suc i)\<lparr>bb_size := 0, bb_owner := ''Merged''\<rparr>
                       else if k = i then ?bi else bs ! k)" if "k < BUDDY_BLOCKS_MAX" for k
    unfolding coalesce_step_def Suc_eq_plus1 [symmetric] if_P [OF True]
    using that len assms(2) by (simp add: nth_list_update)
  have reg: "block_region (?bs ! k) = (if k = Suc i then {} else if k = i
               then block_region (bs ! i) \<union> block_region (bs ! Suc i) else block_region (bs ! k))"
    if "k < BUDDY_BLOCKS_MAX" for k
  proof -
    have "region (bb_address (bs ! i)) (bb_size (bs ! i) * 2) = block_region (bs ! i) \<union> block_region (bs ! Suc i)"
      using True by (intro coalesce_region [OF assms]) blast+
    then show ?thesis by (simp add: bs [OF that])
  qed
  note dis = buddy_okD(5) [OF assms(1)]
  show ?thesis
  proof (rule buddy_okI)
    show "length ?bs = BUDDY_BLOCKS_MAX" using len by simp
    fix k assume k: "k < BUDDY_BLOCKS_MAX"
    show "bb_address (?bs ! k) = of_nat (buddy_address k)"
      using bs [OF k] buddy_okD(2) [OF assms(1)] k by simp
    show "block_region (?bs ! k) \<subseteq> {buddy_address 0..<buddy_address BUDDY_BLOCKS_MAX}"
      unfolding reg [OF k] using buddy_okD(3) [OF assms(1)] k assms(2) by simp
    show "bb_used (?bs ! k) \<Longrightarrow> bb_size (?bs ! k) \<noteq> 0"
      using bs [OF k] buddy_okD(4) [OF assms(1) k] True by (auto split: if_splits)
    fix j assume j: "j < BUDDY_BLOCKS_MAX" "k \<noteq> j"
    show "block_region (?bs ! k) \<inter> block_region (?bs ! j) = {}"
      unfolding reg [OF k] reg [OF j(1)]
      using j k dis [of k j] dis [of "Suc i" j] dis [of k "Suc i"] dis [of i j] dis [of k i] assms(2) by auto
  qed
qed

lemma fold_coalesce_ok:
  "buddy_ok bs \<Longrightarrow> (\<And>i. i \<in> set is \<Longrightarrow> Suc i < BUDDY_BLOCKS_MAX) \<Longrightarrow> buddy_ok (fold coalesce_step is bs)"
  by (induction "is" arbitrary: bs) (auto simp: coalesce_step_ok)

lemma heap_coalesce_inv:
  assumes "heap_inv s"
  shows "heap_inv (heap_coalesce s)"
proof -
  have "unat (buddy_block_count s - 1) = 63" using assms by (simp add: heap_inv_def)
  then show ?thesis
    using assms fold_coalesce_ok [of "buddy_blocks s" "[0..<63]"] by (simp add: heap_inv_def heap_coalesce_def)
qed

subsection \<open>The cells of the heap\<close>

text \<open>A cell is a slab object or a block: what one allocation occupies.\<close>

datatype cell = Slab nat nat | Block nat

definition cells :: "cell set" where
  "cells = (\<lambda>(c, i). Slab c i) ` ({..<5} \<times> {..<SLAB_OBJECTS_PER_CACHE}) \<union> Block ` {..<BUDDY_BLOCKS_MAX}"

fun cell_base :: "cell \<Rightarrow> nat" where
  "cell_base (Slab c i) = slab_address c i"
| "cell_base (Block i) = buddy_address i"

fun cell_address :: "heap_t \<Rightarrow> cell \<Rightarrow> u64" where
  "cell_address s (Slab c i) = so_address (objects (slab_caches s ! c) ! i)"
| "cell_address s (Block i) = bb_address (buddy_blocks s ! i)"

fun cell_size :: "heap_t \<Rightarrow> cell \<Rightarrow> u64" where
  "cell_size s (Slab c i) = so_size (objects (slab_caches s ! c) ! i)"
| "cell_size s (Block i) = bb_size (buddy_blocks s ! i)"

fun cell_used :: "heap_t \<Rightarrow> cell \<Rightarrow> bool" where
  "cell_used s (Slab c i) = so_used (objects (slab_caches s ! c) ! i)"
| "cell_used s (Block i) = bb_used (buddy_blocks s ! i)"

fun cell_owner :: "heap_t \<Rightarrow> cell \<Rightarrow> string" where
  "cell_owner s (Slab c i) = so_owner (objects (slab_caches s ! c) ! i)"
| "cell_owner s (Block i) = bb_owner (buddy_blocks s ! i)"

fun cell_fits :: "u64 \<Rightarrow> heap_t \<Rightarrow> cell \<Rightarrow> bool" where
  "cell_fits sz s (Slab c i) = (slab_cache_index sz = Some c)"
| "cell_fits sz s (Block i) = (sz \<le> bb_size (buddy_blocks s ! i))"

fun take_cell :: "cell \<Rightarrow> u64 \<Rightarrow> string \<Rightarrow> heap_t \<Rightarrow> heap_t" where
  "take_cell (Slab c i) sz owner s = take_slab_object c i sz owner s"
| "take_cell (Block i) sz owner s = s\<lparr>buddy_blocks := (buddy_blocks s)[i :=
     (buddy_blocks s ! i)\<lparr>bb_used := True, bb_size := sz, bb_owner := owner\<rparr>]\<rparr>"

fun free_cell :: "cell \<Rightarrow> heap_t \<Rightarrow> heap_t" where
  "free_cell (Slab c i) s = release_slab_object c i s"
| "free_cell (Block i) s = s\<lparr>buddy_blocks := (buddy_blocks s)[i :=
     (buddy_blocks s ! i)\<lparr>bb_used := False, bb_owner := ''Free''\<rparr>]\<rparr>"

lemma cells_finite [simp]: "finite cells"
  by (simp add: cells_def)

lemma Slab_in_cells [simp]: "Slab c i \<in> cells \<longleftrightarrow> c < 5 \<and> i < 32"
  by (auto simp: cells_def)

lemma Block_in_cells [simp]: "Block i \<in> cells \<longleftrightarrow> i < 64"
  by (auto simp: cells_def)

lemma slab_address_less:
  assumes "i < 32" "c < d \<or> c = d \<and> i < j"
  shows "slab_address c i + 512 \<le> slab_address d j"
  using assms(2)
proof
  assume "c < d"
  then have "Suc c * 0x10000 \<le> d * 0x10000" by (intro mult_le_mono1) simp
  then show ?thesis using assms(1) by (simp add: slab_address_def)
qed (simp add: slab_address_def)

lemma slab_address_apart:
  assumes "i < 32" "j < 32" "(c, i) \<noteq> (d, j)"
  shows "slab_address c i + 512 \<le> slab_address d j \<or> slab_address d j + 512 \<le> slab_address c i"
proof -
  have "c < d \<or> c = d \<and> i < j \<or> d < c \<or> d = c \<and> j < i" using assms(3) by auto
  then show ?thesis using slab_address_less [OF assms(1)] slab_address_less [OF assms(2)] by blast
qed

lemma slab_below_blocks: "c < 5 \<Longrightarrow> i < 32 \<Longrightarrow> slab_address c i + 512 \<le> buddy_address j"
  by (simp add: slab_address_def buddy_address_def)

lemma cell_base_inj:
  assumes "x \<in> cells" "y \<in> cells" "cell_base x = cell_base y"
  shows "x = y"
proof (cases x; cases y)
  fix c i d j assume "x = Slab c i" "y = Slab d j"
  then show ?thesis using slab_address_apart [of i j c d] assms by auto
next
  fix c i j assume "x = Slab c i" "y = Block j"
  then show ?thesis using slab_below_blocks [of c i j] assms by simp
next
  fix c i j assume "y = Slab c i" "x = Block j"
  then show ?thesis using slab_below_blocks [of c i j] assms by simp
next
  fix i j assume "x = Block i" "y = Block j"
  then show ?thesis using assms by (simp add: buddy_address_def)
qed

lemma cell_base_bounds: "x \<in> cells \<Longrightarrow> 0 < cell_base x \<and> cell_base x < 2 ^ 32"
  by (cases x) (auto simp: slab_address_def buddy_address_def)

lemma cell_base_word_eq_iff:
  "x \<in> cells \<Longrightarrow> y \<in> cells \<Longrightarrow> (of_nat (cell_base x) :: u64) = of_nat (cell_base y) \<longleftrightarrow> x = y"
  using cell_base_inj [of x y] cell_base_bounds [of x] cell_base_bounds [of y]
  by (auto simp: word_unat_eq_iff unat_of_nat_small)

lemma cell_base_word_neq_0: "x \<in> cells \<Longrightarrow> (of_nat (cell_base x) :: u64) \<noteq> 0"
  using cell_base_bounds [of x] by (auto simp: word_unat_eq_iff unat_of_nat_small)

lemma heap_invD:
  assumes "heap_inv s"
  shows "length (slab_caches s) = 5" "c < 5 \<Longrightarrow> length (objects (slab_caches s ! c)) = 32"
    "c < 5 \<Longrightarrow> i < 32 \<Longrightarrow> slab_object_ok c i (objects (slab_caches s ! c) ! i)"
    "buddy_ok (buddy_blocks s)" "buddy_block_count s = 64" "length (buddy_blocks s) = 64"
  using assms by (auto simp: heap_inv_def slab_cache_ok_def dest: buddy_okD(1))

lemma cell_address_base:
  "heap_inv s \<Longrightarrow> x \<in> cells \<Longrightarrow> cell_address s x = of_nat (cell_base x)"
  by (cases x) (auto dest: heap_invD simp: slab_object_ok_def buddy_okD(2))

text \<open>Slab objects are 512 bytes apart and hold at most 256, below the first block.\<close>

lemma slab_cell_region:
  assumes "heap_inv s" "c < 5" "i < 32"
  shows "region (cell_address s (Slab c i)) (cell_size s (Slab c i)) \<subseteq>
           {slab_address c i..<slab_address c i + 256}"
proof -
  have "unat (cell_size s (Slab c i)) \<le> 16 * 2 ^ c"
    using heap_invD(3) [OF assms] by (simp add: slab_object_ok_def slab_class_size_def)
  also have "\<dots> \<le> 16 * 2 ^ 4" using assms(2) by (intro mult_le_mono2 power_increasing) auto
  finally have "unat (cell_size s (Slab c i)) \<le> 256" by simp
  then show ?thesis
    using cell_address_base [OF assms(1), of "Slab c i"] assms(2,3) unat_slab_address
    by (auto simp: region_def)
qed

lemma cell_regions_disjoint:
  assumes "heap_inv s" "x \<in> cells" "y \<in> cells" "x \<noteq> y"
  shows "region (cell_address s x) (cell_size s x) \<inter> region (cell_address s y) (cell_size s y) = {}"
proof (cases x; cases y)
  fix c i d j assume xy: "x = Slab c i" "y = Slab d j"
  then have "slab_address c i + 256 \<le> slab_address d j \<or> slab_address d j + 256 \<le> slab_address c i"
    using slab_address_apart [of i j c d] assms(2-4) by auto
  then show ?thesis
    using slab_cell_region [OF assms(1), of c i] slab_cell_region [OF assms(1), of d j] assms(2,3) xy
    by fastforce
next
  fix i j assume "x = Block i" "y = Block j"
  then show ?thesis
    using buddy_okD(5) [OF heap_invD(4) [OF assms(1)], of i j] assms(2-4) by simp
next
  fix c i j assume xy: "x = Slab c i" "y = Block j"
  have "slab_address c i + 256 \<le> buddy_address 0"
    using slab_below_blocks [of c i 0] assms(2) xy by simp
  then show ?thesis
    using slab_cell_region [OF assms(1), of c i] buddy_okD(3) [OF heap_invD(4) [OF assms(1)], of j] assms(2,3) xy
    by fastforce
next
  fix c i j assume xy: "y = Slab c i" "x = Block j"
  have "slab_address c i + 256 \<le> buddy_address 0"
    using slab_below_blocks [of c i 0] assms(3) xy by simp
  then show ?thesis
    using slab_cell_region [OF assms(1), of c i] buddy_okD(3) [OF heap_invD(4) [OF assms(1)], of j] assms(2,3) xy
    by fastforce
qed

subsection \<open>Taking and freeing a cell\<close>

lemma slab_cache_index_Some:
  "slab_cache_index sz = Some c \<Longrightarrow> c < 5 \<and> unat sz \<le> slab_class_size c"
  by (auto simp: slab_cache_index_def slab_class_size_def word_le_nat_alt split: if_splits)

lemmas slab_update_defs = take_slab_object_def release_slab_object_def Let_def

lemma take_cell_view:
  assumes "heap_inv s" "x \<in> cells" "y \<in> cells"
  shows "cell_used (take_cell x sz owner s) y = (y = x \<or> cell_used s y)"
    "cell_size (take_cell x sz owner s) y = (if y = x then sz else cell_size s y)"
    "cell_owner (take_cell x sz owner s) y = (if y = x then owner else cell_owner s y)"
    "cell_address (take_cell x sz owner s) y = cell_address s y"
  using assms heap_invD [OF assms(1)]
  by (cases x; cases y; auto simp: slab_update_defs nth_list_update)+

lemma free_cell_view:
  assumes "heap_inv s" "x \<in> cells" "y \<in> cells"
  shows "cell_used (free_cell x s) y = (y \<noteq> x \<and> cell_used s y)"
    "y \<noteq> x \<Longrightarrow> cell_size (free_cell x s) y = cell_size s y"
    "y \<noteq> x \<Longrightarrow> cell_owner (free_cell x s) y = cell_owner s y"
    "cell_address (free_cell x s) y = cell_address s y"
  using assms heap_invD [OF assms(1)]
  by (cases x; cases y; auto simp: slab_update_defs nth_list_update)+

lemma slab_cache_ok_update:
  assumes "slab_cache_ok c cache" "i < 32" "slab_object_ok c i obj"
    "unat fc = length (filter (\<lambda>obj. \<not> so_used obj) ((objects cache)[i := obj]))"
  shows "slab_cache_ok c (cache\<lparr>objects := (objects cache)[i := obj], free_count := fc\<rparr>)"
  using assms by (auto simp: slab_cache_ok_def nth_list_update)

lemma heap_inv_update_cache:
  "heap_inv s \<Longrightarrow> c < 5 \<Longrightarrow> slab_cache_ok c cache \<Longrightarrow> heap_inv (s\<lparr>slab_caches := (slab_caches s)[c := cache]\<rparr>)"
  by (auto simp: heap_inv_def nth_list_update)

lemma take_cell_inv:
  assumes "heap_inv s" "x \<in> cells" "\<not> cell_used s x" "cell_fits sz s x" "sz \<noteq> 0"
  shows "heap_inv (take_cell x sz owner s)"
proof (cases x)
  case (Block i)
  have "buddy_ok ((buddy_blocks s)[i := (buddy_blocks s ! i)\<lparr>bb_used := True, bb_size := sz, bb_owner := owner\<rparr>])"
    using assms Block by (intro buddy_ok_update) (auto dest: heap_invD)
  then show ?thesis using assms(1) Block by (simp add: heap_inv_def)
next
  case (Slab c i)
  let ?cache = "slab_caches s ! c"
  let ?obj = "(objects ?cache ! i)\<lparr>so_used := True, so_size := sz, so_owner := owner\<rparr>"
  have ci: "c < 5" "i < 32" using assms(2) Slab by auto
  have ok: "slab_cache_ok c ?cache" using assms(1) ci by (simp add: heap_inv_def)
  have obj: "slab_object_ok c i ?obj"
    using heap_invD(3) [OF assms(1) ci] assms(4,5) Slab slab_cache_index_Some by (auto simp: slab_object_ok_def)
  have len: "length (filter (\<lambda>obj. \<not> so_used obj) (objects ?cache)) =
      Suc (length (filter (\<lambda>obj. \<not> so_used obj) ((objects ?cache)[i := ?obj])))"
    using length_filter_update [of i "objects ?cache" "\<lambda>obj. \<not> so_used obj" ?obj] assms(3) Slab ci
      heap_invD(2) [OF assms(1) ci(1)] by simp
  have fc: "unat (free_count ?cache) = length (filter (\<lambda>obj. \<not> so_used obj) (objects ?cache))"
    using ok by (simp add: slab_cache_ok_def)
  have "unat (free_count ?cache - 1) = length (filter (\<lambda>obj. \<not> so_used obj) ((objects ?cache)[i := ?obj]))"
    using fc len by (subst unat_sub) (auto simp: word_le_nat_alt)
  then show ?thesis
    using slab_cache_ok_update [OF ok ci(2) obj] heap_inv_update_cache [OF assms(1) ci(1)] Slab
    by (simp add: slab_update_defs)
qed

lemma free_cell_inv:
  assumes "heap_inv s" "x \<in> cells" "cell_used s x"
  shows "heap_inv (free_cell x s)"
proof (cases x)
  case (Block i)
  have "buddy_ok ((buddy_blocks s)[i := (buddy_blocks s ! i)\<lparr>bb_used := False, bb_owner := ''Free''\<rparr>])"
    using assms Block by (intro buddy_ok_update) (auto dest: heap_invD)
  then show ?thesis using assms(1) Block by (simp add: heap_inv_def)
next
  case (Slab c i)
  let ?cache = "slab_caches s ! c"
  let ?obj = "(objects ?cache ! i)\<lparr>so_used := False, so_owner := ''Free'', so_size := 0\<rparr>"
  have ci: "c < 5" "i < 32" using assms(2) Slab by auto
  have ok: "slab_cache_ok c ?cache" using assms(1) ci by (simp add: heap_inv_def)
  have obj: "slab_object_ok c i ?obj"
    using heap_invD(3) [OF assms(1) ci] by (auto simp: slab_object_ok_def)
  have len: "length (filter (\<lambda>obj. \<not> so_used obj) ((objects ?cache)[i := ?obj])) =
      Suc (length (filter (\<lambda>obj. \<not> so_used obj) (objects ?cache)))"
    using length_filter_update [of i "objects ?cache" "\<lambda>obj. \<not> so_used obj" ?obj] assms(3) Slab ci
      heap_invD(2) [OF assms(1) ci(1)] by simp
  have le: "length (filter (\<lambda>obj. \<not> so_used obj) (objects ?cache)) \<le> 32"
    using length_filter_le [of _ "objects ?cache"] heap_invD(2) [OF assms(1) ci(1)] by metis
  have "unat (free_count ?cache) = length (filter (\<lambda>obj. \<not> so_used obj) (objects ?cache))"
    using ok by (simp add: slab_cache_ok_def)
  then have "unat (free_count ?cache + 1) = length (filter (\<lambda>obj. \<not> so_used obj) ((objects ?cache)[i := ?obj]))"
    using len le by (simp add: word_nat_simps)
  then show ?thesis
    using slab_cache_ok_update [OF ok ci(2) obj] heap_inv_update_cache [OF assms(1) ci(1)] Slab
    by (simp add: slab_update_defs)
qed

subsection \<open>kmalloc and kfree on cells\<close>

lemma buddy_alloc_cell:
  assumes "heap_inv s"
  shows "(\<exists>i < 64. \<not> cell_used s (Block i) \<and> cell_fits sz s (Block i) \<and>
            buddy_alloc sz owner s = (of_nat (cell_base (Block i)), take_cell (Block i) sz owner s)) \<or>
         (\<forall>i < 64. cell_fits sz s (Block i) \<longrightarrow> cell_used s (Block i)) \<and> buddy_alloc sz owner s = (0, s)"
proof (cases "first_idx (\<lambda>b. \<not> bb_used b \<and> bb_size b \<ge> sz) (buddy_blocks s)")
  case None
  have "buddy_alloc sz owner s = (0, s)"
    using None heap_invD(5,6) [OF assms] by (simp add: buddy_alloc_def)
  moreover have "\<forall>i < 64. cell_fits sz s (Block i) \<longrightarrow> cell_used s (Block i)"
    using None heap_invD(6) [OF assms] by (auto simp: first_idx_None_iff all_set_conv_all_nth)
  ultimately show ?thesis by blast
next
  case (Some i)
  have i: "i < 64" "\<not> cell_used s (Block i) \<and> cell_fits sz s (Block i)"
    using first_idx_SomeD [OF Some] heap_invD(6) [OF assms] by auto
  have "buddy_alloc sz owner s = (of_nat (cell_base (Block i)), take_cell (Block i) sz owner s)"
    using Some heap_invD(5,6) [OF assms] buddy_okD(2) [OF heap_invD(4) [OF assms]] i(1)
    by (simp add: buddy_alloc_def)
  with i show ?thesis by blast
qed

text \<open>
  \<^verbatim>\<open>kmalloc\<close> takes an unused cell that fits the request, and returns NULL only if every
  cell that fits is in use.
\<close>

lemma kmalloc_cell:
  assumes "heap_inv s" "sz \<noteq> 0"
  shows "(\<exists>x \<in> cells. \<not> cell_used s x \<and> cell_fits sz s x \<and>
            kmalloc sz owner s = (of_nat (cell_base x), take_cell x sz owner s)) \<or>
         (\<forall>x \<in> cells. cell_fits sz s x \<longrightarrow> cell_used s x) \<and> kmalloc sz owner s = (0, s)"
proof (cases "\<exists>c i. slab_cache_index sz = Some c \<and>
                first_idx (\<lambda>obj. \<not> so_used obj) (objects (slab_caches s ! c)) = Some i")
  case True
  then obtain c i where ci: "slab_cache_index sz = Some c"
      "first_idx (\<lambda>obj. \<not> so_used obj) (objects (slab_caches s ! c)) = Some i" by blast
  have c: "c < 5" using slab_cache_index_Some [OF ci(1)] by simp
  then have i: "i < 32" "\<not> cell_used s (Slab c i)"
    using first_idx_SomeD [OF ci(2)] heap_invD(2) [OF assms(1) c] by auto
  have "kmalloc sz owner s = (of_nat (cell_base (Slab c i)), take_cell (Slab c i) sz owner s)"
    using assms(2) ci cell_address_base [OF assms(1), of "Slab c i"] c i by (simp add: kmalloc_def)
  then show ?thesis using c i ci(1) by (intro disjI1 bexI [of _ "Slab c i"]) auto
next
  case False
  then have eq: "kmalloc sz owner s = buddy_alloc sz owner s"
    using assms(2) by (auto simp: kmalloc_def split: option.splits)
  have slab: "cell_used s (Slab c i)" if "Slab c i \<in> cells" "cell_fits sz s (Slab c i)" for c i
  proof -
    have "first_idx (\<lambda>obj. \<not> so_used obj) (objects (slab_caches s ! c)) = None"
      using False that(2) by auto
    then show ?thesis
      using that(1) heap_invD(2) [OF assms(1), of c] by (simp add: first_idx_None_iff)
  qed
  from buddy_alloc_cell [OF assms(1), of sz owner] show ?thesis
  proof (elim disjE exE conjE)
    fix i assume "i < 64" "\<not> cell_used s (Block i)" "cell_fits sz s (Block i)"
      "buddy_alloc sz owner s = (of_nat (cell_base (Block i)), take_cell (Block i) sz owner s)"
    then show ?thesis unfolding eq by (intro disjI1 bexI [of _ "Block i"]) auto
  next
    assume full: "\<forall>i < 64. cell_fits sz s (Block i) \<longrightarrow> cell_used s (Block i)" "buddy_alloc sz owner s = (0, s)"
    have "cell_used s x" if "x \<in> cells" "cell_fits sz s x" for x
      using that slab full(1) by (cases x) auto
    then show ?thesis unfolding eq using full(2) by blast
  qed
qed

lemma kfree_find_slab:
  assumes "heap_inv s" "c < 5" "i < 32" "cell_used s (Slab c i)"
  shows "find (\<lambda>(d, j). so_address (objects (slab_caches s ! d) ! j) = of_nat (cell_base (Slab c i)) \<and>
                        so_used (objects (slab_caches s ! d) ! j)) (List.product [0..<5] [0..<32]) = Some (c, i)"
    (is "find ?P ?L = _")
proof -
  have P: "?P (d, j) \<longleftrightarrow> (d, j) = (c, i)" if "d < 5" "j < 32" for d j
    using cell_address_base [OF assms(1), of "Slab d j"] cell_base_word_eq_iff [of "Slab d j" "Slab c i"] that assms
    by auto
  show ?thesis
  proof (rule find_unique)
    show "(c, i) \<in> set ?L" using assms(2,3) by simp
    fix p assume "p \<in> set ?L"
    then obtain d j where "p = (d, j)" "d < 5" "j < 32" by auto
    then show "?P p \<longleftrightarrow> p = (c, i)" using P by blast
  qed
qed

lemma kfree_used_cell:
  assumes "heap_inv s" "x \<in> cells" "cell_used s x"
  shows "kfree (of_nat (cell_base x)) s = free_cell x s"
proof (cases x)
  case (Slab c i)
  then show ?thesis
    using kfree_find_slab [OF assms(1), of c i] assms cell_base_word_neq_0 [OF assms(2)]
    by (simp add: kfree_def)
next
  case (Block i)
  let ?a = "of_nat (cell_base x) :: u64"
  have "so_address (objects (slab_caches s ! d) ! j) \<noteq> ?a" if "d < 5" "j < 32" for d j
    using cell_address_base [OF assms(1), of "Slab d j"] cell_base_word_eq_iff [of "Slab d j" x] that assms(2) Block
    by simp
  then have slab: "find (\<lambda>(d, j). so_address (objects (slab_caches s ! d) ! j) = ?a \<and>
      so_used (objects (slab_caches s ! d) ! j)) (List.product [0..<5] [0..<32]) = None"
    by (auto simp: find_None_iff)
  have addr: "bb_address (buddy_blocks s ! j) = ?a \<longleftrightarrow> j = i" if "j < 64" for j
    using cell_address_base [OF assms(1), of "Block j"] cell_base_word_eq_iff [of "Block j" x] that assms(2) Block
    by simp
  have "first_idx (\<lambda>b. bb_address b = ?a \<and> bb_used b) (buddy_blocks s) = Some i"
    using addr assms(2,3) Block heap_invD(6) [OF assms(1)] by (intro first_idx_SomeI) auto
  then show ?thesis
    using slab heap_invD(5,6) [OF assms(1)] cell_base_word_neq_0 [OF assms(2)] Block by (simp add: kfree_def)
qed

lemma kfree_other:
  assumes "heap_inv s" "\<And>x. x \<in> cells \<Longrightarrow> cell_used s x \<Longrightarrow> a \<noteq> of_nat (cell_base x)"
  shows "kfree a s = s"
proof -
  have "\<not> (so_address (objects (slab_caches s ! d) ! j) = a \<and> so_used (objects (slab_caches s ! d) ! j))"
    if "d < 5" "j < 32" for d j
    using assms(2) [of "Slab d j"] cell_address_base [OF assms(1), of "Slab d j"] that by auto
  then have "find (\<lambda>(d, j). so_address (objects (slab_caches s ! d) ! j) = a \<and>
      so_used (objects (slab_caches s ! d) ! j)) (List.product [0..<5] [0..<32]) = None"
    by (auto simp: find_None_iff)
  moreover have "\<not> (bb_address (buddy_blocks s ! j) = a \<and> bb_used (buddy_blocks s ! j))" if "j < 64" for j
    using assms(2) [of "Block j"] cell_address_base [OF assms(1), of "Block j"] that by auto
  then have "first_idx (\<lambda>b. bb_address b = a \<and> bb_used b) (buddy_blocks s) = None"
    using heap_invD(6) [OF assms(1)] by (auto simp: first_idx_None_iff all_set_conv_all_nth)
  ultimately show ?thesis
    using heap_invD(5,6) [OF assms(1)] by (simp add: kfree_def)
qed

subsection \<open>The heap as an allocator of one size\<close>

definition heap_free :: "u64 \<Rightarrow> heap_t \<Rightarrow> u64 set" where
  "heap_free sz s = {of_nat (cell_base x) | x. x \<in> cells \<and> sz \<noteq> 0 \<and> cell_fits sz s x \<and> \<not> cell_used s x}"

definition heap_live :: "u64 \<Rightarrow> heap_t \<Rightarrow> u64 set" where
  "heap_live sz s = {of_nat (cell_base x) | x. x \<in> cells \<and> sz \<noteq> 0 \<and> cell_fits sz s x \<and> cell_used s x}"

lemma cell_fits_take_other:
  "heap_inv s \<Longrightarrow> x \<in> cells \<Longrightarrow> y \<in> cells \<Longrightarrow> y \<noteq> x \<Longrightarrow> cell_fits n (take_cell x sz owner s) y = cell_fits n s y"
  by (cases x; cases y; auto simp: slab_update_defs)

lemma cell_fits_take_same:
  "heap_inv s \<Longrightarrow> x \<in> cells \<Longrightarrow> cell_fits sz s x \<Longrightarrow> cell_fits sz (take_cell x sz owner s) x"
  by (cases x) (auto dest: heap_invD(6))

lemma cell_fits_free:
  assumes "heap_inv s" "x \<in> cells" "y \<in> cells"
  shows "cell_fits n (free_cell x s) y = cell_fits n s y"
  using assms heap_invD(6) [OF assms(1)]
  by (cases x; cases y) (auto simp: slab_update_defs nth_list_update)

lemma heap_address_image_Diff:
  assumes "x \<in> cells" "A \<subseteq> cells"
  shows "(\<lambda>y. of_nat (cell_base y) :: u64) ` (A - {x}) = (\<lambda>y. of_nat (cell_base y)) ` A - {of_nat (cell_base x)}"
  using assms cell_base_word_eq_iff by (auto simp: image_iff)

lemma heap_sets:
  "heap_free sz s = (\<lambda>x. of_nat (cell_base x)) ` {x \<in> cells. sz \<noteq> 0 \<and> cell_fits sz s x \<and> \<not> cell_used s x}"
  "heap_live sz s = (\<lambda>x. of_nat (cell_base x)) ` {x \<in> cells. sz \<noteq> 0 \<and> cell_fits sz s x \<and> cell_used s x}"
  by (auto simp: heap_free_def heap_live_def)

interpretation heap: allocator "kmalloc sz owner" kfree "heap_free sz" "heap_live sz" heap_inv for sz owner
proof
  fix s assume inv: "heap_inv s"
  show "finite (heap_free sz s)" by (simp add: heap_sets)
  show "heap_free sz s \<inter> heap_live sz s = {}"
    using cell_base_word_eq_iff by (fastforce simp: heap_free_def heap_live_def)
next
  fix s a s' assume inv: "heap_inv s" and ne: "heap_free sz s \<noteq> {}" and al: "kmalloc sz owner s = (a, s')"
  have sz: "sz \<noteq> 0" using ne by (auto simp: heap_free_def)
  then obtain x where x: "x \<in> cells" "\<not> cell_used s x" "cell_fits sz s x"
      "a = of_nat (cell_base x)" "s' = take_cell x sz owner s"
    using kmalloc_cell [OF inv sz, of owner] ne al by (auto simp: heap_free_def)
  have fit: "cell_fits sz s' y = cell_fits sz s y" if "y \<in> cells" for y
    using cell_fits_take_other [OF inv x(1) that] cell_fits_take_same [OF inv x(1,3)] x(3,5) by (cases "y = x") auto
  have free: "{y \<in> cells. sz \<noteq> 0 \<and> cell_fits sz s' y \<and> \<not> cell_used s' y} =
      {y \<in> cells. sz \<noteq> 0 \<and> cell_fits sz s y \<and> \<not> cell_used s y} - {x}"
    using fit take_cell_view(1) [OF inv x(1)] x(5) by auto
  have live: "{y \<in> cells. sz \<noteq> 0 \<and> cell_fits sz s' y \<and> cell_used s' y} =
      insert x {y \<in> cells. sz \<noteq> 0 \<and> cell_fits sz s y \<and> cell_used s y}"
    using fit take_cell_view(1) [OF inv x(1)] x sz by auto
  show "a \<in> heap_free sz s \<and> heap_free sz s' = heap_free sz s - {a} \<and>
      heap_live sz s' = insert a (heap_live sz s) \<and> heap_inv s'"
    unfolding heap_sets free live x(4)
    using heap_address_image_Diff [OF x(1), of "{y \<in> cells. sz \<noteq> 0 \<and> cell_fits sz s y \<and> \<not> cell_used s y}"]
      take_cell_inv [OF inv x(1-3) sz] x sz by auto
next
  fix s a assume inv: "heap_inv s" and "a \<in> heap_live sz s"
  then obtain x where x: "x \<in> cells" "cell_used s x" "cell_fits sz s x" "a = of_nat (cell_base x)" and sz: "sz \<noteq> 0"
    by (auto simp: heap_live_def)
  note s' = kfree_used_cell [OF inv x(1,2)]
  have free: "{y \<in> cells. sz \<noteq> 0 \<and> cell_fits sz (free_cell x s) y \<and> \<not> cell_used (free_cell x s) y} =
      insert x {y \<in> cells. sz \<noteq> 0 \<and> cell_fits sz s y \<and> \<not> cell_used s y}"
    using cell_fits_free [OF inv x(1)] free_cell_view(1) [OF inv x(1)] x sz by auto
  have live: "{y \<in> cells. sz \<noteq> 0 \<and> cell_fits sz (free_cell x s) y \<and> cell_used (free_cell x s) y} =
      {y \<in> cells. sz \<noteq> 0 \<and> cell_fits sz s y \<and> cell_used s y} - {x}"
    using cell_fits_free [OF inv x(1)] free_cell_view(1) [OF inv x(1)] by auto
  show "heap_free sz (kfree a s) = insert a (heap_free sz s) \<and>
      heap_live sz (kfree a s) = heap_live sz s - {a} \<and> heap_inv (kfree a s)"
    unfolding x(4) s' heap_sets free live
    using heap_address_image_Diff [OF x(1), of "{y \<in> cells. sz \<noteq> 0 \<and> cell_fits sz s y \<and> cell_used s y}"]
      free_cell_inv [OF inv x(1,2)] by auto
qed

subsection \<open>Properties\<close>

text \<open>
  The live allocations: address, size and owner of every object or block in use.
\<close>

definition live_allocs :: "heap_t \<Rightarrow> (u64 \<times> u64 \<times> string) set" where
  "live_allocs s = {(cell_address s x, cell_size s x, cell_owner s x) | x. x \<in> cells \<and> cell_used s x}"

lemma live_allocs_take:
  assumes "heap_inv s" "x \<in> cells" "\<not> cell_used s x"
  shows "live_allocs (take_cell x sz owner s) = insert (of_nat (cell_base x), sz, owner) (live_allocs s)"
proof -
  have "live_allocs (take_cell x sz owner s) =
      insert (cell_address s x, sz, owner)
        {(cell_address s y, cell_size s y, cell_owner s y) | y. y \<in> cells \<and> cell_used s y \<and> y \<noteq> x}"
    unfolding live_allocs_def using take_cell_view [OF assms(1,2)] assms(2) by (auto; metis)
  also have "{(cell_address s y, cell_size s y, cell_owner s y) | y. y \<in> cells \<and> cell_used s y \<and> y \<noteq> x} = live_allocs s"
    unfolding live_allocs_def using assms(3) by auto
  finally show ?thesis by (simp add: cell_address_base [OF assms(1,2)])
qed

lemma live_allocs_free:
  assumes "heap_inv s" "x \<in> cells"
  shows "live_allocs (free_cell x s) = {e \<in> live_allocs s. fst e \<noteq> of_nat (cell_base x)}"
proof -
  have "cell_address s y = of_nat (cell_base x) \<longleftrightarrow> y = x" if "y \<in> cells" for y
    using that cell_address_base [OF assms(1) that] cell_base_word_eq_iff [OF that assms(2)] by simp
  then show ?thesis
    unfolding live_allocs_def using free_cell_view [OF assms] by (auto; metis)
qed

lemma coalesce_step_frame:
  assumes "Suc i < length bs" "k < length bs"
  shows "bb_used (coalesce_step i bs ! k) = bb_used (bs ! k)"
    "bb_used (bs ! k) \<Longrightarrow> coalesce_step i bs ! k = bs ! k"
  using assms by (auto simp: coalesce_step_def nth_list_update)

lemma fold_coalesce_frame:
  assumes "\<And>i. i \<in> set is \<Longrightarrow> Suc i < length bs" "k < length bs"
  shows "bb_used (fold coalesce_step is bs ! k) = bb_used (bs ! k) \<and>
         (bb_used (bs ! k) \<longrightarrow> fold coalesce_step is bs ! k = bs ! k)"
  using assms
proof (induction "is" arbitrary: bs)
  case (Cons i "is")
  then show ?case
    using Cons.IH [of "coalesce_step i bs"] coalesce_step_frame [of i bs k] by auto
qed simp

lemma live_allocs_coalesce:
  assumes "heap_inv s"
  shows "live_allocs (heap_coalesce s) = live_allocs s"
proof -
  have n: "unat (buddy_block_count s - 1) = 63" using heap_invD(5) [OF assms] by simp
  have blk: "bb_used (buddy_blocks (heap_coalesce s) ! k) = bb_used (buddy_blocks s ! k)"
     "bb_used (buddy_blocks s ! k) \<Longrightarrow> buddy_blocks (heap_coalesce s) ! k = buddy_blocks s ! k" if "k < 64" for k
    using fold_coalesce_frame [of "[0..<63]" "buddy_blocks s" k] that heap_invD(6) [OF assms]
    by (auto simp: heap_coalesce_def n simp del: upt_rec_numeral)
  have used: "cell_used (heap_coalesce s) x = cell_used s x" if "x \<in> cells" for x
    using that blk(1) by (cases x) (auto simp: heap_coalesce_def)
  have same: "cell_address (heap_coalesce s) x = cell_address s x \<and> cell_size (heap_coalesce s) x = cell_size s x \<and>
        cell_owner (heap_coalesce s) x = cell_owner s x" if "x \<in> cells" "cell_used s x" for x
    using that blk(2) by (cases x) (auto simp: heap_coalesce_def)
  show ?thesis unfolding live_allocs_def using used same by (auto; metis)
qed

lemma kfree_inv:
  assumes "heap_inv s"
  shows "heap_inv (kfree a s)"
  using kfree_used_cell [OF assms] free_cell_inv [OF assms] kfree_other [OF assms, of a] assms by metis

lemma kmalloc_inv:
  assumes "heap_inv s"
  shows "heap_inv (snd (kmalloc sz owner s))"
proof (cases "sz = 0")
  case True
  then show ?thesis using assms by (simp add: kmalloc_def)
next
  case False
  then show ?thesis using kmalloc_cell [OF assms False, of owner] take_cell_inv [OF assms] assms by fastforce
qed

lemma kmalloc_effect:
  assumes "heap_inv s" and "sz \<noteq> 0" and "kmalloc sz owner s = (a, s')"
  shows "heap_inv s' \<and>
    (if a = 0 then s' = s \<and> (\<forall>x \<in> cells. cell_fits sz s x \<longrightarrow> cell_used s x)
     else live_allocs s' = insert (a, sz, owner) (live_allocs s) \<and> a \<notin> fst ` live_allocs s \<and>
          (\<forall>(b, m, q) \<in> live_allocs s. region a sz \<inter> region b m = {}))"
  using kmalloc_cell [OF assms(1,2), of owner]
proof (elim disjE bexE conjE)
  fix x assume x: "x \<in> cells" "\<not> cell_used s x" "cell_fits sz s x"
    and "kmalloc sz owner s = (of_nat (cell_base x), take_cell x sz owner s)"
  then have eq: "a = of_nat (cell_base x)" "s' = take_cell x sz owner s" using assms(3) by auto
  have inv': "heap_inv s'" unfolding eq by (rule take_cell_inv [OF assms(1) x assms(2)])
  have "region a sz \<inter> region b m = {}" if live: "(b, m, q) \<in> live_allocs s" for b m q
  proof -
    obtain y where y: "y \<in> cells" "cell_used s y" "b = cell_address s y" "m = cell_size s y"
      using live by (auto simp: live_allocs_def)
    then have "y \<noteq> x" using x(2) by auto
    then show ?thesis
      using cell_regions_disjoint [OF inv' x(1) y(1)] take_cell_view [OF assms(1) x(1), of _ sz owner] x(1) y
        cell_address_base [OF assms(1) x(1)] eq by auto
  qed
  moreover have "a \<notin> fst ` live_allocs s"
    using x(1,2) eq(1) cell_address_base [OF assms(1)] cell_base_word_eq_iff [OF x(1)] by (force simp: live_allocs_def)
  ultimately show ?thesis
    using inv' live_allocs_take [OF assms(1) x(1,2)] eq cell_base_word_neq_0 [OF x(1)] by auto
next
  assume "\<forall>x \<in> cells. cell_fits sz s x \<longrightarrow> cell_used s x" "kmalloc sz owner s = (0, s)"
  then show ?thesis using assms(1,3) by auto
qed

lemma kfree_effect:
  assumes "heap_inv s"
  shows "live_allocs (kfree a s) = {e \<in> live_allocs s. fst e \<noteq> a} \<and>
         (a \<notin> fst ` live_allocs s \<longrightarrow> kfree a s = s) \<and> heap_inv (kfree a s)"
proof (cases "\<exists>x \<in> cells. cell_used s x \<and> a = of_nat (cell_base x)")
  case True
  then obtain x where x: "x \<in> cells" "cell_used s x" "a = of_nat (cell_base x)" by blast
  then have "a \<in> fst ` live_allocs s"
    using cell_address_base [OF assms x(1)] by (force simp: live_allocs_def)
  then show ?thesis
    using kfree_used_cell [OF assms x(1,2)] free_cell_inv [OF assms x(1,2)] live_allocs_free [OF assms x(1)] x(3)
    by simp
next
  case False
  then have eq: "kfree a s = s" using kfree_other [OF assms] by blast
  have "fst e \<noteq> a" if "e \<in> live_allocs s" for e
    using that False cell_address_base [OF assms] by (fastforce simp: live_allocs_def)
  then show ?thesis using eq assms by auto
qed

lemma initial_unused: "x \<in> cells \<Longrightarrow> \<not> cell_used (heap_initialize s0) x"
  by (cases x) (auto simp: heap_initialize_def init_slab_caches_def init_buddy_blocks_def)

lemma initial_live: "live_allocs (heap_initialize s0) = {}"
  using initial_unused by (auto simp: live_allocs_def)

text \<open>
  Any sequence of heap calls, with the ledger of its client: the addresses \<open>kmalloc\<close> has returned, with the sizes asked for, that have not been given back. The
  ledger is kept from arguments and results alone; it does not look into the heap.
\<close>

datatype heap_op = Kmalloc u64 string | Kfree u64 | Coalesce

fun heap_client :: "heap_op \<Rightarrow> heap_t \<times> (u64 \<times> u64) list \<Rightarrow> heap_t \<times> (u64 \<times> u64) list" where
  "heap_client (Kmalloc sz owner) (s, out) =
     (let (a, s') = kmalloc sz owner s in (s', if a = 0 then out else (a, sz) # out))"
| "heap_client (Kfree a) (s, out) = (kfree a s, filter (\<lambda>e. fst e \<noteq> a) out)"
| "heap_client Coalesce (s, out) = (heap_coalesce s, out)"

definition ledger_ok :: "heap_t \<times> (u64 \<times> u64) list \<Rightarrow> bool" where
  "ledger_ok = (\<lambda>(s, out). heap_inv s \<and> set out = (\<lambda>(a, n, _). (a, n)) ` live_allocs s \<and> distinct (map fst out) \<and>
     sorted_wrt (\<lambda>(a, n) (b, m). region a n \<inter> region b m = {}) out)"

lemma ledger_addresses: "set out = (\<lambda>(a, n, _). (a, n)) ` live_allocs s \<Longrightarrow> fst ` set out = fst ` live_allocs s"
  by (force simp: image_image split: prod.splits)

lemma heap_client_ok:
  assumes "ledger_ok st"
  shows "ledger_ok (heap_client op st)"
proof -
  obtain s out where st: "st = (s, out)" by (rule prod.exhaust)
  have ok: "heap_inv s" "set out = (\<lambda>(a, n, _). (a, n)) ` live_allocs s" "distinct (map fst out)"
    "sorted_wrt (\<lambda>(a, n) (b, m). region a n \<inter> region b m = {}) out"
    using assms by (simp_all add: ledger_ok_def st)
  show ?thesis
  proof (cases op)
    case (Kmalloc sz owner)
    obtain a s' where k: "kmalloc sz owner s = (a, s')" by (rule prod.exhaust)
    show ?thesis
    proof (cases "sz = 0 \<or> a = 0")
      case True
      have "kmalloc 0 owner s = (0, s)" by (simp add: kmalloc_def)
      then have "s' = s" "a = 0" using kmalloc_effect [OF ok(1) _ k] True k by (cases "sz = 0"; auto)+
      then show ?thesis using Kmalloc k assms by (simp add: st)
    next
      case False
      then show ?thesis
        using Kmalloc k kmalloc_effect [OF ok(1) _ k] ok ledger_addresses [OF ok(2)]
        by (fastforce simp: st ledger_ok_def)
    qed
  next
    case (Kfree a)
    then show ?thesis
      using kfree_effect [OF ok(1), of a] ok
      by (auto simp: st ledger_ok_def sorted_wrt_filter distinct_map_filter intro!: image_eqI)
  next
    case Coalesce
    then show ?thesis using heap_coalesce_inv [OF ok(1)] live_allocs_coalesce [OF ok(1)] ok by (simp add: st ledger_ok_def)
  qed
qed

text \<open>
  C1: Memory is never given out twice. After \<open>heap_initialize\<close> and any sequence of calls of \<open>kmalloc\<close>, \<open>kfree\<close> and \<open>heap_coalesce\<close>, with any
  arguments, the addresses that \<open>kmalloc\<close> has returned and that have not been given back are distinct, the byte ranges asked for at them are pairwise
  disjoint, and the heap records exactly these allocations.
\<close>

theorem heap_live_disjoint:
  assumes "fold heap_client ops (heap_initialize s0, []) = (s, out)"
  shows "distinct (map fst out) \<and> sorted_wrt (\<lambda>(a, n) (b, m). region a n \<inter> region b m = {}) out \<and>
    set out = (\<lambda>(a, n, _). (a, n)) ` live_allocs s"
proof -
  have "ledger_ok (heap_initialize s0, [])"
    using heap_initialize_inv [of s0] initial_live by (simp add: ledger_ok_def)
  then have "ledger_ok (fold heap_client ops (heap_initialize s0, []))"
    by (induction ops rule: rev_induct) (simp_all add: heap_client_ok)
  then show ?thesis by (simp add: assms ledger_ok_def)
qed

text \<open>
  C6: \<open>kmalloc\<close> of a positive size either returns a non-null address whose region of that size
  overlaps no live allocation, and records exactly that allocation; or it returns NULL and
  leaves the heap as it was, and then every cell that could hold the request is in use. It
  keeps the invariant.
\<close>

theorem kmalloc_correct:
  assumes "heap_inv s" and "sz \<noteq> 0" and "kmalloc sz owner s = (a, s')"
  shows "heap_inv s' \<and>
    (if a = 0 then s' = s \<and> (\<forall>x \<in> cells. cell_fits sz s x \<longrightarrow> cell_used s x)
     else live_allocs s' = insert (a, sz, owner) (live_allocs s) \<and>
          (\<forall>(b, m, q) \<in> live_allocs s. region a sz \<inter> region b m = {}))"
  using kmalloc_effect [OF assms] by (simp split: if_splits)

text \<open>
  C10: \<open>kfree\<close> of a live address removes exactly that allocation; \<open>kfree\<close> of any other address
  (never allocated, already freed, or inside an allocation) changes nothing. It keeps the
  invariant either way.
\<close>

theorem kfree_correct:
  assumes "heap_inv s"
  shows "live_allocs (kfree a s) = {e \<in> live_allocs s. fst e \<noteq> a} \<and>
         (a \<notin> fst ` live_allocs s \<longrightarrow> kfree a s = s) \<and> heap_inv (kfree a s)"
  by (rule kfree_effect [OF assms])

text \<open>
  Coalescing keeps the invariant and touches no live allocation.
\<close>

theorem heap_coalesce_safe:
  assumes "heap_inv s"
  shows "heap_inv (heap_coalesce s) \<and> live_allocs (heap_coalesce s) = live_allocs s"
  using heap_coalesce_inv [OF assms] live_allocs_coalesce [OF assms] by blast

text \<open>
  A block does not get its size back. When \<open>kmalloc\<close> serves a request from a block,
  the block's size becomes the size of the request and \<open>kfree\<close> leaves it so: after the pair of calls
  the block is free but no request larger than that one fits it any more.
\<close>

theorem kfree_loses_block_capacity:
  assumes "heap_inv s" and "sz \<noteq> 0" and "i < BUDDY_BLOCKS_MAX"
    and "kmalloc sz owner s = (of_nat (buddy_address i), s')"
  shows "\<not> cell_used (kfree (of_nat (buddy_address i)) s') (Block i) \<and>
         (\<forall>m > sz. \<not> cell_fits m (kfree (of_nat (buddy_address i)) s') (Block i))"
proof -
  have blk: "Block i \<in> cells" "buddy_address i = cell_base (Block i)" using assms(3) by auto
  have "\<not> kmalloc sz owner s = (0, s)"
    using assms(4) cell_base_word_neq_0 [OF blk(1)] unfolding blk(2) by auto
  then obtain x where x: "x \<in> cells" "\<not> cell_used s x" "cell_fits sz s x"
      "kmalloc sz owner s = (of_nat (cell_base x), take_cell x sz owner s)"
    using kmalloc_cell [OF assms(1,2), of owner] by blast
  then have "(of_nat (cell_base x) :: u64) = of_nat (cell_base (Block i))"
    using assms(4) unfolding blk(2) by (metis prod.inject)
  then have "x = Block i" using cell_base_word_eq_iff [OF x(1) blk(1)] by blast
  then have "s' = take_cell (Block i) sz owner s \<and> \<not> cell_used s (Block i) \<and> cell_fits sz s (Block i)"
    using x assms(4) by auto
  then have s': "s' = take_cell (Block i) sz owner s" "heap_inv s'"
    using take_cell_inv [OF assms(1) blk(1) _ _ assms(2)] by auto
  have "kfree (of_nat (cell_base (Block i))) s' = free_cell (Block i) s'"
    using take_cell_view(1) [OF assms(1) blk(1) blk(1)] s' by (intro kfree_used_cell [OF s'(2) blk(1)]) simp
  then show ?thesis
    using free_cell_view(1) [OF s'(2) blk(1) blk(1)] heap_invD(6) [OF assms(1)] assms(3) unfolding s'(1) blk(2)
    by (auto simp: not_le)
qed

subsection \<open>Witnesses\<close>

definition heap_static :: heap_t where
  "heap_static = \<lparr>slab_caches = [], buddy_blocks = [], buddy_block_count = 0\<rparr>"

abbreviation heap0 :: heap_t where
  "heap0 \<equiv> heap_initialize heap_static"

lemmas heap0_unused = initial_unused [of _ heap_static]

lemmas heap0_live = initial_live [of heap_static]

lemma kmalloc_block0:
  assumes "buddy_blocks s = buddy_blocks heap0" "buddy_block_count s = 64"
  shows "kmalloc 300 owner s = (0x200000, take_cell (Block 0) 300 owner s)"
proof -
  have "first_idx (\<lambda>b. \<not> bb_used b \<and> 300 \<le> bb_size b) (take 64 (buddy_blocks s)) = Some 0"
    unfolding assms(1) by (rule first_idx_SomeI) (simp_all add: heap_initialize_def init_buddy_blocks_def)
  moreover have "bb_address (buddy_blocks s ! 0) = 0x200000"
    by (simp add: assms(1) heap_initialize_def init_buddy_blocks_def)
  ultimately show ?thesis
    by (simp add: kmalloc_def slab_cache_index_def buddy_alloc_def assms(2))
qed

lemma heap0_kmalloc_slab: "kmalloc 20 ''a'' heap0 = (0x110000, take_cell (Slab 1 0) 20 ''a'' heap0)"
proof -
  have "first_idx (\<lambda>obj. \<not> so_used obj) (objects (slab_caches heap0 ! 1)) = Some 0"
    by (rule first_idx_SomeI) (simp_all add: heap_initialize_def init_slab_caches_def init_buddy_blocks_def)
  moreover have "so_address (objects (slab_caches heap0 ! 1) ! 0) = 0x110000"
    by (simp add: heap_initialize_def init_slab_caches_def init_buddy_blocks_def)
  ultimately show ?thesis
    by (simp add: kmalloc_def slab_cache_index_def)
qed

abbreviation heap1 :: heap_t where
  "heap1 \<equiv> take_cell (Slab 1 0) 20 ''a'' heap0"

lemma heap1_buddy: "buddy_blocks heap1 = buddy_blocks heap0" "buddy_block_count heap1 = 64"
  by (simp_all add: take_slab_object_def Let_def heap_initialize_def init_slab_caches_def init_buddy_blocks_def)

lemma heap1_run: "fold heap_client [Kmalloc 20 ''a'', Kmalloc 300 ''b''] (heap0, []) =
    (take_cell (Block 0) 300 ''b'' heap1, [(0x200000, 300), (0x110000, 20)])"
  using heap0_kmalloc_slab kmalloc_block0 [OF heap1_buddy, of "''b''"] by simp

lemma heap1_inv: "heap_inv heap1"
  by (rule take_cell_inv [OF heap_initialize_inv _ heap0_unused]) (simp_all add: slab_cache_index_def)

lemma heap1_live: "live_allocs heap1 = {(0x110000, 20, ''a'')}"
  using live_allocs_take [OF heap_initialize_inv _ heap0_unused, of "Slab 1 0"] heap0_live
  by (simp add: slab_address_def)

theorem heap_live_disjoint_witness:
  "region 0x200000 300 \<inter> region 0x110000 20 = {}"
  using heap_live_disjoint [OF heap1_run] by simp

theorem kmalloc_correct_witness:
  "heap_inv heap1 \<and> live_allocs heap1 = insert (0x110000, 20, ''a'') (live_allocs heap0)"
  using kmalloc_correct [OF heap_initialize_inv _ heap0_kmalloc_slab] by simp

theorem kfree_correct_witness: "live_allocs (kfree 0x110000 heap1) = {} \<and> kfree 5 heap1 = heap1"
  using kfree_correct [OF heap1_inv, of "0x110000"] kfree_correct [OF heap1_inv, of 5] heap1_live by simp

theorem heap_coalesce_safe_witness: "live_allocs (heap_coalesce heap1) = {(0x110000, 20, ''a'')}"
  using heap_coalesce_safe [OF heap1_inv] heap1_live by simp

theorem kfree_loses_block_capacity_witness:
  "\<not> cell_fits 301 (kfree 0x200000 (take_cell (Block 0) 300 ''b'' heap1)) (Block 0)"
  using kfree_loses_block_capacity [OF heap1_inv, of 300 0 "''b''"] kmalloc_block0 [OF heap1_buddy, of "''b''"]
  by (simp add: buddy_address_def)

end
