(* ===== verification/Sync.thy ===== *)
theory Sync
  imports Prelude
begin

text \<open>
  The spinlocks of \<^verbatim>\<open>sync.c\<close>. A pointer to a lock is \<open>None\<close> for \<^verbatim>\<open>NULL\<close>. The functions are given twice: as
  one call runs alone, where a lock that is held makes \<^verbatim>\<open>spin_lock\<close> spin forever, and as the steps of
  several processors that interleave at each atomic test-and-set.
\<close>

subsection \<open>State and operations\<close>

record spinlock_t =
  locked :: u8

definition spinlock_init :: "spinlock_t option \<Rightarrow> spinlock_t option" where
  "spinlock_init lock = (case lock of None \<Rightarrow> None | Some l \<Rightarrow> Some (l\<lparr>locked := 0\<rparr>))"

text \<open>\<^verbatim>\<open>__atomic_test_and_set\<close>: sets the byte and tells whether it was set before.\<close>

definition atomic_test_and_set :: "spinlock_t \<Rightarrow> bool \<times> spinlock_t" where
  "atomic_test_and_set l = (locked l \<noteq> 0, l\<lparr>locked := 1\<rparr>)"

definition atomic_clear :: "spinlock_t \<Rightarrow> spinlock_t" where
  "atomic_clear l = l\<lparr>locked := 0\<rparr>"

text \<open>The test for \<^verbatim>\<open>NULL\<close> and one evaluation of the condition of the loop: whether to go on, and the lock afterwards.\<close>

definition spin_lock_once :: "spinlock_t option \<Rightarrow> bool \<times> spinlock_t option" where
  "spin_lock_once lock =
     (case lock of
        None \<Rightarrow> (False, None)
      | Some l \<Rightarrow> (fst (atomic_test_and_set l), Some (snd (atomic_test_and_set l))))"

text \<open>The outer \<open>option\<close> is \<open>None\<close> when the call never returns.\<close>

partial_function (option) spin_lock :: "spinlock_t option \<Rightarrow> spinlock_t option option" where
  "spin_lock lock = (if fst (spin_lock_once lock) then spin_lock (snd (spin_lock_once lock)) else Some (snd (spin_lock_once lock)))"

definition spin_unlock :: "spinlock_t option \<Rightarrow> spinlock_t option" where
  "spin_unlock lock = (case lock of None \<Rightarrow> None | Some l \<Rightarrow> Some (atomic_clear l))"

lemma spin_lock_free: "locked l = 0 \<Longrightarrow> spin_lock (Some l) = Some (Some (l\<lparr>locked := 1\<rparr>))"
  by (simp add: spin_lock.simps [of "Some l"] spin_lock_once_def atomic_test_and_set_def)

lemma spin_lock_returns:
  assumes "spin_lock lock = Some y"
  shows "\<not> fst (spin_lock_once lock)"
proof (rule spin_lock.raw_induct [where P = "\<lambda>lock y. \<not> fst (spin_lock_once lock)", OF _ assms])
  fix loop lock y
  assume IH: "\<And>lock y. loop lock = Some y \<Longrightarrow> \<not> fst (spin_lock_once lock)"
    and run: "(if fst (spin_lock_once lock) then loop (snd (spin_lock_once lock)) else Some (snd (spin_lock_once lock))) = Some y"
  have again: "fst (spin_lock_once (snd (spin_lock_once lock)))" if "fst (spin_lock_once lock)"
    using that by (simp add: spin_lock_once_def atomic_test_and_set_def split: option.splits)
  show "\<not> fst (spin_lock_once lock)"
    using run IH [of "snd (spin_lock_once lock)" y] again by metis
qed

lemma spin_lock_held: "locked l \<noteq> 0 \<Longrightarrow> spin_lock (Some l) = None"
  using spin_lock_returns [of "Some l"] by (cases "spin_lock (Some l)") (simp_all add: spin_lock_once_def atomic_test_and_set_def)

lemma spin_null: "spin_lock None = Some None" "spin_unlock None = None" "spinlock_init None = None"
  by (simp_all add: spin_lock.simps [of None] spin_lock_once_def spin_unlock_def spinlock_init_def)

subsection \<open>Several processors\<close>

text \<open>
  Each processor is outside, in the loop of \<^verbatim>\<open>spin_lock\<close>, or past it and before \<^verbatim>\<open>spin_unlock\<close>. An action is the call of \<^verbatim>\<open>spin_lock\<close>, one round
  of its loop, or a call of \<^verbatim>\<open>spin_unlock\<close>, which the code lets every processor make that is not in the loop.
\<close>

datatype pc = Outside | Spinning | Holding

datatype lock_action = Call nat | Try nat | Unlock nat

type_synonym lock_state = "spinlock_t option \<times> (nat \<Rightarrow> pc)"

inductive lock_step :: "lock_action \<Rightarrow> lock_state \<Rightarrow> lock_state \<Rightarrow> bool" where
  Step_call: "p c = Outside \<Longrightarrow> lock_step (Call c) (lk, p) (lk, p(c := Spinning))"
| Step_try: "p c = Spinning \<Longrightarrow> spin_lock_once lk = (again, lk') \<Longrightarrow>
    lock_step (Try c) (lk, p) (lk', if again then p else p(c := Holding))"
| Step_unlock: "p c \<noteq> Spinning \<Longrightarrow> lock_step (Unlock c) (lk, p) (spin_unlock lk, p(c := Outside))"

inductive_cases lock_stepE: "lock_step a st st'"

text \<open>The discipline of the callers: only the processor that holds the lock releases it.\<close>

fun paired :: "lock_action \<Rightarrow> lock_state \<Rightarrow> bool" where
  "paired (Unlock c) st = (snd st c = Holding)"
| "paired _ _ = True"

inductive lock_reachable :: "(lock_action \<Rightarrow> lock_state \<Rightarrow> bool) \<Rightarrow> lock_state \<Rightarrow> bool" for ok where
  Lock_init: "lock_reachable ok (spinlock_init (Some l0), \<lambda>_. Outside)"
| Lock_step: "lock_reachable ok st \<Longrightarrow> ok a st \<Longrightarrow> lock_step a st st' \<Longrightarrow> lock_reachable ok st'"

definition lock_inv :: "lock_state \<Rightarrow> bool" where
  "lock_inv st \<longleftrightarrow> (case fst st of
     None \<Rightarrow> False
   | Some l \<Rightarrow> if locked l = 0 then \<forall>c. snd st c \<noteq> Holding else \<exists>!c. snd st c = Holding)"

lemma lock_step_inv:
  assumes "lock_step a st st'" "paired a st" "lock_inv st"
  shows "lock_inv st'"
  using assms(1)
proof (cases rule: lock_step.cases)
  case (Step_call p c lk)
  then have "((p(c := Spinning)) d = Holding) = (p d = Holding)" for d by auto
  then show ?thesis using assms(3) unfolding lock_inv_def Step_call by (simp only: fst_conv snd_conv)
next
  case (Step_try p c lk again lk')
  then show ?thesis
    using assms(3) by (auto simp: lock_inv_def spin_lock_once_def atomic_test_and_set_def split: if_splits option.splits)
next
  case (Step_unlock p c lk)
  then show ?thesis
    using assms(2,3) by (auto simp: lock_inv_def spin_unlock_def atomic_clear_def split: if_splits option.splits)
qed

lemma lock_reachable_inv: "lock_reachable paired st \<Longrightarrow> lock_inv st"
proof (induction rule: lock_reachable.induct)
  case (Lock_init l0)
  then show ?case by (simp add: lock_inv_def spinlock_init_def)
qed (blast intro: lock_step_inv)

subsection \<open>Properties\<close>

text \<open>
  C31: Mutual exclusion and progress, for callers that release only locks they hold. At most one processor is between \<^verbatim>\<open>spin_lock\<close> and
  \<^verbatim>\<open>spin_unlock\<close>. While one is, a call of \<^verbatim>\<open>spin_lock\<close> that is not interrupted never returns; while none is, it returns, its first round gives a
  spinning processor the lock, and afterwards the lock is held. After the holder has called \<^verbatim>\<open>spin_unlock\<close> a call returns again.
\<close>

theorem spinlock_mutual_exclusion:
  assumes "lock_reachable paired (lk, p)"
  shows "(p c = Holding \<and> p d = Holding \<longrightarrow> c = d) \<and>
    ((\<exists>e. p e = Holding) \<longrightarrow> spin_lock lk = None) \<and>
    ((\<forall>e. p e \<noteq> Holding) \<longrightarrow>
       (\<exists>lk'. spin_lock lk = Some lk' \<and> spin_lock lk' = None \<and> (p c = Spinning \<longrightarrow> lock_step (Try c) (lk, p) (lk', p(c := Holding))))) \<and>
    (p c = Holding \<longrightarrow> (\<exists>lk'. spin_lock (spin_unlock lk) = Some lk'))"
proof -
  obtain l where l: "lk = Some l" "if locked l = 0 then \<forall>e. p e \<noteq> Holding else \<exists>!e. p e = Holding"
    using lock_reachable_inv [OF assms] by (cases lk) (simp_all add: lock_inv_def cong: if_cong)
  let ?l' = "Some (l\<lparr>locked := 1\<rparr>)"
  have free: "spin_lock lk = Some ?l' \<and> spin_lock ?l' = None" if "\<forall>e. p e \<noteq> Holding"
    using that l spin_lock_free [of l] spin_lock_held [of "l\<lparr>locked := 1\<rparr>"] by (auto split: if_splits)
  have "lock_step (Try c) (lk, p) (?l', p(c := Holding))" if "p c = Spinning" "\<forall>e. p e \<noteq> Holding"
    using Step_try [of p c lk False ?l'] that l by (auto simp: spin_lock_once_def atomic_test_and_set_def split: if_splits)
  moreover have "spin_lock lk = None" if "\<exists>e. p e = Holding"
    using that l spin_lock_held [of l] by (auto split: if_splits)
  moreover have "\<exists>lk'. spin_lock (spin_unlock lk) = Some lk'"
    using spin_lock_free [of "atomic_clear l"] l(1) by (simp add: spin_unlock_def atomic_clear_def)
  moreover have "c = d" if "p c = Holding" "p d = Holding" using that l(2) by (auto split: if_splits)
  ultimately show ?thesis using free by blast
qed

lemma lock_taken: "lock_reachable ok (Some \<lparr>locked = 1\<rparr>, (\<lambda>_. Outside)(0 := Spinning, 0 := Holding))" if "\<forall>a st. paired a st \<longrightarrow> ok a st"
proof -
  have "lock_reachable ok (Some \<lparr>locked = 0\<rparr>, \<lambda>_. Outside)"
    using Lock_init [of ok "\<lparr>locked = 5\<rparr>"] by (simp add: spinlock_init_def)
  then have "lock_reachable ok (Some \<lparr>locked = 0\<rparr>, (\<lambda>_. Outside)(0 := Spinning))"
    by (rule Lock_step [of _ _ "Call 0"]) (simp_all add: that Step_call)
  then show ?thesis
    by (rule Lock_step [of _ _ "Try 0"])
      (use Step_try [of "(\<lambda>_. Outside)(0 := Spinning)" 0 "Some \<lparr>locked = 0\<rparr>" False "Some \<lparr>locked = 1\<rparr>"] in
        \<open>simp_all add: that spin_lock_once_def atomic_test_and_set_def\<close>)
qed

theorem spinlock_mutual_exclusion_witness:
  "spin_lock (Some \<lparr>locked = 1\<rparr>) = None \<and> (\<exists>lk. spin_lock (spin_unlock (Some \<lparr>locked = 1\<rparr>)) = Some lk)"
  using spinlock_mutual_exclusion [OF lock_taken, of 0 0] by auto

text \<open>
  \<^verbatim>\<open>spin_unlock\<close> does not check that the caller holds the lock: without that discipline two processors can hold it at once.
\<close>

theorem spin_unlock_unchecked:
  "\<exists>lk p. lock_reachable (\<lambda>_ _. True) (lk, p) \<and> p 0 = Holding \<and> p 1 = Holding"
proof -
  let ?p = "(\<lambda>_. Outside)(0 := Spinning, 0 := Holding)"
  have "lock_reachable (\<lambda>_ _. True) (Some \<lparr>locked = 0\<rparr>, ?p(1 := Outside))"
    by (rule Lock_step [OF lock_taken, of _ "Unlock 1"])
      (use Step_unlock [of ?p 1 "Some \<lparr>locked = 1\<rparr>"] in \<open>simp_all add: spin_unlock_def atomic_clear_def\<close>)
  then have "lock_reachable (\<lambda>_ _. True) (Some \<lparr>locked = 0\<rparr>, ?p(1 := Outside, 1 := Spinning))"
    by (rule Lock_step [of _ _ "Call 1"]) (simp_all only: Step_call fun_upd_same)
  then have "lock_reachable (\<lambda>_ _. True) (Some \<lparr>locked = 1\<rparr>, ?p(1 := Outside, 1 := Spinning, 1 := Holding))"
    by (rule Lock_step [of _ _ "Try 1"])
      (use Step_try [of "?p(1 := Outside, 1 := Spinning)" 1 "Some \<lparr>locked = 0\<rparr>" False "Some \<lparr>locked = 1\<rparr>"] in
        \<open>simp_all add: spin_lock_once_def atomic_test_and_set_def\<close>)
  then show ?thesis by (intro exI conjI) (assumption, simp_all)
qed

end
