(* ===== verification/Scheduler.thy ===== *)
theory Scheduler
  imports Prelude
begin

text \<open>
  The scheduler of \<^verbatim>\<open>scheduler.c\<close> with the context switch of \<^verbatim>\<open>context_switch.asm\<close>. A pointer to
  a control block is an index into \<^verbatim>\<open>task_table\<close>, or \<open>None\<close> for \<^verbatim>\<open>NULL\<close>. The stacks lie in a memory of
  64-bit words; the address the linker gives \<^verbatim>\<open>task_stacks\<close> and that of \<^verbatim>\<open>task_entry_wrapper\<close> are
  parameters. The loops that follow \<^verbatim>\<open>next\<close> pointers are partial functions whose result
  is \<open>None\<close> when the chain never ends; the invariant shows that it does end.
\<close>

subsection \<open>The machine and the context switch\<close>

type_synonym memory = "u64 \<Rightarrow> u64"

record cpu_t =
  rbx :: u64
  rbp :: u64
  r12 :: u64
  r13 :: u64
  r14 :: u64
  r15 :: u64
  rsp :: u64
  rip :: u64

definition push :: "u64 \<Rightarrow> cpu_t \<times> memory \<Rightarrow> cpu_t \<times> memory" where
  "push v = (\<lambda>(c, m). (c\<lparr>rsp := rsp c - 8\<rparr>, m(rsp c - 8 := v)))"

definition pop :: "(u64 \<Rightarrow> cpu_t \<Rightarrow> cpu_t) \<Rightarrow> cpu_t \<times> memory \<Rightarrow> cpu_t \<times> memory" where
  "pop set_reg = (\<lambda>(c, m). ((set_reg (m (rsp c)) c)\<lparr>rsp := rsp c + 8\<rparr>, m))"

text \<open>
  The whole routine, from its entry (the return address is on top of the stack) through its \<^verbatim>\<open>ret\<close>.
  The first component is what \<^verbatim>\<open>mov [rdi], rsp\<close> stores.
\<close>

definition switch_task_context :: "u64 \<Rightarrow> cpu_t \<times> memory \<Rightarrow> u64 \<times> cpu_t \<times> memory" where
  "switch_task_context new_rsp st =
     (let st = push (r15 (fst st)) (push (r14 (fst st)) (push (r13 (fst st)) (push (r12 (fst st))
                 (push (rbp (fst st)) (push (rbx (fst st)) st)))));
          old_rsp = rsp (fst st);
          st = ((fst st)\<lparr>rsp := new_rsp\<rparr>, snd st);
          st = pop (\<lambda>v c. c\<lparr>r15 := v\<rparr>) st;
          st = pop (\<lambda>v c. c\<lparr>r14 := v\<rparr>) st;
          st = pop (\<lambda>v c. c\<lparr>r13 := v\<rparr>) st;
          st = pop (\<lambda>v c. c\<lparr>r12 := v\<rparr>) st;
          st = pop (\<lambda>v c. c\<lparr>rbp := v\<rparr>) st;
          st = pop (\<lambda>v c. c\<lparr>rbx := v\<rparr>) st
      in (old_rsp, pop (\<lambda>v c. c\<lparr>rip := v\<rparr>) st))"

subsection \<open>State and operations\<close>

datatype task_state_t = TASK_RUNNING | TASK_READY | TASK_SLEEPING | TASK_ZOMBIE

record tcb_t =
  tcb_pid :: u32
  tcb_name :: "string option"
  tcb_state :: task_state_t
  tcb_priority :: u32
  tcb_timeslice :: u32
  tcb_stack_pointer :: u64
  tcb_entry :: u64
  tcb_memory_kb :: u32
  tcb_next :: "nat option"

record sched_t =
  task_table :: "tcb_t list"
  task_count :: u32
  next_pid :: u32
  current_task :: "nat option"
  ready_queue_head :: "nat option"
  schedule_requested :: bool
  cpu :: cpu_t
  mem :: memory

abbreviation MAX_TASKS :: nat where "MAX_TASKS \<equiv> 256"
abbreviation TASK_STACK_SIZE :: u64 where "TASK_STACK_SIZE \<equiv> 0x4000"

definition sched_static :: "cpu_t \<Rightarrow> memory \<Rightarrow> sched_t" where
  "sched_static c m = \<lparr>task_table = replicate MAX_TASKS \<lparr>tcb_pid = 0, tcb_name = None, tcb_state = TASK_RUNNING,
       tcb_priority = 0, tcb_timeslice = 0, tcb_stack_pointer = 0, tcb_entry = 0, tcb_memory_kb = 0,
       tcb_next = None\<rparr>, task_count = 0, next_pid = 1, current_task = None, ready_queue_head = None,
       schedule_requested = False, cpu = c, mem = m\<rparr>"

definition request_schedule :: "sched_t \<Rightarrow> sched_t" where
  "request_schedule s = s\<lparr>schedule_requested := True\<rparr>"

definition scheduler_pending :: "sched_t \<Rightarrow> bool" where
  "scheduler_pending s = schedule_requested s"

definition get_current_task :: "sched_t \<Rightarrow> nat option" where
  "get_current_task s = current_task s"

definition scheduler_initialize :: "sched_t \<Rightarrow> sched_t" where
  "scheduler_initialize s = s\<lparr>
     task_table := map (\<lambda>t. t\<lparr>tcb_pid := 0, tcb_name := None, tcb_state := TASK_ZOMBIE, tcb_next := None\<rparr>)
                     (task_table s),
     task_count := 0\<rparr>"

definition update_task :: "nat \<Rightarrow> (tcb_t \<Rightarrow> tcb_t) \<Rightarrow> sched_t \<Rightarrow> sched_t" where
  "update_task i f s = s\<lparr>task_table := (task_table s)[i := f (task_table s ! i)]\<rparr>"

text \<open>\<^verbatim>\<open>while (iter->next != NULL) iter = iter->next;\<close>\<close>

partial_function (option) queue_last :: "tcb_t list \<Rightarrow> nat \<Rightarrow> nat option" where
  "queue_last tbl iter =
     (case tcb_next (tbl ! iter) of None \<Rightarrow> Some iter | Some j \<Rightarrow> queue_last tbl j)"

text \<open>The seven words \<^verbatim>\<open>create_task\<close> puts on the new stack, at the address it keeps in the block.\<close>

definition init_frame :: "u64 \<Rightarrow> u64 \<Rightarrow> memory \<Rightarrow> memory" where
  "init_frame wrapper stack_top m = m(stack_top := 0, stack_top + 8 := 0, stack_top + 16 := 0,
     stack_top + 24 := 0, stack_top + 32 := 0, stack_top + 40 := 0, stack_top + 48 := wrapper)"

definition create_task ::
  "u64 \<Rightarrow> u64 \<Rightarrow> string \<Rightarrow> u64 \<Rightarrow> u32 \<Rightarrow> sched_t \<Rightarrow> (nat option \<times> sched_t) option" where
  "create_task wrapper task_stacks name entry priority s =
     (if task_count s \<ge> of_nat MAX_TASKS then Some (None, s)
      else
        let tcb = unat (task_count s);
            stack_top = task_stacks + (ucast (task_count s) + 1) * TASK_STACK_SIZE - 7 * 8;
            s1 = (update_task tcb (\<lambda>t. t\<lparr>tcb_pid := next_pid s, tcb_name := Some name, tcb_state := TASK_READY,
                    tcb_priority := priority, tcb_timeslice := 20, tcb_memory_kb := 0, tcb_entry := entry,
                    tcb_stack_pointer := stack_top, tcb_next := None\<rparr>) s)
                 \<lparr>next_pid := next_pid s + 1, mem := init_frame wrapper stack_top (mem s)\<rparr>;
            linked =
              (case ready_queue_head s1 of
                 None \<Rightarrow> Some ((update_task tcb (\<lambda>t. t\<lparr>tcb_state := TASK_RUNNING\<rparr>) s1)
                                \<lparr>ready_queue_head := Some tcb, current_task := Some tcb\<rparr>)
               | Some h \<Rightarrow>
                   (case queue_last (task_table s1) h of
                      None \<Rightarrow> None
                    | Some iter \<Rightarrow> Some (update_task iter (\<lambda>t. t\<lparr>tcb_next := Some tcb\<rparr>) s1)))
        in map_option (\<lambda>s2. (Some tcb, s2\<lparr>task_count := task_count s2 + 1\<rparr>)) linked)"

text \<open>The search of \<^verbatim>\<open>kill_task\<close>: the block with its predecessor, or nothing.\<close>

partial_function (option) kill_search ::
  "tcb_t list \<Rightarrow> u32 \<Rightarrow> nat option \<Rightarrow> nat option \<Rightarrow> (nat option \<times> nat) option option" where
  "kill_search tbl pid prev tcb =
     (if tcb = None then Some None
      else if tcb_pid (tbl ! the tcb) = pid then Some (Some (prev, the tcb))
      else kill_search tbl pid tcb (tcb_next (tbl ! the tcb)))"

definition kill_task :: "u32 \<Rightarrow> sched_t \<Rightarrow> sched_t option" where
  "kill_task pid s =
     (case kill_search (task_table s) pid None (ready_queue_head s) of
        None \<Rightarrow> None
      | Some None \<Rightarrow> Some s
      | Some (Some (prev, tcb)) \<Rightarrow>
          let s1 = update_task tcb (\<lambda>t. t\<lparr>tcb_state := TASK_ZOMBIE\<rparr>) s;
              after = tcb_next (task_table s1 ! tcb);
              s2 = (case prev of None \<Rightarrow> s1\<lparr>ready_queue_head := after\<rparr>
                    | Some p \<Rightarrow> update_task p (\<lambda>t. t\<lparr>tcb_next := after\<rparr>) s1)
          in Some (if current_task s2 = Some tcb then s2\<lparr>current_task := None\<rparr> else s2))"

text \<open>\<^verbatim>\<open>while (next_task != NULL && next_task->state != TASK_READY) next_task = next_task->next;\<close>\<close>

partial_function (option) find_ready :: "tcb_t list \<Rightarrow> nat option \<Rightarrow> nat option option" where
  "find_ready tbl next_task =
     (if next_task \<noteq> None \<and> tcb_state (tbl ! the next_task) \<noteq> TASK_READY
      then find_ready tbl (tcb_next (tbl ! the next_task)) else Some next_task)"

definition task_yield :: "sched_t \<Rightarrow> sched_t option" where
  "task_yield s =
     (case (current_task s, ready_queue_head s) of
        (Some old_task, Some h) \<Rightarrow>
          let s1 = s\<lparr>schedule_requested := False\<rparr>;
              s2 = (if tcb_state (task_table s1 ! old_task) = TASK_RUNNING
                    then update_task old_task (\<lambda>t. t\<lparr>tcb_state := TASK_READY\<rparr>) s1 else s1);
              found = (case find_ready (task_table s2) (tcb_next (task_table s2 ! old_task)) of
                         None \<Rightarrow> None
                       | Some None \<Rightarrow> find_ready (task_table s2) (ready_queue_head s2)
                       | Some (Some i) \<Rightarrow> Some (Some i))
          in (case found of
                None \<Rightarrow> None
              | Some next_task \<Rightarrow>
                  (case next_task of
                     None \<Rightarrow> Some (update_task old_task (\<lambda>t. t\<lparr>tcb_state := TASK_RUNNING\<rparr>) s2)
                   | Some n \<Rightarrow>
                       if n = old_task then Some (update_task old_task (\<lambda>t. t\<lparr>tcb_state := TASK_RUNNING\<rparr>) s2)
                       else
                         let s3 = update_task n (\<lambda>t. t\<lparr>tcb_state := TASK_RUNNING, tcb_timeslice := 20\<rparr>)
                                    (s2\<lparr>current_task := Some n\<rparr>);
                             (old_rsp, c, m) = switch_task_context (tcb_stack_pointer (task_table s3 ! n)) (cpu s3, mem s3)
                         in Some ((update_task old_task (\<lambda>t. t\<lparr>tcb_stack_pointer := old_rsp\<rparr>) s3)
                                  \<lparr>cpu := c, mem := m\<rparr>)))
      | _ \<Rightarrow> Some s)"

definition schedule :: "sched_t \<Rightarrow> sched_t option" where
  "schedule s = task_yield s"

text \<open>What \<^verbatim>\<open>task_entry_wrapper\<close> does once the task's entry function has returned.\<close>

definition task_exit :: "sched_t \<Rightarrow> sched_t option" where
  "task_exit s =
     (case current_task s of
        None \<Rightarrow> Some s
      | Some i \<Rightarrow>
          (case kill_task (tcb_pid (task_table s ! i)) (update_task i (\<lambda>t. t\<lparr>tcb_state := TASK_ZOMBIE\<rparr>) s) of
             None \<Rightarrow> None
           | Some s1 \<Rightarrow> task_yield s1))"

subsection \<open>The queue as a list\<close>

text \<open>\<open>qpath tbl p q\<close>: following \<^verbatim>\<open>next\<close> from \<open>p\<close> visits the indices \<open>q\<close> and ends in \<^verbatim>\<open>NULL\<close>.\<close>

fun qpath :: "tcb_t list \<Rightarrow> nat option \<Rightarrow> nat list \<Rightarrow> bool" where
  "qpath tbl p [] \<longleftrightarrow> p = None"
| "qpath tbl p (i # q) \<longleftrightarrow> p = Some i \<and> i < length tbl \<and> qpath tbl (tcb_next (tbl ! i)) q"

lemma qpath_cong:
  assumes "length tbl' = length tbl" "\<And>i. i \<in> set q \<Longrightarrow> tcb_next (tbl' ! i) = tcb_next (tbl ! i)"
  shows "qpath tbl' p q = qpath tbl p q"
  using assms(2) by (induction q arbitrary: p) (auto simp: assms(1))

lemma qpath_head: "qpath tbl p q \<Longrightarrow> p = (case q of [] \<Rightarrow> None | i # _ \<Rightarrow> Some i)"
  by (cases q) auto

lemma qpath_index: "qpath tbl p q \<Longrightarrow> i \<in> set q \<Longrightarrow> i < length tbl"
  by (induction q arbitrary: p) auto

lemma qpath_nth:
  "qpath tbl p q \<Longrightarrow> k < length q \<Longrightarrow>
     qpath tbl (tcb_next (tbl ! (q ! k))) (drop (Suc k) q)"
  by (induction q arbitrary: p k) (auto simp: nth_Cons split: nat.split)

lemma queue_last_path: "qpath tbl (Some i) q \<Longrightarrow> queue_last tbl i = Some (last q)"
proof (induction q arbitrary: i)
  case (Cons j q)
  then show ?case
    by (cases q) (auto simp: queue_last.simps [of tbl j])
qed simp

lemma find_ready_path:
  "qpath tbl p q \<Longrightarrow> find_ready tbl p = Some (List.find (\<lambda>i. tcb_state (tbl ! i) = TASK_READY) q)"
  by (induction q arbitrary: p) (auto simp: find_ready.simps [of tbl])

lemma kill_search_path:
  assumes "qpath tbl p q"
  shows "kill_search tbl pid prev p =
     Some (case first_idx (\<lambda>i. tcb_pid (tbl ! i) = pid) q of
             None \<Rightarrow> None
           | Some k \<Rightarrow> Some (if k = 0 then prev else Some (q ! (k - 1)), q ! k))"
  using assms
proof (induction q arbitrary: p prev)
  case Nil
  then show ?case by (simp add: kill_search.simps)
next
  case (Cons i q)
  then show ?case
    by (auto simp: kill_search.simps [of tbl _ _ "Some i"] split: option.splits)
qed

text \<open>Unlinking the block at position \<open>k\<close> from its predecessor.\<close>

lemma qpath_unlink:
  assumes "qpath tbl p q" "distinct q" "0 < k" "k < length q"
  shows "qpath (tbl[q ! (k - 1) := (tbl ! (q ! (k - 1)))\<lparr>tcb_next := tcb_next (tbl ! (q ! k))\<rparr>]) p
           (take k q @ drop (Suc k) q)"
  using assms
proof (induction q arbitrary: p k)
  case (Cons i q)
  note path = Cons.prems(1) and dist = Cons.prems(2)
  show ?case
  proof (cases "k = 1")
    case True
    then obtain j q' where q: "q = j # q'" using Cons.prems(4) by (cases q) auto
    let ?tbl = "tbl[i := (tbl ! i)\<lparr>tcb_next := tcb_next (tbl ! j)\<rparr>]"
    have "qpath ?tbl (tcb_next (tbl ! j)) q' = qpath tbl (tcb_next (tbl ! j)) q'"
    proof (rule qpath_cong)
      fix x assume "x \<in> set q'"
      then have "i \<noteq> x" using dist q by auto
      then show "tcb_next (?tbl ! x) = tcb_next (tbl ! x)" by simp
    qed simp
    then show ?thesis using True path q by simp
  next
    case False
    then obtain k' where k: "k = Suc k'" "0 < k'" using Cons.prems(3) by (cases k) auto
    have "q ! (k' - 1) \<noteq> i" using dist k Cons.prems(4) nth_mem [of "k' - 1" q] by auto
    moreover have "q ! (k' - 1) = (i # q) ! (k - 1)" using k by (cases k') auto
    ultimately show ?thesis
      using Cons.IH [of "tcb_next (tbl ! i)" k'] path dist k Cons.prems(4) by simp
  qed
qed simp

text \<open>Linking a new last block.\<close>

lemma qpath_link:
  assumes "qpath tbl p q" "distinct q" "q \<noteq> []" "n < length tbl" "n \<notin> set q" "tcb_next (tbl ! n) = None"
  shows "qpath (tbl[last q := (tbl ! last q)\<lparr>tcb_next := Some n\<rparr>]) p (q @ [n])"
  using assms
proof (induction q arbitrary: p)
  case (Cons i q)
  show ?case
  proof (cases "q = []")
    case True
    then show ?thesis using Cons.prems by auto
  next
    case False
    then have "last q \<noteq> i" using Cons.prems(2) by auto
    then show ?thesis using Cons.IH [of "tcb_next (tbl ! i)"] Cons.prems False by auto
  qed
qed simp

subsection \<open>Invariant\<close>

text \<open>
  \<open>sched_inv s q\<close>: the ready queue is \<open>q\<close>; its blocks were created by \<^verbatim>\<open>create_task\<close>, carry distinct
  process ids, and all are ready but the current one, which is in the queue and running.
\<close>

definition sched_inv :: "sched_t \<Rightarrow> nat list \<Rightarrow> bool" where
  "sched_inv s q \<longleftrightarrow>
     length (task_table s) = MAX_TASKS \<and> unat (task_count s) \<le> MAX_TASKS \<and> next_pid s = task_count s + 1 \<and>
     qpath (task_table s) (ready_queue_head s) q \<and> distinct q \<and> (\<forall>i \<in> set q. i < unat (task_count s)) \<and>
     (\<forall>i < unat (task_count s). tcb_pid (task_table s ! i) = of_nat i + 1) \<and>
     (\<forall>i. current_task s = Some i \<longrightarrow> i \<in> set q) \<and>
     (\<forall>i \<in> set q. tcb_state (task_table s ! i) = (if current_task s = Some i then TASK_RUNNING else TASK_READY))"

lemma sched_invD:
  assumes "sched_inv s q"
  shows "length (task_table s) = 256" "unat (task_count s) \<le> 256" "next_pid s = task_count s + 1"
    "qpath (task_table s) (ready_queue_head s) q" "distinct q" "i \<in> set q \<Longrightarrow> i < unat (task_count s)"
    "i < unat (task_count s) \<Longrightarrow> tcb_pid (task_table s ! i) = of_nat i + 1"
    "current_task s = Some i \<Longrightarrow> i \<in> set q"
    "i \<in> set q \<Longrightarrow> tcb_state (task_table s ! i) = (if current_task s = Some i then TASK_RUNNING else TASK_READY)"
  using assms unfolding sched_inv_def by blast+

lemma sched_invI:
  assumes "length (task_table s) = 256" "unat (task_count s) \<le> 256" "next_pid s = task_count s + 1"
    "qpath (task_table s) (ready_queue_head s) q" "distinct q" "\<And>i. i \<in> set q \<Longrightarrow> i < unat (task_count s)"
    "\<And>i. i < unat (task_count s) \<Longrightarrow> tcb_pid (task_table s ! i) = of_nat i + 1"
    "\<And>i. current_task s = Some i \<Longrightarrow> i \<in> set q"
    "\<And>i. i \<in> set q \<Longrightarrow> tcb_state (task_table s ! i) = (if current_task s = Some i then TASK_RUNNING else TASK_READY)"
  shows "sched_inv s q"
  unfolding sched_inv_def using assms by blast

lemma sched_inv_index: "sched_inv s q \<Longrightarrow> i \<in> set q \<Longrightarrow> i < 256"
  using sched_invD(2) [of s q] sched_invD(6) [of s q i] by linarith

lemma sched_inv_pid_inj:
  assumes "sched_inv s q" "i \<in> set q" "j \<in> set q" "tcb_pid (task_table s ! i) = tcb_pid (task_table s ! j)"
  shows "i = j"
proof -
  have "(of_nat i + 1 :: u32) = of_nat j + 1"
    using sched_invD(7) [OF assms(1) sched_invD(6) [OF assms(1)]] assms by metis
  then have "(of_nat i :: u32) = of_nat j" by simp
  then have "unat (of_nat i :: u32) = unat (of_nat j :: u32)" by simp
  then show ?thesis
    using sched_inv_index [OF assms(1,2)] sched_inv_index [OF assms(1,3)] by (simp add: unat_of_nat_small)
qed

lemma update_task_sel [simp]:
  "task_count (update_task i f s) = task_count s" "next_pid (update_task i f s) = next_pid s"
  "current_task (update_task i f s) = current_task s" "ready_queue_head (update_task i f s) = ready_queue_head s"
  "schedule_requested (update_task i f s) = schedule_requested s" "cpu (update_task i f s) = cpu s"
  "mem (update_task i f s) = mem s" "length (task_table (update_task i f s)) = length (task_table s)"
  by (simp_all add: update_task_def)

lemma update_task_nth:
  "i < length (task_table s) \<Longrightarrow>
     task_table (update_task i f s) ! j = (if j = i then f (task_table s ! i) else task_table s ! j)"
  by (simp add: update_task_def)

lemma update_task_path:
  assumes "\<And>t. tcb_next (f t) = tcb_next t"
  shows "qpath (task_table (update_task i f s)) p q = qpath (task_table s) p q"
proof (rule qpath_cong)
  fix j
  show "tcb_next (task_table (update_task i f s) ! j) = tcb_next (task_table s ! j)"
    by (cases "i < length (task_table s)") (simp_all add: update_task_nth assms, simp add: update_task_def list_update_beyond not_less)
qed simp

lemma sched_init_inv: "sched_inv (scheduler_initialize (sched_static c m)) []"
  by (rule sched_invI) (auto simp: scheduler_initialize_def sched_static_def)

subsection \<open>Creating a task\<close>

definition new_stack_top :: "u64 \<Rightarrow> u32 \<Rightarrow> u64" where
  "new_stack_top task_stacks n = task_stacks + (ucast n + 1) * TASK_STACK_SIZE - 7 * 8"

lemma create_task_full:
  "unat (task_count s) \<ge> 256 \<Longrightarrow> create_task w ts name e pr s = Some (None, s)"
  by (simp add: create_task_def word_le_nat_alt)

lemma task_count_suc:
  assumes "unat (task_count s) < 256"
  shows "unat (task_count s + 1) = Suc (unat (task_count s))"
  using assms by (simp add: word_nat_simps)

text \<open>Adding a block that is not in the queue at its end: the two ways \<^verbatim>\<open>create_task\<close> links it.\<close>

lemma create_task_inv:
  assumes inv: "sched_inv s q" and room: "unat (task_count s) < 256"
  shows "\<exists>s'. create_task w ts name e pr s = Some (Some (unat (task_count s)), s') \<and>
    sched_inv s' (q @ [unat (task_count s)]) \<and>
    current_task s' = (if q = [] then Some (unat (task_count s)) else current_task s) \<and>
    task_count s' = task_count s + 1 \<and> cpu s' = cpu s \<and> mem s' = init_frame w (new_stack_top ts (task_count s)) (mem s) \<and>
    tcb_stack_pointer (task_table s' ! unat (task_count s)) = new_stack_top ts (task_count s) \<and>
    tcb_entry (task_table s' ! unat (task_count s)) = e \<and> tcb_name (task_table s' ! unat (task_count s)) = Some name \<and>
    tcb_priority (task_table s' ! unat (task_count s)) = pr \<and>
    (\<forall>i \<in> set q. tcb_stack_pointer (task_table s' ! i) = tcb_stack_pointer (task_table s ! i))"
proof -
  let ?n = "unat (task_count s)"
  let ?f = "\<lambda>t. t\<lparr>tcb_pid := next_pid s, tcb_name := Some name, tcb_state := TASK_READY,
              tcb_priority := pr, tcb_timeslice := 20, tcb_memory_kb := 0, tcb_entry := e,
              tcb_stack_pointer := new_stack_top ts (task_count s), tcb_next := None\<rparr>"
  let ?s1 = "(update_task ?n ?f s)\<lparr>next_pid := next_pid s + 1, mem := init_frame w (new_stack_top ts (task_count s)) (mem s)\<rparr>"
  note D = sched_invD [OF inv]
  have n: "?n < length (task_table s)" "?n \<notin> set q" "\<not> of_nat 256 \<le> task_count s"
    using D(1) room D(6) [of ?n] by (auto simp: word_le_nat_alt)
  have path: "qpath (task_table ?s1) (ready_queue_head s) q"
    using D(4) n(2) by (subst qpath_cong [of _ "task_table s"]) (auto simp: update_task_nth [OF n(1)])
  have pid: "next_pid s = of_nat ?n + 1" using D(3) by simp
  show ?thesis
  proof (cases q)
    case Nil
    then have h: "ready_queue_head s = None" using D(4) by simp
    let ?s' = "(update_task ?n (\<lambda>t. t\<lparr>tcb_state := TASK_RUNNING\<rparr>) ?s1)
                 \<lparr>ready_queue_head := Some ?n, current_task := Some ?n, task_count := task_count s + 1\<rparr>"
    have "create_task w ts name e pr s = Some (Some ?n, ?s')"
      using n(3) h unfolding create_task_def by (simp add: Let_def new_stack_top_def)
    moreover have "sched_inv ?s' (q @ [?n])"
      using D(1,3,7) n pid room
      by (intro sched_invI) (auto simp: Nil update_task_nth task_count_suc less_Suc_eq)
    ultimately show ?thesis using n Nil by (auto simp: update_task_nth)
  next
    case (Cons h q')
    then have h: "ready_queue_head s = Some h" using D(4) by simp
    let ?s' = "(update_task (last q) (\<lambda>t. t\<lparr>tcb_next := Some ?n\<rparr>) ?s1)\<lparr>task_count := task_count s + 1\<rparr>"
    have last: "last q \<in> set q" "last q < length (task_table s)"
      using Cons sched_inv_index [OF inv] D(1) by auto
    have "create_task w ts name e pr s = Some (Some ?n, ?s')"
      using n(3) h queue_last_path [OF path [unfolded h]] unfolding create_task_def
      by (simp add: Let_def new_stack_top_def)
    moreover have "sched_inv ?s' (q @ [?n])"
    proof (rule sched_invI)
      show "qpath (task_table ?s') (ready_queue_head ?s') (q @ [?n])"
        using qpath_link [OF path D(5)] Cons n by (simp add: update_task_def)
    qed (use D n pid room last in \<open>auto simp: update_task_nth task_count_suc less_Suc_eq\<close>)
    ultimately show ?thesis using n Cons last by (auto simp: update_task_nth)
  qed
qed

subsection \<open>Killing a task\<close>

lemma filter_neq_nth:
  assumes "distinct q" "k < length q"
  shows "filter (\<lambda>j. j \<noteq> q ! k) q = take k q @ drop (Suc k) q"
proof -
  let ?i = "q ! k"
  have q: "q = take k q @ ?i # drop (Suc k) q" by (rule id_take_nth_drop [OF assms(2)])
  have "?i \<notin> set (take k q)" "?i \<notin> set (drop (Suc k) q)"
    using assms(1) by (subst (asm) q; simp)+
  then have "filter (\<lambda>j. j \<noteq> ?i) (take k q) = take k q" "filter (\<lambda>j. j \<noteq> ?i) (drop (Suc k) q) = drop (Suc k) q"
    by (auto simp: filter_id_conv)
  then have "filter (\<lambda>j. j \<noteq> ?i) (take k q @ ?i # drop (Suc k) q) = take k q @ drop (Suc k) q" by simp
  then show ?thesis using q by metis
qed

lemma kill_task_absent:
  assumes "sched_inv s q" "\<And>i. i \<in> set q \<Longrightarrow> tcb_pid (task_table s ! i) \<noteq> p"
  shows "kill_task p s = Some s"
proof -
  have "first_idx (\<lambda>i. tcb_pid (task_table s ! i) = p) q = None"
    using assms(2) by (auto simp: first_idx_None_iff)
  then show ?thesis
    unfolding kill_task_def kill_search_path [OF sched_invD(4) [OF assms(1)]] by simp
qed

text \<open>
  The state of the killed block is not read: \<open>task_exit\<close> marks it a zombie before it calls \<^verbatim>\<open>kill_task\<close>.
\<close>

lemma kill_task_present:
  assumes inv: "sched_inv s q" and i: "i \<in> set q"
  shows "\<exists>s'. kill_task (tcb_pid (task_table s ! i)) (update_task i (\<lambda>t. t\<lparr>tcb_state := st\<rparr>) s) = Some s' \<and>
    sched_inv s' (filter (\<lambda>j. j \<noteq> i) q) \<and>
    current_task s' = (if current_task s = Some i then None else current_task s) \<and>
    tcb_state (task_table s' ! i) = TASK_ZOMBIE \<and> cpu s' = cpu s \<and> mem s' = mem s \<and>
    (\<forall>j. tcb_stack_pointer (task_table s' ! j) = tcb_stack_pointer (task_table s ! j))"
proof -
  note D = sched_invD [OF inv]
  let ?s0 = "update_task i (\<lambda>t. t\<lparr>tcb_state := st\<rparr>) s"
  let ?p = "tcb_pid (task_table s ! i)"
  obtain k where k: "k < length q" "q ! k = i" using i by (auto simp: in_set_conv_nth)
  have len: "j < length (task_table s)" if "j \<in> set q" for j
    using sched_inv_index [OF inv that] D(1) by simp
  have pid0: "tcb_pid (task_table ?s0 ! j) = tcb_pid (task_table s ! j)" for j
    by (simp add: update_task_nth [OF len [OF i]])
  have path0: "qpath (task_table ?s0) (ready_queue_head s) q"
    using D(4) by (subst update_task_path) simp_all
  have first: "first_idx (\<lambda>j. tcb_pid (task_table ?s0 ! j) = ?p) q = Some k"
  proof (rule first_idx_SomeI)
    fix j assume "j < k"
    then have "q ! j \<noteq> i" "q ! j \<in> set q" using k D(5) by (auto simp: nth_eq_iff_index_eq)
    then show "tcb_pid (task_table ?s0 ! (q ! j)) \<noteq> ?p"
      using sched_inv_pid_inj [OF inv _ i] unfolding pid0 by blast
  qed (use k pid0 in simp_all)
  let ?s1 = "update_task i (\<lambda>t. t\<lparr>tcb_state := TASK_ZOMBIE\<rparr>) ?s0"
  let ?after = "tcb_next (task_table ?s1 ! i)"
  let ?s2 = "if k = 0 then ?s1\<lparr>ready_queue_head := ?after\<rparr>
             else update_task (q ! (k - 1)) (\<lambda>t. t\<lparr>tcb_next := ?after\<rparr>) ?s1"
  let ?s' = "if current_task s = Some i then ?s2\<lparr>current_task := None\<rparr> else ?s2"
  have kill: "kill_task ?p ?s0 = Some ?s'"
    using k(2) unfolding kill_task_def update_task_sel(4) kill_search_path [OF path0] first
    by (simp add: Let_def)
  have path1: "qpath (task_table ?s1) (ready_queue_head s) q"
    using path0 by (subst update_task_path) simp_all
  have prev: "0 < k \<Longrightarrow> q ! (k - 1) \<in> set q" "0 < k \<Longrightarrow> q ! (k - 1) \<noteq> i"
    using k D(5) by (auto simp: nth_eq_iff_index_eq)
  have fil: "filter (\<lambda>j. j \<noteq> i) q = take k q @ drop (Suc k) q"
    using filter_neq_nth [OF D(5) k(1)] k(2) by simp
  have path2: "qpath (task_table ?s2) (ready_queue_head ?s2) (filter (\<lambda>j. j \<noteq> i) q)"
  proof (cases "k = 0")
    case True
    then show ?thesis using qpath_nth [OF path1 k(1)] fil k(2) by simp
  next
    case False
    then show ?thesis using qpath_unlink [OF path1 D(5) _ k(1)] k(2) by (simp add: fil update_task_def)
  qed
  have len2: "length (task_table ?s2) = length (task_table s)" by simp
  have tab: "tcb_pid (task_table ?s2 ! j) = tcb_pid (task_table s ! j) \<and>
             tcb_stack_pointer (task_table ?s2 ! j) = tcb_stack_pointer (task_table s ! j) \<and>
             tcb_state (task_table ?s2 ! j) = (if j = i then TASK_ZOMBIE else tcb_state (task_table s ! j))" for j
    using len [OF i] len [OF prev(1)] prev(2) by (simp add: update_task_nth)
  have rest: "task_count ?s2 = task_count s" "next_pid ?s2 = next_pid s" "current_task ?s2 = current_task s"
    "cpu ?s2 = cpu s" "mem ?s2 = mem s"
    by simp_all
  define s2 where "s2 = ?s2"
  note facts = path2 [folded s2_def] len2 [folded s2_def] tab [folded s2_def] rest [folded s2_def]
  have "sched_inv (s2\<lparr>current_task := None\<rparr>) (filter (\<lambda>j. j \<noteq> i) q)" if "current_task s = Some i"
    using D facts that by (intro sched_invI) auto
  moreover have "sched_inv s2 (filter (\<lambda>j. j \<noteq> i) q)" if "current_task s \<noteq> Some i"
    using D facts that by (intro sched_invI) auto
  ultimately show ?thesis using kill [folded s2_def] facts by auto
qed

subsection \<open>Yielding\<close>

lemma find_ready_all:
  assumes "qpath tbl p q" "\<And>i. i \<in> set q \<Longrightarrow> tcb_state (tbl ! i) = TASK_READY"
  shows "find_ready tbl p = Some p"
  unfolding find_ready_path [OF assms(1)] using assms(2) qpath_head [OF assms(1)] by (cases q) auto

lemma task_yield_idle: "current_task s = None \<Longrightarrow> task_yield s = Some s"
  by (simp add: task_yield_def)

lemma task_yield_inv:
  assumes inv: "sched_inv s q" and k: "k < length q" and cur: "current_task s = Some (q ! k)"
  shows "\<exists>s'. task_yield s = Some s' \<and> sched_inv s' q \<and> current_task s' = Some (q ! (Suc k mod length q)) \<and>
    schedule_requested s' = False \<and>
    (if length q = 1 then cpu s' = cpu s \<and> mem s' = mem s
     else (tcb_stack_pointer (task_table s' ! (q ! k)), cpu s', mem s') =
            switch_task_context (tcb_stack_pointer (task_table s ! (q ! (Suc k mod length q)))) (cpu s, mem s)) \<and>
    (\<forall>j. j \<noteq> q ! k \<longrightarrow> tcb_stack_pointer (task_table s' ! j) = tcb_stack_pointer (task_table s ! j))"
proof -
  note D = sched_invD [OF inv]
  let ?i = "q ! k"
  have i: "?i \<in> set q" using k by simp
  have len: "j < length (task_table s)" if "j \<in> set q" for j
    using sched_inv_index [OF inv that] D(1) by simp
  let ?s2 = "update_task ?i (\<lambda>t. t\<lparr>tcb_state := TASK_READY\<rparr>) (s\<lparr>schedule_requested := False\<rparr>)"
  have run: "tcb_state (task_table s ! ?i) = TASK_RUNNING" using D(9) [OF i] cur by simp
  obtain h q' where q: "q = h # q'" using k by (cases q) auto
  have head: "ready_queue_head s = Some h" using D(4) q by simp
  have path: "qpath (task_table ?s2) (ready_queue_head s) q"
    using D(4) by (subst update_task_path) simp_all
  have ready: "tcb_state (task_table ?s2 ! j) = TASK_READY" if "j \<in> set q" for j
    using D(9) [OF that] cur len [OF i] by (simp add: update_task_nth)
  have next_path: "qpath (task_table ?s2) (tcb_next (task_table ?s2 ! ?i)) (drop (Suc k) q)"
    by (rule qpath_nth [OF path k])
  have f1: "find_ready (task_table ?s2) (tcb_next (task_table ?s2 ! ?i)) = Some (tcb_next (task_table ?s2 ! ?i))"
    using ready by (intro find_ready_all [OF next_path]) (auto dest: in_set_dropD)
  have f2: "find_ready (task_table ?s2) (Some h) = Some (Some h)"
    using find_ready_all [OF path ready] head by simp
  have nxt: "tcb_next (task_table ?s2 ! ?i) = (if Suc k < length q then Some (q ! Suc k) else None)"
    using qpath_head [OF next_path] k by (simp add: Cons_nth_drop_Suc [symmetric])
  let ?n = "q ! (Suc k mod length q)"
  have n: "?n \<in> set q" using q by (intro nth_mem) auto
  have n': "?n = (if Suc k < length q then q ! Suc k else h)" using k q by (auto simp: mod_Suc)
  show ?thesis
  proof (cases "length q = 1")
    case True
    then have "?n = ?i" "k = 0" using k by auto
    then have "h = ?i" "\<not> Suc k < length q" using q True by simp_all
    let ?s' = "update_task ?i (\<lambda>t. t\<lparr>tcb_state := TASK_RUNNING\<rparr>) ?s2"
    have "task_yield s = Some ?s'"
      using cur head run f1 f2 nxt \<open>h = ?i\<close> \<open>\<not> Suc k < length q\<close> by (simp add: task_yield_def Let_def)
    moreover have "sched_inv ?s' q"
      using D len [OF i] cur True q by (intro sched_invI) (auto simp: update_task_nth update_task_path)
    ultimately show ?thesis using True cur len [OF i] \<open>?n = ?i\<close> by (auto simp: update_task_nth)
  next
    case False
    then have "Suc k mod length q \<noteq> k" using k by (auto simp: mod_Suc)
    then have ne: "?n \<noteq> ?i" using k D(5) q by (subst nth_eq_iff_index_eq) auto
    let ?s3 = "update_task ?n (\<lambda>t. t\<lparr>tcb_state := TASK_RUNNING, tcb_timeslice := 20\<rparr>) (?s2\<lparr>current_task := Some ?n\<rparr>)"
    have len': "h < length (task_table s)" "Suc k < length q \<Longrightarrow> q ! Suc k < length (task_table s)"
      using q len by auto
    obtain sp c m where sw: "switch_task_context (tcb_stack_pointer (task_table s ! ?n)) (cpu s, mem s) = (sp, c, m)"
      by (metis prod_cases3)
    let ?s' = "(update_task ?i (\<lambda>t. t\<lparr>tcb_stack_pointer := sp\<rparr>) ?s3)\<lparr>cpu := c, mem := m\<rparr>"
    have "task_yield s = Some ?s'"
      using cur head run f1 f2 nxt n' ne sw len [OF i] len'
      by (simp add: task_yield_def Let_def update_task_nth split: if_splits)
    moreover have "sched_inv ?s' q"
      using D len [OF i] len [OF n] cur ne n by (intro sched_invI) (auto simp: update_task_nth update_task_path)
    ultimately show ?thesis using False sw len [OF i] len [OF n] ne by (auto simp: update_task_nth)
  qed
qed

subsection \<open>Reachable states\<close>

text \<open>
  The steps of the system: the scheduler's operations, and \<open>Run\<close>, any code of a task or of an interrupt
  handler between two calls, which may change registers and memory but not the scheduler's tables.
\<close>

inductive sched_step :: "u64 \<Rightarrow> u64 \<Rightarrow> sched_t \<Rightarrow> sched_t \<Rightarrow> bool" for w ts where
  Create: "create_task w ts name e pr s = Some (r, s') \<Longrightarrow> sched_step w ts s s'"
| Kill: "kill_task p s = Some s' \<Longrightarrow> sched_step w ts s s'"
| Yield: "task_yield s = Some s' \<Longrightarrow> sched_step w ts s s'"
| Exit: "task_exit s = Some s' \<Longrightarrow> sched_step w ts s s'"
| Request: "sched_step w ts s (request_schedule s)"
| Run: "sched_step w ts s (s\<lparr>cpu := c, mem := m\<rparr>)"

inductive sched_reachable :: "u64 \<Rightarrow> u64 \<Rightarrow> sched_t \<Rightarrow> bool" for w ts where
  Init: "sched_reachable w ts (scheduler_initialize (sched_static c m))"
| Step: "sched_reachable w ts s \<Longrightarrow> sched_step w ts s s' \<Longrightarrow> sched_reachable w ts s'"

lemma sched_inv_frame [simp]:
  "sched_inv (s\<lparr>cpu := c, mem := m\<rparr>) q = sched_inv s q" "sched_inv (request_schedule s) q = sched_inv s q"
  by (simp_all add: sched_inv_def request_schedule_def)

text \<open>The queue after each operation, as a list.\<close>

lemma create_task_queue:
  assumes "sched_inv s q" "create_task w ts name e pr s = Some (r, s')"
  shows "(r = None \<and> s' = s \<and> unat (task_count s) = 256) \<or>
         (r = Some (unat (task_count s)) \<and> sched_inv s' (q @ [unat (task_count s)]) \<and>
          current_task s' = (if q = [] then r else current_task s))"
proof (cases "unat (task_count s) < 256")
  case True
  then show ?thesis using create_task_inv [OF assms(1) True, of w ts name e pr] assms(2) by auto
next
  case False
  then show ?thesis
    using create_task_full [of s w ts name e pr] assms(2) sched_invD(2) [OF assms(1)] by simp
qed

lemma kill_task_queue:
  assumes "sched_inv s q"
  shows "\<exists>s'. kill_task p s = Some s' \<and>
    sched_inv s' (filter (\<lambda>i. tcb_pid (task_table s ! i) \<noteq> p) q) \<and>
    current_task s' = (case current_task s of None \<Rightarrow> None
                       | Some i \<Rightarrow> if tcb_pid (task_table s ! i) = p then None else Some i)"
proof (cases "\<exists>i \<in> set q. tcb_pid (task_table s ! i) = p")
  case True
  then obtain i where i: "i \<in> set q" "tcb_pid (task_table s ! i) = p" by blast
  have uniq: "tcb_pid (task_table s ! j) = p \<longleftrightarrow> j = i" if "j \<in> set q" for j
    using sched_inv_pid_inj [OF assms that i(1)] i(2) by auto
  have "update_task i (\<lambda>t. t\<lparr>tcb_state := tcb_state (task_table s ! i)\<rparr>) s = s"
    by (simp add: update_task_def)
  then show ?thesis
    using kill_task_present [OF assms i(1), of "tcb_state (task_table s ! i)"] i(2) uniq sched_invD(8) [OF assms]
    by (auto split: option.splits cong: filter_cong)
next
  case False
  have "filter (\<lambda>i. tcb_pid (task_table s ! i) \<noteq> p) q = q" using False by (auto simp: filter_id_conv)
  then show ?thesis
    using kill_task_absent [OF assms, of p] False assms sched_invD(8) [OF assms] by (auto split: option.splits)
qed

lemma task_yield_queue:
  assumes "sched_inv s q"
  shows "\<exists>s'. task_yield s = Some s' \<and> sched_inv s' q \<and> (current_task s' = None \<longleftrightarrow> current_task s = None)"
proof (cases "current_task s")
  case None
  then show ?thesis using task_yield_idle assms by simp
next
  case (Some i)
  then obtain k where "k < length q" "q ! k = i"
    using sched_invD(8) [OF assms] by (auto simp: in_set_conv_nth)
  then show ?thesis using task_yield_inv [OF assms, of k] Some by auto
qed

lemma task_exit_queue:
  assumes "sched_inv s q"
  shows "\<exists>s'. task_exit s = Some s' \<and> current_task s' = None \<and>
           sched_inv s' (filter (\<lambda>j. current_task s \<noteq> Some j) q)"
proof (cases "current_task s")
  case None
  then show ?thesis using assms by (simp add: task_exit_def)
next
  case (Some i)
  then have "filter (\<lambda>j. current_task s \<noteq> Some j) q = filter (\<lambda>j. j \<noteq> i) q" by (intro filter_cong) auto
  then show ?thesis
    using kill_task_present [OF assms sched_invD(8) [OF assms Some], of TASK_ZOMBIE] task_yield_idle Some
    by (auto simp: task_exit_def)
qed

lemma sched_step_inv:
  assumes "sched_step w ts s s'" "sched_inv s q"
  shows "\<exists>q'. sched_inv s' q'"
  using assms(1)
proof cases
  case (Create name e pr r)
  then show ?thesis using create_task_queue [OF assms(2) Create] assms(2) by blast
next
  case (Kill p)
  then show ?thesis using kill_task_queue [OF assms(2), of p] by auto
next
  case Yield
  then show ?thesis using task_yield_queue [OF assms(2)] by auto
next
  case Exit
  then show ?thesis using task_exit_queue [OF assms(2)] by auto
qed (use assms(2) in auto)

lemma sched_reachable_inv: "sched_reachable w ts s \<Longrightarrow> \<exists>q. sched_inv s q"
  by (induction rule: sched_reachable.induct) (auto intro: sched_init_inv dest: sched_step_inv)

subsection \<open>What a switch stores and loads\<close>

text \<open>The memory after the six pushes, and the routine as one update.\<close>

definition saved_frame :: "cpu_t \<Rightarrow> memory \<Rightarrow> memory" where
  "saved_frame c m = m(rsp c - 8 := rbx c, rsp c - 16 := rbp c, rsp c - 24 := r12 c, rsp c - 32 := r13 c,
     rsp c - 40 := r14 c, rsp c - 48 := r15 c)"

lemma push_frame:
  "push (r15 c) (push (r14 c) (push (r13 c) (push (r12 c) (push (rbp c) (push (rbx c) (c, m)))))) =
     (c\<lparr>rsp := rsp c - 48\<rparr>, saved_frame c m)"
  by (simp add: push_def saved_frame_def del: fun_upd_apply)

lemma switch_task_context_eq:
  "switch_task_context sp (c, m) =
     (rsp c - 48,
      \<lparr>rbx = saved_frame c m (sp + 40), rbp = saved_frame c m (sp + 32), r12 = saved_frame c m (sp + 24),
       r13 = saved_frame c m (sp + 16), r14 = saved_frame c m (sp + 8), r15 = saved_frame c m sp,
       rsp = sp + 56, rip = saved_frame c m (sp + 48)\<rparr>, saved_frame c m)"
  by (simp add: switch_task_context_def push_frame Let_def pop_def) (rule cpu_t.equality; simp add: add.commute)

text \<open>\<open>frames_apart c sp\<close>: what a switch pushes on the stack of \<open>c\<close> does not reach the seven words at \<open>sp\<close>.\<close>

definition frames_apart :: "cpu_t \<Rightarrow> u64 \<Rightarrow> bool" where
  "frames_apart c sp \<longleftrightarrow> (\<forall>a \<in> {sp, sp + 8, sp + 16, sp + 24, sp + 32, sp + 40, sp + 48}.
     a \<notin> {rsp c - 8, rsp c - 16, rsp c - 24, rsp c - 32, rsp c - 40, rsp c - 48})"

lemma saved_frame_apart:
  assumes "frames_apart c sp" "a \<in> {sp, sp + 8, sp + 16, sp + 24, sp + 32, sp + 40, sp + 48}"
  shows "saved_frame c m a = m a"
proof -
  have "a \<notin> {rsp c - 8, rsp c - 16, rsp c - 24, rsp c - 32, rsp c - 40, rsp c - 48}"
    using assms unfolding frames_apart_def by blast
  then show ?thesis unfolding saved_frame_def by simp
qed

lemma saved_frame_same:
  "saved_frame c m (rsp c - 48) = r15 c" "saved_frame c m (rsp c - 48 + 8) = r14 c"
  "saved_frame c m (rsp c - 48 + 16) = r13 c" "saved_frame c m (rsp c - 48 + 24) = r12 c"
  "saved_frame c m (rsp c - 48 + 32) = rbp c" "saved_frame c m (rsp c - 48 + 40) = rbx c"
  "saved_frame c m (rsp c - 48 + 48) = m (rsp c)"
  by (simp_all add: saved_frame_def)

lemma switch_fresh_frame:
  assumes "frames_apart c sp"
  shows "fst (snd (switch_task_context sp (c, init_frame w sp m))) =
           \<lparr>rbx = 0, rbp = 0, r12 = 0, r13 = 0, r14 = 0, r15 = 0, rsp = sp + 56, rip = w\<rparr>"
  unfolding switch_task_context_eq using saved_frame_apart [OF assms] by (simp add: init_frame_def)

subsection \<open>Properties\<close>

text \<open>
  C4: In every state the system can reach, every operation of the scheduler returns (no walk along
  the \<^verbatim>\<open>next\<close> pointers runs forever), and the well-formedness of the queue holds.
\<close>

theorem sched_reachable_total:
  assumes "sched_reachable w ts s"
  shows "(\<exists>q. sched_inv s q) \<and> create_task w ts name e pr s \<noteq> None \<and> kill_task p s \<noteq> None \<and>
         task_yield s \<noteq> None \<and> task_exit s \<noteq> None"
proof -
  obtain q where inv: "sched_inv s q" using sched_reachable_inv [OF assms] by blast
  have "create_task w ts name e pr s \<noteq> None"
    using create_task_inv [OF inv, of w ts name e pr] create_task_full [of s w ts name e pr]
    by (cases "unat (task_count s) < 256") auto
  then show ?thesis
    using inv kill_task_queue [OF inv, of p] task_yield_queue [OF inv] task_exit_queue [OF inv] by auto
qed

primrec yields :: "nat \<Rightarrow> sched_t \<Rightarrow> sched_t option" where
  "yields 0 s = Some s"
| "yields (Suc n) s = (case task_yield s of None \<Rightarrow> None | Some s' \<Rightarrow> yields n s')"

lemma yields_inv:
  "sched_inv s q \<Longrightarrow> k < length q \<Longrightarrow> current_task s = Some (q ! k) \<Longrightarrow>
     \<exists>s'. yields n s = Some s' \<and> sched_inv s' q \<and> current_task s' = Some (q ! ((k + n) mod length q))"
proof (induction n arbitrary: s k)
  case (Suc n)
  obtain s' where s': "task_yield s = Some s'" "sched_inv s' q" "current_task s' = Some (q ! (Suc k mod length q))"
    using task_yield_inv [OF Suc.prems] by blast
  have "Suc k mod length q < length q" using Suc.prems(2) by (intro mod_less_divisor) linarith
  moreover have "(Suc k mod length q + n) mod length q = (k + Suc n) mod length q"
    by (simp add: mod_add_left_eq)
  ultimately show ?case using Suc.IH [OF s'(2) _ s'(3)] by (simp add: s'(1))
qed simp

text \<open>
  C3: The schedule is round robin. With the current task at position \<open>k\<close> of the queue, the task at position
  \<open>(k + n) mod length q\<close> is current after \<open>n\<close> yields; so every task of the queue becomes current within
  one round of yields.
\<close>

theorem task_yield_round_robin:
  assumes "sched_inv s q" and "k < length q" and "current_task s = Some (q ! k)"
  shows "(\<exists>s'. yields n s = Some s' \<and> current_task s' = Some (q ! ((k + n) mod length q))) \<and>
         (\<forall>i \<in> set q. \<exists>m < length q. \<exists>s'. yields m s = Some s' \<and> current_task s' = Some i)"
proof (intro conjI ballI)
  show "\<exists>s'. yields n s = Some s' \<and> current_task s' = Some (q ! ((k + n) mod length q))"
    using yields_inv [OF assms] by blast
  fix i assume "i \<in> set q"
  then obtain j where j: "j < length q" "q ! j = i" by (auto simp: in_set_conv_nth)
  let ?m = "if k \<le> j then j - k else length q + j - k"
  have "?m < length q" "(k + ?m) mod length q = j"
    using j(1) assms(2) by (auto simp: mod_if)
  then show "\<exists>m < length q. \<exists>s'. yields m s = Some s' \<and> current_task s' = Some i"
    using yields_inv [OF assms, of ?m] j(2) by metis
qed

definition new_task_ready :: "u64 \<Rightarrow> u64 \<Rightarrow> nat \<Rightarrow> sched_t \<Rightarrow> bool" where
  "new_task_ready w ts n s \<longleftrightarrow>
     (\<forall>c. frames_apart c (tcb_stack_pointer (task_table s ! n)) \<longrightarrow>
        fst (snd (switch_task_context (tcb_stack_pointer (task_table s ! n)) (c, mem s))) =
          \<lparr>rbx = 0, rbp = 0, r12 = 0, r13 = 0, r14 = 0, r15 = 0,
           rsp = ts + (of_nat n + 1) * TASK_STACK_SIZE, rip = w\<rparr>)"

text \<open>
  C8: \<open>create_task\<close> takes the next unused block, links it at the end of the queue with the next process
  id, and prepares its stack: the first switch to it, from a stack that does not overlap the new
  frame, enters \<^verbatim>\<open>task_entry_wrapper\<close> with the stack pointer at the end of the task's own stack and zero in
  every other register. With 256 blocks in use it fails and changes nothing.
\<close>

theorem create_task_correct:
  assumes "sched_inv s q"
  shows "if unat (task_count s) < MAX_TASKS
         then \<exists>s'. create_task w ts name e pr s = Some (Some (unat (task_count s)), s') \<and>
                sched_inv s' (q @ [unat (task_count s)]) \<and>
                tcb_entry (task_table s' ! unat (task_count s)) = e \<and>
                tcb_priority (task_table s' ! unat (task_count s)) = pr \<and>
                tcb_name (task_table s' ! unat (task_count s)) = Some name \<and>
                new_task_ready w ts (unat (task_count s)) s'
         else create_task w ts name e pr s = Some (None, s)"
proof (cases "unat (task_count s) < MAX_TASKS")
  case True
  let ?n = "unat (task_count s)"
  obtain s' where s': "create_task w ts name e pr s = Some (Some ?n, s')" "sched_inv s' (q @ [?n])"
      "tcb_entry (task_table s' ! ?n) = e" "tcb_name (task_table s' ! ?n) = Some name"
      "tcb_priority (task_table s' ! ?n) = pr" "mem s' = init_frame w (new_stack_top ts (task_count s)) (mem s)"
      "tcb_stack_pointer (task_table s' ! ?n) = new_stack_top ts (task_count s)"
    using create_task_inv [OF assms True, of w ts name e pr] by blast
  have "new_stack_top ts (task_count s) + 56 = ts + (of_nat ?n + 1) * TASK_STACK_SIZE"
    by (simp add: new_stack_top_def)
  then have "new_task_ready w ts ?n s'"
    unfolding new_task_ready_def s'(6,7) using switch_fresh_frame by metis
  then show ?thesis using s' True by auto
next
  case False
  then show ?thesis using create_task_full [of s w ts name e pr] by simp
qed

text \<open>
  C20: \<open>kill_task\<close> removes exactly the task with that process id from the queue and keeps the order of the
  others; a process id that is not in the queue changes nothing. Queued tasks have distinct
  process ids.
\<close>

theorem kill_task_correct:
  assumes "sched_inv s q"
  shows "\<exists>s'. kill_task p s = Some s' \<and> sched_inv s' (filter (\<lambda>i. tcb_pid (task_table s ! i) \<noteq> p) q) \<and>
           ((\<forall>i \<in> set q. tcb_pid (task_table s ! i) \<noteq> p) \<longrightarrow> s' = s) \<and>
           inj_on (\<lambda>i. tcb_pid (task_table s ! i)) (set q)"
  using kill_task_queue [OF assms, of p] kill_task_absent [OF assms, of p] sched_inv_pid_inj [OF assms]
  by (fastforce simp: inj_on_def)

text \<open>
  C7: Switching away and back restores the task. If the words at the saved stack pointer are untouched
  and the other stack does not overlap them, the second switch returns to the first caller's return address
  with its stack pointer and all callee-saved registers as they were.
\<close>

theorem switch_task_context_round_trip:
  assumes "switch_task_context sp (c, m) = (old, c1, m1)"
    and "\<forall>a \<in> {old, old + 8, old + 16, old + 24, old + 32, old + 40, old + 48}. m2 a = m1 a"
    and "frames_apart c2 old"
  shows "fst (snd (switch_task_context old (c2, m2))) = c\<lparr>rsp := rsp c + 8, rip := m (rsp c)\<rparr>"
proof -
  have old: "old = rsp c - 48" and m1: "m1 = saved_frame c m"
    using assms(1) by (simp_all add: switch_task_context_eq)
  have eq: "saved_frame c2 m2 a = saved_frame c m a"
    if "a \<in> {old, old + 8, old + 16, old + 24, old + 32, old + 40, old + 48}" for a
    using saved_frame_apart [OF assms(3) that, of m2] bspec [OF assms(2) that] m1 by simp
  have "fst (snd (switch_task_context old (c2, m2))) =
      \<lparr>rbx = saved_frame c m (old + 40), rbp = saved_frame c m (old + 32), r12 = saved_frame c m (old + 24),
       r13 = saved_frame c m (old + 16), r14 = saved_frame c m (old + 8), r15 = saved_frame c m old,
       rsp = old + 56, rip = saved_frame c m (old + 48)\<rparr>"
    unfolding switch_task_context_eq by (simp add: eq)
  then show ?thesis
    unfolding old saved_frame_same by (cases c) simp
qed

lemma sched_step_stays_idle:
  assumes "sched_step w ts s s'" "sched_inv s q" "q \<noteq> []" "current_task s = None"
  shows "current_task s' = None"
  using assms(1)
proof cases
  case (Create name e pr r)
  then show ?thesis using create_task_queue [OF assms(2) Create] assms(3,4) by auto
next
  case (Kill p)
  then show ?thesis using kill_task_queue [OF assms(2), of p] assms(4) by auto
next
  case Yield
  then show ?thesis using task_yield_idle [OF assms(4)] assms(4) by simp
next
  case Exit
  then show ?thesis using task_exit_queue [OF assms(2)] by auto
qed (use assms(4) in \<open>simp_all add: request_schedule_def\<close>)

text \<open>
  C40: When the current task ends, scheduling stops. \<^verbatim>\<open>kill_task\<close> sets \<^verbatim>\<open>current_task\<close> to \<^verbatim>\<open>NULL\<close> and
  \<^verbatim>\<open>task_yield\<close> returns at once when it is \<^verbatim>\<open>NULL\<close>: after \<open>task_exit\<close> no number of yields
  switches to one of the tasks that are still ready, and no step changes that while any is queued.
\<close>

theorem task_exit_stops_scheduling:
  assumes "sched_inv s q" and "current_task s = Some i"
  shows "\<exists>s'. task_exit s = Some s' \<and> current_task s' = None \<and>
           sched_inv s' (filter (\<lambda>j. j \<noteq> i) q) \<and> yields n s' = Some s' \<and>
           (\<forall>s''. filter (\<lambda>j. j \<noteq> i) q \<noteq> [] \<longrightarrow> sched_step w ts s' s'' \<longrightarrow> current_task s'' = None)"
proof -
  have "filter (\<lambda>j. current_task s \<noteq> Some j) q = filter (\<lambda>j. j \<noteq> i) q" using assms(2) by (intro filter_cong) auto
  then obtain s' where s': "task_exit s = Some s'" "current_task s' = None" "sched_inv s' (filter (\<lambda>j. j \<noteq> i) q)"
    using task_exit_queue [OF assms(1)] by auto
  have "yields n s' = Some s'" by (induction n) (simp_all add: task_yield_idle [OF s'(2)])
  then show ?thesis using s' sched_step_stays_idle [OF _ s'(3) _ s'(2)] by blast
qed

subsection \<open>Witnesses\<close>

definition cpu0 :: cpu_t where
  "cpu0 = \<lparr>rbx = 1, rbp = 2, r12 = 3, r13 = 4, r14 = 5, r15 = 6, rsp = 0x9000, rip = 0x100\<rparr>"

definition sched0 :: sched_t where
  "sched0 = scheduler_initialize (sched_static cpu0 (\<lambda>_. 0))"

definition sched1 :: sched_t where
  "sched1 = snd (the (create_task 0x1000 0x800000 ''idle'' 0x2000 0 sched0))"

definition sched2 :: sched_t where
  "sched2 = snd (the (create_task 0x1000 0x800000 ''shell'' 0x3000 1 sched1))"

lemma sched0_inv: "sched_inv sched0 []" "task_count sched0 = 0"
  by (simp_all add: sched0_def sched_init_inv) (simp add: scheduler_initialize_def)

lemma sched1_inv:
  "sched_inv sched1 [0]" "current_task sched1 = Some 0" "task_count sched1 = 1"
  "create_task 0x1000 0x800000 ''idle'' 0x2000 0 sched0 = Some (Some 0, sched1)"
  using create_task_inv [OF sched0_inv(1), of "0x1000" "0x800000" "''idle''" "0x2000" 0] sched0_inv(2)
  by (auto simp: sched1_def)

lemma sched2_inv:
  "sched_inv sched2 [0, 1]" "current_task sched2 = Some 0" "task_count sched2 = 2"
  "create_task 0x1000 0x800000 ''shell'' 0x3000 1 sched1 = Some (Some 1, sched2)"
  using create_task_inv [OF sched1_inv(1), of "0x1000" "0x800000" "''shell''" "0x3000" 1] sched1_inv(2,3)
  by (auto simp: sched2_def)

lemma sched2_reachable: "sched_reachable 0x1000 0x800000 sched2"
  by (rule Step [OF Step [OF Init [of _ _ cpu0 "\<lambda>_. 0", folded sched0_def]]])
     (rule sched_step.Create [OF sched1_inv(4)], rule sched_step.Create [OF sched2_inv(4)])

theorem sched_reachable_total_witness: "kill_task 1 sched2 \<noteq> None \<and> task_yield sched2 \<noteq> None"
  using sched_reachable_total [OF sched2_reachable] by blast

theorem task_yield_round_robin_witness:
  "\<exists>s'. yields 1 sched2 = Some s' \<and> current_task s' = Some 1"
  using task_yield_round_robin [OF sched2_inv(1), of 0 1] sched2_inv(2) by simp

theorem create_task_correct_witness:
  "\<exists>s'. create_task 0x1000 0x800000 ''shell'' 0x3000 1 sched1 = Some (Some 1, s') \<and> sched_inv s' [0, 1]"
  using create_task_correct [OF sched1_inv(1), of "0x1000" "0x800000" "''shell''" "0x3000" 1] sched1_inv(3)
  by auto

theorem kill_task_correct_witness: "\<exists>s'. kill_task 2 sched2 = Some s' \<and> sched_inv s' [0]"
  using kill_task_correct [OF sched2_inv(1), of 2] sched_invD(7) [OF sched2_inv(1), of 0]
    sched_invD(7) [OF sched2_inv(1), of 1] sched2_inv(3) by auto

theorem switch_task_context_round_trip_witness:
  "fst (snd (switch_task_context 0x8FD0 (cpu0\<lparr>rsp := 0x7000\<rparr>, saved_frame cpu0 (\<lambda>_. 0)))) =
     cpu0\<lparr>rsp := 0x9008, rip := 0\<rparr>"
proof -
  have "switch_task_context 0x5000 (cpu0, \<lambda>_. 0) =
      (0x8FD0, fst (snd (switch_task_context 0x5000 (cpu0, \<lambda>_. 0))), saved_frame cpu0 (\<lambda>_. 0))"
    by (simp add: switch_task_context_eq) (simp add: cpu0_def)
  moreover have "frames_apart (cpu0\<lparr>rsp := 0x7000\<rparr>) 0x8FD0" by (simp add: frames_apart_def)
  ultimately show ?thesis
    using switch_task_context_round_trip [of "0x5000" cpu0 "\<lambda>_. 0"] by (simp add: cpu0_def)
qed

theorem task_exit_stops_scheduling_witness:
  "\<exists>s'. task_exit sched2 = Some s' \<and> sched_inv s' [1] \<and> current_task s' = None \<and> yields 5 s' = Some s'"
  using task_exit_stops_scheduling [OF sched2_inv(1,2), of 5 0 0] by auto

end
