(* ===== verification/Pci.thy ===== *)
theory Pci
  imports Prelude
begin

text \<open>
  PCI configuration access of \<^verbatim>\<open>audio.c\<close> and \<^verbatim>\<open>usb.c\<close>. The configuration space of the machine is a parameter:
  a function from the 32-bit address written to port 0xCF8 to the dword then read from port 0xCFC.
  The three searches of the code (by vendor and device, by class, and for the xHCI controller) share one
  loop nest, with the test of the innermost body as its argument.
\<close>

type_synonym pci_space = "u32 \<Rightarrow> u32"

text \<open>The port writes of the drivers, in program order.\<close>

datatype port_write = Outb u16 u8 | Outw u16 u16 | Outl u16 u32

record pci_device_t =
  pd_bus :: u8
  pd_device :: u8
  pd_function :: u8
  pd_vendor_id :: u16
  pd_device_id :: u16
  pd_base_class :: u8
  pd_subclass :: u8
  pd_prog_if :: u8
  pd_bar0 :: u32

definition pci_build_address :: "u8 \<Rightarrow> u8 \<Rightarrow> u8 \<Rightarrow> u8 \<Rightarrow> u32" where
  "pci_build_address bus device function offset =
     0x80000000 OR push_bit 16 (ucast bus) OR push_bit 11 (ucast device) OR push_bit 8 (ucast function)
     OR (ucast offset AND 0xFC)"

definition pci_read_config_dword :: "pci_space \<Rightarrow> u8 \<Rightarrow> u8 \<Rightarrow> u8 \<Rightarrow> u8 \<Rightarrow> u32" where
  "pci_read_config_dword cfg bus device function offset = cfg (pci_build_address bus device function offset)"

definition pci_write_config_dword :: "u8 \<Rightarrow> u8 \<Rightarrow> u8 \<Rightarrow> u8 \<Rightarrow> u32 \<Rightarrow> port_write list" where
  "pci_write_config_dword bus device function offset v =
     [Outl 0xCF8 (pci_build_address bus device function offset), Outl 0xCFC v]"

text \<open>
  The body of the three loops. \<open>test\<close> gets the dwords at offsets 0x00 and 0x08; a function that is
  absent ends the scan of its device when it is function 0 and is skipped otherwise, and a single-function
  device ends the scan after function 0.
\<close>

fun scan_functions :: "pci_space \<Rightarrow> (u32 \<Rightarrow> u32 \<Rightarrow> bool) \<Rightarrow> u8 \<Rightarrow> u8 \<Rightarrow> u8 list \<Rightarrow> u8 option" where
  "scan_functions cfg test bus device [] = None"
| "scan_functions cfg test bus device (function # rest) =
     (let vendor_device = pci_read_config_dword cfg bus device function 0x00 in
      if vendor_device AND 0xFFFF = 0xFFFF
      then if function = 0 then None else scan_functions cfg test bus device rest
      else if test vendor_device (pci_read_config_dword cfg bus device function 0x08) then Some function
      else
        let header_type = drop_bit 16 (pci_read_config_dword cfg bus device function 0x0C) AND 0xFF in
        if function = 0 \<and> header_type AND 0x80 = 0 then None
        else scan_functions cfg test bus device rest)"

fun scan_devices :: "pci_space \<Rightarrow> (u32 \<Rightarrow> u32 \<Rightarrow> bool) \<Rightarrow> (u8 \<times> u8) list \<Rightarrow> (u8 \<times> u8 \<times> u8) option" where
  "scan_devices cfg test [] = None"
| "scan_devices cfg test ((bus, device) # rest) =
     (case scan_functions cfg test bus device (map of_nat [0..<8]) of
        Some function \<Rightarrow> Some (bus, device, function)
      | None \<Rightarrow> scan_devices cfg test rest)"

definition pci_scan :: "pci_space \<Rightarrow> (u32 \<Rightarrow> u32 \<Rightarrow> bool) \<Rightarrow> (u8 \<times> u8 \<times> u8) option" where
  "pci_scan cfg test = scan_devices cfg test (List.product (map of_nat [0..<2]) (map of_nat [0..<32]))"

text \<open>The fields every search stores through its \<^verbatim>\<open>out\<close> pointer.\<close>

definition fill_device :: "pci_space \<Rightarrow> u8 \<times> u8 \<times> u8 \<Rightarrow> pci_device_t" where
  "fill_device cfg = (\<lambda>(bus, device, function).
     let vendor_device = pci_read_config_dword cfg bus device function 0x00;
         class_code = pci_read_config_dword cfg bus device function 0x08
     in \<lparr>pd_bus = bus, pd_device = device, pd_function = function,
         pd_vendor_id = ucast (vendor_device AND 0xFFFF),
         pd_device_id = ucast (drop_bit 16 vendor_device AND 0xFFFF),
         pd_base_class = ucast (drop_bit 24 class_code AND 0xFF),
         pd_subclass = ucast (drop_bit 16 class_code AND 0xFF),
         pd_prog_if = ucast (drop_bit 8 class_code AND 0xFF),
         pd_bar0 = pci_read_config_dword cfg bus device function 0x10 AND NOT 0x0F\<rparr>)"

definition device_test :: "u16 \<Rightarrow> u16 \<Rightarrow> u32 \<Rightarrow> u32 \<Rightarrow> bool" where
  "device_test vendor_id device_id vendor_device class_code \<longleftrightarrow>
     ucast (vendor_device AND 0xFFFF) = vendor_id \<and> ucast (drop_bit 16 vendor_device AND 0xFFFF) = device_id"

definition class_test :: "u8 \<Rightarrow> u8 \<Rightarrow> u8 \<Rightarrow> u32 \<Rightarrow> u32 \<Rightarrow> bool" where
  "class_test base_class subclass prog_if vendor_device class_code \<longleftrightarrow>
     ucast (drop_bit 24 class_code AND 0xFF) = base_class \<and> ucast (drop_bit 16 class_code AND 0xFF) = subclass \<and>
     ucast (drop_bit 8 class_code AND 0xFF) = prog_if"

text \<open>The \<^verbatim>\<open>out\<close> argument is \<open>None\<close> for \<^verbatim>\<open>NULL\<close>; the result is the returned flag and what it then points to.\<close>

definition pci_find_device ::
  "pci_space \<Rightarrow> u16 \<Rightarrow> u16 \<Rightarrow> pci_device_t option \<Rightarrow> bool \<times> pci_device_t option" where
  "pci_find_device cfg vendor_id device_id out =
     (case out of None \<Rightarrow> (False, None)
      | Some _ \<Rightarrow> (case pci_scan cfg (device_test vendor_id device_id) of
                     None \<Rightarrow> (False, out) | Some a \<Rightarrow> (True, Some (fill_device cfg a))))"

definition pci_find_class ::
  "pci_space \<Rightarrow> u8 \<Rightarrow> u8 \<Rightarrow> u8 \<Rightarrow> pci_device_t option \<Rightarrow> bool \<times> pci_device_t option" where
  "pci_find_class cfg class_code subclass prog_if out =
     (case out of None \<Rightarrow> (False, None)
      | Some _ \<Rightarrow> (case pci_scan cfg (class_test class_code subclass prog_if) of
                     None \<Rightarrow> (False, out) | Some a \<Rightarrow> (True, Some (fill_device cfg a))))"

definition pci_find_xhci_controller :: "pci_space \<Rightarrow> pci_device_t option" where
  "pci_find_xhci_controller cfg =
     map_option (fill_device cfg) (pci_scan cfg (class_test 0x0C 0x03 0x30))"

subsection \<open>Configuration addresses\<close>

lemma bit_small_word:
  fixes x :: u8
  assumes "unat x < 2 ^ k" "bit x n"
  shows "n < k"
proof -
  have "take_bit k (unat x) = unat x" using assms(1) by (simp add: take_bit_nat_eq_self_iff)
  moreover have "bit (unat x) n" using assms(2) by (simp add: bit_unsigned_iff)
  ultimately have "bit (take_bit k (unat x)) n" by simp
  then show ?thesis by (simp add: bit_take_bit_iff)
qed

lemma pci_address_bit:
  assumes "device < 32" "function < 8"
  shows "bit (pci_build_address bus device function offset) n \<longleftrightarrow>
    n = 31 \<or> (16 \<le> n \<and> bit bus (n - 16)) \<or> (11 \<le> n \<and> n < 16 \<and> bit device (n - 11)) \<or>
    (8 \<le> n \<and> n < 11 \<and> bit function (n - 8)) \<or> (2 \<le> n \<and> bit offset n)"
proof -
  have eq: "(0x80000000 :: u32) = push_bit 31 1" "(0xFC :: u32) = push_bit 2 (mask 6)"
    by (simp_all add: mask_eq_exp_minus_1)
  have dev: "bit device k \<Longrightarrow> k < 5" for k using bit_small_word [of device 5 k] assms by (simp add: word_less_nat_alt)
  have fct: "bit function k \<Longrightarrow> k < 3" for k using bit_small_word [of "function" 3 k] assms by (simp add: word_less_nat_alt)
  have len: "bit x k \<Longrightarrow> k < 8" for x :: u8 and k using bit_imp_le_length [of x k] by simp
  have "bit (push_bit 16 (ucast bus) :: u32) n \<longleftrightarrow> 16 \<le> n \<and> bit bus (n - 16)"
    using len [of bus "n - 16"] by (auto simp: bit_push_bit_iff bit_ucast_iff)
  moreover have "bit (push_bit 11 (ucast device) :: u32) n \<longleftrightarrow> 11 \<le> n \<and> n < 16 \<and> bit device (n - 11)"
    using dev [of "n - 11"] by (auto simp: bit_push_bit_iff bit_ucast_iff)
  moreover have "bit (push_bit 8 (ucast function) :: u32) n \<longleftrightarrow> 8 \<le> n \<and> n < 11 \<and> bit function (n - 8)"
    using fct [of "n - 8"] by (auto simp: bit_push_bit_iff bit_ucast_iff)
  moreover have "bit (ucast offset AND 0xFC :: u32) n \<longleftrightarrow> 2 \<le> n \<and> bit offset n"
    unfolding eq using len [of offset n] by (auto simp: bit_and_iff bit_push_bit_iff bit_ucast_iff bit_mask_iff)
  moreover have "bit (0x80000000 :: u32) n \<longleftrightarrow> n = 31"
    unfolding eq bit_push_bit_iff by (auto simp: bit_1_iff)
  ultimately show ?thesis unfolding pci_build_address_def bit_or_iff by simp
qed

lemma pci_address_fields:
  assumes "device < 32" "function < 8"
  shows "drop_bit 16 (pci_build_address bus device function offset) AND 0xFF = ucast bus"
    "drop_bit 11 (pci_build_address bus device function offset) AND 0x1F = ucast device"
    "drop_bit 8 (pci_build_address bus device function offset) AND 7 = ucast function"
    "pci_build_address bus device function offset AND 0xFF = ucast (offset AND 0xFC)"
proof -
  note bits = pci_address_bit [OF assms]
  have mask: "(0xFF :: u32) = mask 8" "(0x1F :: u32) = mask 5" "(7 :: u32) = mask 3" "(0xFC :: u8) = push_bit 2 (mask 6)"
    by (simp_all add: mask_eq_exp_minus_1)
  have dev: "bit device k \<Longrightarrow> k < 5" for k using bit_small_word [of device 5 k] assms by (simp add: word_less_nat_alt)
  have fct: "bit function k \<Longrightarrow> k < 3" for k using bit_small_word [of "function" 3 k] assms by (simp add: word_less_nat_alt)
  have len: "bit x k \<Longrightarrow> k < 8" for x :: u8 and k using bit_imp_le_length [of x k] by simp
  show "drop_bit 16 (pci_build_address bus device function offset) AND 0xFF = ucast bus"
    unfolding mask by (rule bit_word_eqI) (auto simp: bit_and_iff bit_drop_bit_eq bits bit_mask_iff bit_ucast_iff dest: len)
  show "drop_bit 11 (pci_build_address bus device function offset) AND 0x1F = ucast device"
    unfolding mask by (rule bit_word_eqI) (auto simp: bit_and_iff bit_drop_bit_eq bits bit_mask_iff bit_ucast_iff dest: dev len)
  show "drop_bit 8 (pci_build_address bus device function offset) AND 7 = ucast function"
    unfolding mask by (rule bit_word_eqI) (auto simp: bit_and_iff bit_drop_bit_eq bits bit_mask_iff bit_ucast_iff dest: fct len)
  show "pci_build_address bus device function offset AND 0xFF = ucast (offset AND 0xFC)"
    unfolding mask
    by (rule bit_word_eqI) (auto simp: bit_and_iff bit_push_bit_iff bits bit_mask_iff bit_ucast_iff dest: len)
qed

subsection \<open>What the scans find\<close>

definition present :: "pci_space \<Rightarrow> u8 \<Rightarrow> u8 \<Rightarrow> u8 \<Rightarrow> bool" where
  "present cfg bus device function \<longleftrightarrow> pci_read_config_dword cfg bus device function 0x00 AND 0xFFFF \<noteq> 0xFFFF"

definition multifunction :: "pci_space \<Rightarrow> u8 \<Rightarrow> u8 \<Rightarrow> bool" where
  "multifunction cfg bus device \<longleftrightarrow>
     (drop_bit 16 (pci_read_config_dword cfg bus device 0 0x0C) AND 0xFF) AND 0x80 \<noteq> 0"

text \<open>The functions a scan of the first two buses may visit: function 0 must be present, and report several functions.\<close>

definition visible :: "pci_space \<Rightarrow> u8 \<Rightarrow> u8 \<Rightarrow> u8 \<Rightarrow> bool" where
  "visible cfg bus device function \<longleftrightarrow> bus < 2 \<and> device < 32 \<and> function < 8 \<and>
     present cfg bus device 0 \<and> present cfg bus device function \<and> (function = 0 \<or> multifunction cfg bus device)"

definition passes :: "pci_space \<Rightarrow> (u32 \<Rightarrow> u32 \<Rightarrow> bool) \<Rightarrow> u8 \<Rightarrow> u8 \<Rightarrow> u8 \<Rightarrow> bool" where
  "passes cfg test bus device function \<longleftrightarrow>
     test (pci_read_config_dword cfg bus device function 0x00) (pci_read_config_dword cfg bus device function 0x08)"

lemma find_SomeD: "List.find P xs = Some x \<Longrightarrow> x \<in> set xs \<and> P x"
  by (induction xs) (auto split: if_splits)

lemma scan_rest:
  "0 \<notin> set fs \<Longrightarrow> scan_functions cfg test b d fs = List.find (\<lambda>f. present cfg b d f \<and> passes cfg test b d f) fs"
  by (induction fs) (auto simp: present_def passes_def Let_def)

lemma upt_8: "map of_nat [0..<8] = (0 :: u8) # map of_nat [1..<8]"
  by (simp add: upt_conv_Cons [of 0 8])

lemma word_upt_set: "n < 256 \<Longrightarrow> of_nat ` {..<n} = {x :: u8. x < of_nat n}"
proof (intro set_eqI iffI)
  fix x :: u8 assume n: "n < 256" and "x \<in> {x. x < of_nat n}"
  then have "unat x < n" by (simp add: word_less_nat_alt unat_of_nat_small)
  then have "x = of_nat (unat x) \<and> unat x \<in> {..<n}" by simp
  then show "x \<in> of_nat ` {..<n}" by blast
qed (auto simp: word_less_nat_alt unat_of_nat_small)

lemma scan_functions_spec:
  "scan_functions cfg test b d (map of_nat [0..<8]) = Some f \<Longrightarrow>
     f < 8 \<and> present cfg b d 0 \<and> present cfg b d f \<and> (f = 0 \<or> multifunction cfg b d) \<and> passes cfg test b d f"
  "scan_functions cfg test b d (map of_nat [0..<8]) = None \<Longrightarrow> f < 8 \<Longrightarrow> present cfg b d 0 \<Longrightarrow>
     present cfg b d f \<Longrightarrow> (f = 0 \<or> multifunction cfg b d) \<Longrightarrow> \<not> passes cfg test b d f"
proof -
  let ?rest = "map of_nat [1..<8] :: u8 list"
  have set: "set ?rest = {f. f < 8 \<and> f \<noteq> 0}"
  proof -
    have "set (map of_nat [0..<8]) = {f :: u8. f < 8}" using word_upt_set [of 8] by (simp add: atLeast0LessThan)
    moreover have "0 \<notin> set ?rest" by (auto simp: word_unat_eq_iff unat_of_nat_small)
    ultimately show ?thesis unfolding upt_8 by auto
  qed
  then have scan: "scan_functions cfg test b d (map of_nat [0..<8]) =
      (if \<not> present cfg b d 0 then None else if passes cfg test b d 0 then Some 0
       else if \<not> multifunction cfg b d then None
       else List.find (\<lambda>f. present cfg b d f \<and> passes cfg test b d f) ?rest)"
    unfolding upt_8 by (simp add: scan_rest Let_def present_def passes_def multifunction_def)
  show "scan_functions cfg test b d (map of_nat [0..<8]) = Some f \<Longrightarrow>
     f < 8 \<and> present cfg b d 0 \<and> present cfg b d f \<and> (f = 0 \<or> multifunction cfg b d) \<and> passes cfg test b d f"
    using set unfolding scan by (auto split: if_splits dest!: find_SomeD)
  show "scan_functions cfg test b d (map of_nat [0..<8]) = None \<Longrightarrow> f < 8 \<Longrightarrow> present cfg b d 0 \<Longrightarrow>
     present cfg b d f \<Longrightarrow> (f = 0 \<or> multifunction cfg b d) \<Longrightarrow> \<not> passes cfg test b d f"
    unfolding scan using set by (auto simp: find_None_iff split: if_splits)
qed

lemma scan_devices_spec:
  "scan_devices cfg test bds = Some (b, d, f) \<Longrightarrow>
     (b, d) \<in> set bds \<and> scan_functions cfg test b d (map of_nat [0..<8]) = Some f"
  "scan_devices cfg test bds = None \<Longrightarrow> (b, d) \<in> set bds \<Longrightarrow> scan_functions cfg test b d (map of_nat [0..<8]) = None"
  by (induction bds) (auto split: option.splits)

lemma pci_scan_spec:
  "pci_scan cfg test = Some (b, d, f) \<Longrightarrow> visible cfg b d f \<and> passes cfg test b d f"
  "pci_scan cfg test = None \<Longrightarrow> visible cfg b d f \<Longrightarrow> \<not> passes cfg test b d f"
proof -
  have set: "set (List.product (map of_nat [0..<2]) (map of_nat [0..<32])) = {(b :: u8, d :: u8). b < 2 \<and> d < 32}"
  proof -
    have "of_nat ` {..<2} = {b :: u8. b < 2}" "of_nat ` {..<32} = {d :: u8. d < 32}"
      using word_upt_set [of 2] word_upt_set [of 32] by simp_all
    then show ?thesis unfolding set_product set_map set_upt atLeast0LessThan by auto
  qed
  show "pci_scan cfg test = Some (b, d, f) \<Longrightarrow> visible cfg b d f \<and> passes cfg test b d f"
    using scan_devices_spec(1) [of cfg test _ b d f] scan_functions_spec(1) [of cfg test b d f] set
    unfolding pci_scan_def visible_def by blast
  assume none: "pci_scan cfg test = None" and vis: "visible cfg b d f"
  have "(b, d) \<in> set (List.product (map of_nat [0..<2]) (map of_nat [0..<32]))"
    unfolding set using vis by (simp add: visible_def)
  then have "scan_functions cfg test b d (map of_nat [0..<8]) = None"
    using scan_devices_spec(2) none unfolding pci_scan_def by blast
  then show "\<not> passes cfg test b d f"
    using scan_functions_spec(2) vis unfolding visible_def by blast
qed

subsection \<open>Properties\<close>

text \<open>
  C32: A search by class succeeds exactly when some function that the bus scan can see has that class,
  and what it stores is that function's own address, ids and class; so no device the scan can see is missed and
  no other device is reported.
\<close>

theorem pci_find_class_correct:
  "case pci_find_class cfg c sc p (Some dev0) of
     (True, Some dev) \<Rightarrow> visible cfg (pd_bus dev) (pd_device dev) (pd_function dev) \<and>
        dev = fill_device cfg (pd_bus dev, pd_device dev, pd_function dev) \<and>
        pd_base_class dev = c \<and> pd_subclass dev = sc \<and> pd_prog_if dev = p
   | (False, out) \<Rightarrow> out = Some dev0 \<and>
        (\<forall>b d f. visible cfg b d f \<longrightarrow> \<not> passes cfg (class_test c sc p) b d f)
   | _ \<Rightarrow> False"
proof (cases "pci_scan cfg (class_test c sc p)")
  case None
  then show ?thesis using pci_scan_spec(2) by (auto simp: pci_find_class_def)
next
  case (Some a)
  then obtain b d f where a: "a = (b, d, f)" by (cases a) auto
  have "visible cfg b d f" "passes cfg (class_test c sc p) b d f"
    using pci_scan_spec(1) Some a by auto
  then show ?thesis
    by (simp add: pci_find_class_def Some a) (simp add: fill_device_def Let_def passes_def class_test_def)
qed

text \<open>
  Configuration addresses decode to the bus, device, function and dword they were built from,
  so two different functions never share an address.
\<close>

theorem pci_build_address_injective:
  assumes "d < 32" and "f < 8" and "d' < 32" and "f' < 8" and "off AND 0xFC = off" and "off' AND 0xFC = off'"
  shows "pci_build_address b d f off = pci_build_address b' d' f' off' \<longleftrightarrow> b = b' \<and> d = d' \<and> f = f' \<and> off = off'"
proof -
  have inj: "x = y" if "(ucast x :: u32) = ucast y" for x y :: u8
    using arg_cong [OF that, of unat] unsigned_less [of x, where 'a = nat] unsigned_less [of y, where 'a = nat]
    by (simp add: word_unat_eq_iff unsigned_ucast_eq take_bit_nat_eq_self)
  show ?thesis
    using pci_address_fields [OF assms(1,2), of b off] pci_address_fields [OF assms(3,4), of b' off'] assms(5,6) inj
    by metis
qed

theorem pci_build_address_injective_witness: "pci_build_address 0 1 2 8 \<noteq> pci_build_address 1 1 2 8"
  using pci_build_address_injective [of 1 2 1 2 8 8 0 1] by simp

theorem pci_find_class_correct_witness:
  "case pci_find_class (\<lambda>_. 0x04030000) 4 3 0 (Some (fill_device (\<lambda>_. 0) (0, 0, 0))) of
     (True, Some dev) \<Rightarrow> pd_base_class dev = 4 | _ \<Rightarrow> False"
proof -
  have "visible (\<lambda>_. 0x04030000) 0 0 0" "passes (\<lambda>_. 0x04030000) (class_test 4 3 0) 0 0 0"
    by (simp_all add: visible_def present_def passes_def class_test_def pci_read_config_dword_def)
  then show ?thesis
    using pci_find_class_correct [of "\<lambda>_. 0x04030000" 4 3 0 "fill_device (\<lambda>_. 0) (0, 0, 0)"]
    by (auto split: prod.splits bool.splits option.splits)
qed

end
