(* ===== verification/Serial.thy ===== *)
theory Serial
  imports Pci
begin

text \<open>
  The serial port of \<^verbatim>\<open>serial.c\<close>, to which the kernel writes its log. The values that the code reads from the ports, one per read and in
  order, are part of the state; the writes are a log. A wait for which no value of the line status lets go has not returned: \<open>None\<close>.

  The theorems show that characters leave the port in the order in which they were given, one for each time the port is ready, and that
  \<^verbatim>\<open>serial_getchar\<close> returns the first character that arrives.
\<close>

subsection \<open>Operations\<close>

abbreviation COM1_PORT :: u16 where "COM1_PORT \<equiv> 0x3F8"

type_synonym serial_io = "u8 list \<times> port_write list"

definition serial_initialize :: "serial_io \<Rightarrow> serial_io" where
  "serial_initialize = (\<lambda>(reads, log).
     (reads, log @ [Outb (COM1_PORT + 1) 0x00, Outb (COM1_PORT + 3) 0x80, Outb COM1_PORT 0x01, Outb (COM1_PORT + 1) 0x00,
                    Outb (COM1_PORT + 3) 0x03, Outb (COM1_PORT + 2) 0xC7, Outb (COM1_PORT + 4) 0x0B]))"

definition serial_is_transmit_empty :: "u8 \<Rightarrow> bool" where
  "serial_is_transmit_empty v \<longleftrightarrow> v AND 0x20 \<noteq> 0"

definition serial_is_receive_full :: "u8 \<Rightarrow> bool" where
  "serial_is_receive_full v \<longleftrightarrow> v AND 1 \<noteq> 0"

fun wait_until :: "(u8 \<Rightarrow> bool) \<Rightarrow> u8 list \<Rightarrow> u8 list option" where
  "wait_until P [] = None"
| "wait_until P (v # vs) = (if P v then Some vs else wait_until P vs)"

definition serial_putchar :: "u8 \<Rightarrow> serial_io \<Rightarrow> serial_io option" where
  "serial_putchar c = (\<lambda>(reads, log).
     case wait_until serial_is_transmit_empty reads of
       None \<Rightarrow> None | Some reads \<Rightarrow> Some (reads, log @ [Outb COM1_PORT c]))"

definition serial_getchar :: "serial_io \<Rightarrow> (u8 \<times> serial_io) option" where
  "serial_getchar = (\<lambda>(reads, log).
     case wait_until serial_is_receive_full reads of
       None \<Rightarrow> None
     | Some reads \<Rightarrow> (case reads of [] \<Rightarrow> None | c # reads \<Rightarrow> Some (c, reads, log)))"

subsection \<open>Properties\<close>

text \<open>How often the port is ready to take a character.\<close>

definition ready_count :: "u8 list \<Rightarrow> nat" where
  "ready_count reads = length (filter serial_is_transmit_empty reads)"

lemma wait_until_ready:
  "wait_until serial_is_transmit_empty reads = Some vs \<Longrightarrow> ready_count reads = Suc (ready_count vs)"
  "wait_until serial_is_transmit_empty reads = None \<longleftrightarrow> ready_count reads = 0"
  by (induction reads) (auto simp: ready_count_def split: if_splits)

lemma serial_puts:
  "(ofold serial_putchar cs (reads, log) = None \<longleftrightarrow> ready_count reads < length cs) \<and>
   (\<forall>reads' log'. ofold serial_putchar cs (reads, log) = Some (reads', log') \<longrightarrow>
      log' = log @ map (Outb COM1_PORT) cs \<and> ready_count reads = ready_count reads' + length cs)"
proof (induction cs arbitrary: reads log)
  case (Cons c cs)
  show ?case
  proof (cases "wait_until serial_is_transmit_empty reads")
    case None
    then show ?thesis using wait_until_ready(2) [of reads] by (simp add: serial_putchar_def)
  next
    case (Some vs)
    then show ?thesis using Cons.IH [of vs "log @ [Outb COM1_PORT c]"] wait_until_ready(1) [OF Some] by (simp add: serial_putchar_def)
  qed
qed simp

text \<open>The character that \<^verbatim>\<open>serial_getchar\<close> returns is the one read right after the first status that announces it.\<close>

lemma serial_getchar_first:
  "(\<And>v. v \<in> set vs \<Longrightarrow> \<not> serial_is_receive_full v) \<Longrightarrow> serial_is_receive_full v \<Longrightarrow>
   serial_getchar (vs @ v # c # rest, log) = Some (c, rest, log)"
  by (induction vs) (auto simp: serial_getchar_def)

text \<open>
  A text given to the port leaves it completely and in order exactly when the port becomes ready as often as the text has characters; otherwise the
  kernel waits forever.
\<close>

theorem serial_text_sent:
  "(ready_count reads < length cs \<longrightarrow> ofold serial_putchar cs (reads, log) = None) \<and>
   (length cs \<le> ready_count reads \<longrightarrow>
      (\<exists>reads'. ofold serial_putchar cs (reads, log) = Some (reads', log @ map (Outb COM1_PORT) cs) \<and>
         ready_count reads = ready_count reads' + length cs))"
proof (intro conjI impI)
  assume "length cs \<le> ready_count reads"
  then obtain reads' log' where "ofold serial_putchar cs (reads, log) = Some (reads', log')"
    using serial_puts [of cs reads log] by (cases "ofold serial_putchar cs (reads, log)") auto
  then show "\<exists>reads'. ofold serial_putchar cs (reads, log) = Some (reads', log @ map (Outb COM1_PORT) cs) \<and>
      ready_count reads = ready_count reads' + length cs"
    using serial_puts [of cs reads log] by auto
qed (use serial_puts [of cs reads log] in blast)

theorem serial_text_sent_witness:
  "\<exists>reads'. ofold serial_putchar [0x4F, 0x4B] ([0, 0x20, 0x60, 0], []) = Some (reads', [Outb 0x3F8 0x4F, Outb 0x3F8 0x4B])"
  using serial_text_sent [of "[0, 0x20, 0x60, 0]" "[0x4F, 0x4B]" "[]"] by (auto simp: ready_count_def serial_is_transmit_empty_def)

end
