(* ===== verification/Kprintf.thy ===== *)
theory Kprintf
  imports Serial
begin

text \<open>
  \<^verbatim>\<open>kprintf\<close> and \<^verbatim>\<open>kstrlen\<close> of \<^verbatim>\<open>kernel.c\<close> and the log macros of \<^verbatim>\<open>kernel.h\<close>, on the serial port. A string in memory is read byte by byte: an address that is
  not mapped, or memory without a NUL, is \<open>None\<close>.

  The theorem shows what \<^verbatim>\<open>kprintf\<close> prints, and what it does not.
\<close>

subsection \<open>Formatted output\<close>

text \<open>An argument is a number (or a pointer) or a string; an argument that is missing or of the wrong kind is outside of what C defines.\<close>

datatype karg = KNum u64 | KStr "u8 list"

definition kstrlen :: "u8 list \<Rightarrow> nat" where
  "kstrlen str = length str"

fun next_num :: "karg list \<Rightarrow> karg list option" where
  "next_num (KNum v # args) = Some args"
| "next_num args = None"

text \<open>
  The loop over the format, without its NUL: the characters it sends to the serial port and the count it returns. A format that ends with a percent sign
  makes the loop step over the NUL and go on behind the string: \<open>None\<close>.
\<close>

fun kprintf_loop :: "string \<Rightarrow> karg list \<Rightarrow> u8 list \<times> int \<Rightarrow> (u8 list \<times> int) option" where
  "kprintf_loop [] args (out, written) = Some (out, written)"
| "kprintf_loop (c # fmt) args (out, written) =
     (if c = CHR ''%''
      then case fmt of
             [] \<Rightarrow> None
           | f # fmt \<Rightarrow>
               (if f = CHR ''d'' then Option.bind (next_num args) (\<lambda>args. kprintf_loop fmt args (out, written + 10))
                else if f = CHR ''x'' \<or> f = CHR ''X'' then Option.bind (next_num args) (\<lambda>args. kprintf_loop fmt args (out, written + 16))
                else if f = CHR ''s''
                then case args of KStr str # args \<Rightarrow> kprintf_loop fmt args (out, written + int (kstrlen str)) | _ \<Rightarrow> None
                else if f = CHR ''p'' then Option.bind (next_num args) (\<lambda>args. kprintf_loop fmt args (out, written + 18))
                else if f = CHR ''u'' then Option.bind (next_num args) (\<lambda>args. kprintf_loop fmt args (out, written + 20))
                else if f = CHR ''%'' then kprintf_loop fmt args (out, written + 1)
                else kprintf_loop fmt args (out, written))
      else kprintf_loop fmt args (out @ [of_char c], written + 1))"

definition kprintf :: "string \<Rightarrow> karg list \<Rightarrow> serial_io \<Rightarrow> (int \<times> serial_io) option" where
  "kprintf fmt args io =
     Option.bind (kprintf_loop fmt args ([], 0)) (\<lambda>(out, written).
       map_option (\<lambda>io. (written, io)) (ofold serial_putchar out io))"

definition KLOG :: "string \<Rightarrow> karg list \<Rightarrow> serial_io \<Rightarrow> serial_io option" where
  "KLOG fmt args io = map_option snd (kprintf (''[KERNEL] '' @ fmt @ [CHR 0x0A]) args io)"

definition KERROR :: "string \<Rightarrow> karg list \<Rightarrow> serial_io \<Rightarrow> serial_io option" where
  "KERROR fmt args io = map_option snd (kprintf (''[ERROR] '' @ fmt @ [CHR 0x0A]) args io)"

text \<open>The bytes that \<^verbatim>\<open>kstrlen\<close> passes on its way to the NUL.\<close>

type_synonym kmem = "u64 \<Rightarrow> u8 option"

partial_function (option) cstring_at :: "kmem \<Rightarrow> u64 \<Rightarrow> u8 list option" where
  "cstring_at mem p =
     Option.bind (mem p) (\<lambda>c. if c = 0 then Some [] else Option.bind (cstring_at mem (p + 1)) (\<lambda>cs. Some (c # cs)))"

subsection \<open>Strings in memory\<close>

definition string_at :: "kmem \<Rightarrow> u64 \<Rightarrow> u8 list \<Rightarrow> bool" where
  "string_at mem p str \<longleftrightarrow> (\<forall>i < length str. mem (p + of_nat i) = Some (str ! i)) \<and> 0 \<notin> set str \<and> mem (p + of_nat (length str)) = Some 0"

lemma string_at_Nil: "string_at mem p [] \<longleftrightarrow> mem p = Some 0"
  by (simp add: string_at_def)

lemma string_at_Cons: "string_at mem p (c # cs) \<longleftrightarrow> mem p = Some c \<and> c \<noteq> 0 \<and> string_at mem (p + 1) cs"
  by (auto simp: string_at_def All_less_Suc2 add.assoc)

lemma cstring_at_string: "cstring_at mem p = Some str \<longleftrightarrow> string_at mem p str"
proof
  show "string_at mem p str" if "cstring_at mem p = Some str"
  proof (rule cstring_at.raw_induct [where P = string_at, OF _ that])
    fix loop mem p str
    assume IH: "\<And>mem p str. loop mem p = Some str \<Longrightarrow> string_at mem p str"
      and run: "Option.bind (mem p) (\<lambda>c. if c = 0 then Some [] else Option.bind (loop mem (p + 1)) (\<lambda>cs. Some (c # cs))) = Some str"
    show "string_at mem p str"
      using run IH by (auto simp: bind_eq_Some_conv string_at_Nil string_at_Cons split: if_splits)
  qed
  show "cstring_at mem p = Some str" if "string_at mem p str"
    using that
  proof (induction str arbitrary: p)
    case Nil
    then show ?case by (subst cstring_at.simps) (simp add: string_at_Nil)
  next
    case (Cons c cs)
    then show ?case by (subst cstring_at.simps) (simp add: string_at_Cons)
  qed
qed

subsection \<open>What is printed\<close>

text \<open>The characters of a format that are not part of a conversion, and whether the format and its arguments fit.\<close>

fun literals :: "string \<Rightarrow> u8 list" where
  "literals [] = []"
| "literals [c] = (if c = CHR ''%'' then [] else [of_char c])"
| "literals (c # d # fmt) = (if c = CHR ''%'' then literals fmt else of_char c # literals (d # fmt))"

fun format_ok :: "string \<Rightarrow> karg list \<Rightarrow> bool" where
  "format_ok [] args = True"
| "format_ok [c] args = (c \<noteq> CHR ''%'')"
| "format_ok (c # d # fmt) args =
     (if c \<noteq> CHR ''%'' then format_ok (d # fmt) args
      else if d \<in> set ''dxXpu'' then (case args of KNum v # args \<Rightarrow> format_ok fmt args | _ \<Rightarrow> False)
      else if d = CHR ''s'' then (case args of KStr v # args \<Rightarrow> format_ok fmt args | _ \<Rightarrow> False)
      else format_ok fmt args)"

lemma kprintf_loop_cases:
  "(if format_ok fmt args then \<exists>w'. kprintf_loop fmt args (out, w) = Some (out @ literals fmt, w')
    else kprintf_loop fmt args (out, w) = None)"
proof (induction fmt args arbitrary: out w rule: format_ok.induct)
  case (3 c d fmt args)
  show ?case
  proof (cases "c = CHR ''%''")
    case False
    then show ?thesis using 3(1) [OF False, of "out @ [of_char c]" "w + 1"] by (auto split: if_splits)
  next
    case True
    consider (num) "d \<in> set ''dxXpu''" | (str) "d = CHR ''s''" | (other) "d \<notin> set ''dxXpu''" "d \<noteq> CHR ''s''" by blast
    then show ?thesis
    proof cases
      case num
      show ?thesis
      proof (cases args)
        case (Cons a as)
        show ?thesis
        proof (cases a)
          case (KNum v)
          note IH = 3(2) [OF _ _ Cons KNum, simplified True, OF _ num]
          show ?thesis using IH num by (auto simp: True Cons KNum split: if_splits)
        qed (use num in \<open>auto simp: True Cons\<close>)
      qed (use num in \<open>auto simp: True\<close>)
    next
      case str
      show ?thesis
      proof (cases args)
        case (Cons a as)
        show ?thesis
        proof (cases a)
          case (KStr v)
          note IH = 3(3) [OF _ _ str Cons KStr, simplified True]
          show ?thesis using IH str by (auto simp: True Cons KStr split: if_splits)
        qed (use str in \<open>auto simp: True Cons\<close>)
      qed (use str in \<open>auto simp: True\<close>)
    next
      case other
      then show ?thesis using 3(4) [of out w] 3(4) [of out "w + 1"] by (auto simp: True split: if_splits)
    qed
  qed
qed auto

lemma kprintf_out:
  assumes "format_ok fmt args" "length (literals fmt) \<le> ready_count reads"
  shows "\<exists>written reads'. kprintf fmt args (reads, log) = Some (written, reads', log @ map (Outb COM1_PORT) (literals fmt))"
proof -
  obtain w where "kprintf_loop fmt args ([], 0) = Some (literals fmt, w)"
    using kprintf_loop_cases [of fmt args "[]" 0] assms(1) by auto
  moreover obtain io where io: "ofold serial_putchar (literals fmt) (reads, log) = Some io"
    using serial_puts [of "literals fmt" reads log] assms(2) by (cases "ofold serial_putchar (literals fmt) (reads, log)") auto
  moreover have "snd io = log @ map (Outb COM1_PORT) (literals fmt)"
    using serial_puts [of "literals fmt" reads log] io by (cases io) auto
  ultimately show ?thesis by (cases io) (simp add: kprintf_def)
qed

text \<open>
  \<^verbatim>\<open>kprintf\<close> prints the characters of its format that are not part of a conversion, and nothing of its arguments: two calls whose arguments fit the format
  send the same bytes. When the port takes them all it returns.
\<close>

theorem kprintf_prints_literals:
  assumes "format_ok fmt args" "length (literals fmt) \<le> ready_count reads"
  shows "\<exists>written reads'. kprintf fmt args (reads, log) = Some (written, reads', log @ map (Outb COM1_PORT) (literals fmt))"
  by (rule kprintf_out [OF assms])

theorem kprintf_prints_literals_witness:
  "\<exists>written reads'. kprintf ''PID %u!'' [KNum 7] (replicate 9 0x20, []) = Some (written, reads', map (Outb 0x3F8) [0x50, 0x49, 0x44, 0x20, 0x21])"
  using kprintf_prints_literals [of "''PID %u!''" "[KNum 7]" "replicate 9 0x20" "[]"]
  by (simp add: ready_count_def serial_is_transmit_empty_def)

end
