(* ===== verification/Syscalls.thy ===== *)
theory Syscalls
  imports Scheduler Kprintf "HOL-Library.Monad_Syntax"
begin

text \<open>
  System calls: the dispatcher and the set-up of \<^verbatim>\<open>syscalls.c\<close> and the entry point of \<^verbatim>\<open>syscall_entry.asm\<close>. The
  state is that of the scheduler and of the serial port, to which the calls write; the memory that user pointers refer to is an argument. The log messages of the scheduler itself are
  left out, as in its theory. The model specific registers are a function from register number to value.
\<close>

subsection \<open>Dispatcher\<close>

abbreviation SYS_GET_PID :: u64 where "SYS_GET_PID \<equiv> 5"
abbreviation SYS_SND_BEEP :: u64 where "SYS_SND_BEEP \<equiv> 3"
abbreviation SYS_KPRINTF :: u64 where "SYS_KPRINTF \<equiv> 1"
abbreviation SYS_OPEN_FILE :: u64 where "SYS_OPEN_FILE \<equiv> 2"
abbreviation SYS_EXIT :: u64 where "SYS_EXIT \<equiv> 60"
abbreviation KERNEL_SPACE_START :: u64 where "KERNEL_SPACE_START \<equiv> 0xFFFFFFFF80000000"


text \<open>\<open>None\<close>: the call does not return, because a user pointer is not that of a string or the serial port does not become ready.\<close>

definition syscall_dispatcher ::
    "kmem \<Rightarrow> u64 \<Rightarrow> u64 \<Rightarrow> u64 \<Rightarrow> u64 \<Rightarrow> sched_t \<times> serial_io \<Rightarrow> (u64 \<times> sched_t \<times> serial_io) option" where
  "syscall_dispatcher umem syscall_id arg1 arg2 arg3 = (\<lambda>(s, io).
     if arg1 \<ge> KERNEL_SPACE_START \<or> arg2 \<ge> KERNEL_SPACE_START \<or> arg3 \<ge> KERNEL_SPACE_START then do {
       io \<leftarrow> KERROR ''Syscall: Illegal privilege violation (address in kernel space)'' [] io;
       Some (- 1, s, io)
     }
     else if syscall_id = SYS_GET_PID then
       (case get_current_task s of
          Some i \<Rightarrow> Some (ucast (tcb_pid (task_table s ! i)), s, io)
        | None \<Rightarrow> Some (0, s, io))
     else if syscall_id = SYS_EXIT then
       (case get_current_task s of
          Some i \<Rightarrow> do {
            io \<leftarrow> KLOG ''Task PID %u exiting with code %u'' [KNum (ucast (tcb_pid (task_table s ! i))), KNum (ucast (ucast arg1 :: u32))] io;
            s' \<leftarrow> kill_task (tcb_pid (task_table s ! i)) s;
            Some (0, s', io)
          }
        | None \<Rightarrow> Some (0, s, io))
     else if syscall_id = SYS_SND_BEEP then do {
       io \<leftarrow> KLOG ''Beep requested: %u Hz for %u ms'' [KNum (ucast (ucast arg1 :: u16)), KNum (ucast (ucast arg2 :: u16))] io;
       Some (0, s, io)
     }
     else if syscall_id = SYS_KPRINTF then
       (if arg1 = 0 then Some (0, s, io)
        else do {
          fmt \<leftarrow> cstring_at umem arg1;
          (_, io) \<leftarrow> kprintf (''[User] %s'' @ [CHR 0x0A]) [KStr fmt] io;
          Some (0, s, io)
        })
     else if syscall_id = SYS_OPEN_FILE then do {
       filename \<leftarrow> cstring_at umem arg1;
       io \<leftarrow> KLOG ''Open file syscall: '%s' (flags 0x%x)'' [KStr filename, KNum (ucast (ucast arg2 :: u32))] io;
       Some (0, s, io)
     }
     else do {
       io \<leftarrow> KERROR ''Unknown syscall ID: %lu'' [KNum syscall_id] io;
       Some (- 2, s, io)
     })"

text \<open>
  The registers at a \<^verbatim>\<open>syscall\<close> instruction. \<^verbatim>\<open>syscall_entry\<close> switches stacks and calls the dispatcher, which takes its
  four arguments from \<^verbatim>\<open>rdi\<close>, \<^verbatim>\<open>rsi\<close>, \<^verbatim>\<open>rdx\<close> and \<^verbatim>\<open>rcx\<close>; the processor has put the return address into \<^verbatim>\<open>rcx\<close>.
\<close>

record syscall_regs =
  reg_rax :: u64
  reg_rdi :: u64
  reg_rsi :: u64
  reg_rdx :: u64
  user_rip :: u64

definition syscall_entry :: "kmem \<Rightarrow> syscall_regs \<Rightarrow> sched_t \<times> serial_io \<Rightarrow> (u64 \<times> sched_t \<times> serial_io) option" where
  "syscall_entry umem regs = syscall_dispatcher umem (reg_rdi regs) (reg_rsi regs) (reg_rdx regs) (user_rip regs)"

subsection \<open>Model specific registers\<close>

type_synonym msrs = "u32 \<Rightarrow> u64"

definition rdmsr :: "u32 \<Rightarrow> msrs \<Rightarrow> u64" where
  "rdmsr msr m =
     (let low = ucast (m msr) :: u32; high = ucast (drop_bit 32 (m msr)) :: u32
      in push_bit 32 (ucast high) OR ucast low)"

definition wrmsr :: "u32 \<Rightarrow> u64 \<Rightarrow> msrs \<Rightarrow> msrs" where
  "wrmsr msr v m =
     (let low = ucast v :: u32; high = ucast (drop_bit 32 v) :: u32
      in m(msr := push_bit 32 (ucast high) OR ucast low))"

definition enable_syscall_engine :: "u64 \<Rightarrow> msrs \<Rightarrow> msrs" where
  "enable_syscall_engine entry m =
     (let efer = rdmsr 0xC0000080 m OR 1;
          m = wrmsr 0xC0000080 efer m;
          star = 0 OR push_bit 32 0x08 OR push_bit 48 0x18;
          m = wrmsr 0xC0000081 star m;
          m = wrmsr 0xC0000082 entry m
      in wrmsr 0xC0000084 0x200 m)"

lemma split_join_u64: "push_bit 32 (ucast (ucast (drop_bit 32 v) :: u32)) OR ucast (ucast v :: u32) = (v :: u64)"
proof (rule bit_word_eqI)
  fix n assume "n < LENGTH(64)"
  then show "bit (push_bit 32 (ucast (ucast (drop_bit 32 v) :: u32)) OR ucast (ucast v :: u32) :: u64) n = bit v n"
    by (cases "n < 32") (auto simp: bit_or_iff bit_push_bit_iff bit_drop_bit_eq bit_ucast_iff)
qed

lemma rdmsr_eq [simp]: "rdmsr r m = m r"
  by (simp add: rdmsr_def Let_def split_join_u64)

lemma wrmsr_eq [simp]: "wrmsr r v m = m(r := v)"
  by (simp add: wrmsr_def Let_def split_join_u64)

text \<open>
  Setting up the system call instructions turns on bit 0 of EFER and keeps its other bits, and stores the entry
  point, the segment selectors 0x08 and 0x18 in their fields of STAR, and the mask that clears the interrupt flag; no
  other register changes.
\<close>

theorem enable_syscall_engine_registers:
  "bit (enable_syscall_engine entry m 0xC0000080) 0 \<and>
   (\<forall>n. n \<noteq> 0 \<longrightarrow> bit (enable_syscall_engine entry m 0xC0000080) n = bit (m 0xC0000080) n) \<and>
   drop_bit 32 (enable_syscall_engine entry m 0xC0000081) AND 0xFFFF = 0x08 \<and>
   drop_bit 48 (enable_syscall_engine entry m 0xC0000081) = 0x18 \<and>
   enable_syscall_engine entry m 0xC0000082 = entry \<and> enable_syscall_engine entry m 0xC0000084 = 0x200 \<and>
   (\<forall>r. r \<notin> {0xC0000080, 0xC0000081, 0xC0000082, 0xC0000084} \<longrightarrow> enable_syscall_engine entry m r = m r)"
  by (auto simp: enable_syscall_engine_def Let_def bit_or_iff bit_1_iff)

theorem enable_syscall_engine_registers_witness:
  "enable_syscall_engine 0x9000 (\<lambda>_. 0x500) 0xC0000082 = 0x9000 \<and> enable_syscall_engine 0x9000 (\<lambda>_. 0x500) 0x10 = 0x500"
  using enable_syscall_engine_registers [of "0x9000" "\<lambda>_. 0x500"] by simp

subsection \<open>Properties of the dispatcher\<close>


lemma error_sent:
  assumes "100 \<le> ready_count reads" "format_ok (''[ERROR] '' @ fmt @ [CHR 0x0A]) args" "length (literals (''[ERROR] '' @ fmt @ [CHR 0x0A])) \<le> 100"
  shows "\<exists>reads'. KERROR fmt args (reads, log) = Some (reads', log @ map (Outb COM1_PORT) (literals (''[ERROR] '' @ fmt @ [CHR 0x0A])))"
  using kprintf_out [OF assms(2), of reads log] assms(1,3) by (auto simp: KERROR_def)










text \<open>
  The entry point does not pass the system call number on. It is documented to arrive in \<^verbatim>\<open>rax\<close>, but the dispatcher takes
  it from \<^verbatim>\<open>rdi\<close>, where the caller put the first argument: the result never depends on \<^verbatim>\<open>rax\<close>, and a request for the
  process id with first argument 0 is answered with -2.
\<close>

theorem syscall_entry_ignores_number:
  assumes "100 \<le> ready_count reads"
  shows "syscall_entry umem (regs\<lparr>reg_rax := a\<rparr>) st = syscall_entry umem (regs\<lparr>reg_rax := b\<rparr>) st \<and>
   (\<exists>io. syscall_entry umem \<lparr>reg_rax = SYS_GET_PID, reg_rdi = 0, reg_rsi = 0, reg_rdx = 0, user_rip = 0x400000\<rparr> (s, reads, log) = Some (- 2, s, io))"
  using error_sent [OF assms, of "''Unknown syscall ID: %lu''" "[KNum 0]" log] by (auto simp: syscall_entry_def syscall_dispatcher_def)

end
