(* ===== verification/Interrupts.thy ===== *)
theory Interrupts
  imports Pci
begin

text \<open>
  Interrupt handling of \<^verbatim>\<open>interrupts.c\<close>: the interrupt descriptor table, the handler table, the interrupt
  controllers and the timer. The addresses of the assembly entry points are a parameter. A handler is
  the address of a function, 0 for \<^verbatim>\<open>NULL\<close>; dispatching returns the handler called and the port writes made.
\<close>

subsection \<open>State and operations\<close>

record idt_entry_t =
  offset_low :: u16
  selector :: u16
  ist :: u8
  type_attr :: u8
  offset_mid :: u16
  offset_high :: u32
  zero_field :: u32

record idt_ptr_t =
  idt_limit :: u16
  idt_base :: u64

abbreviation IDT_GATES :: nat where "IDT_GATES \<equiv> 256"

record interrupts_t =
  idt :: "idt_entry_t list"
  idt_ptr :: idt_ptr_t
  interrupt_handlers :: "u64 list"

definition interrupts_static :: interrupts_t where
  "interrupts_static = \<lparr>idt = replicate IDT_GATES \<lparr>offset_low = 0, selector = 0, ist = 0, type_attr = 0, offset_mid = 0,
     offset_high = 0, zero_field = 0\<rparr>, idt_ptr = \<lparr>idt_limit = 0, idt_base = 0\<rparr>, interrupt_handlers = replicate IDT_GATES 0\<rparr>"

definition set_idt_gate :: "nat \<Rightarrow> u64 \<Rightarrow> interrupts_t \<Rightarrow> interrupts_t" where
  "set_idt_gate vector handler s = s\<lparr>idt := (idt s)[vector :=
     \<lparr>offset_low = ucast (handler AND 0xFFFF), selector = 0x08, ist = 0, type_attr = 0x8E,
      offset_mid = ucast (drop_bit 16 handler AND 0xFFFF), offset_high = ucast (drop_bit 32 handler AND 0xFFFFFFFF),
      zero_field = 0\<rparr>]\<rparr>"

definition pic_remap :: "port_write list" where
  "pic_remap = [Outb 0x20 0x11, Outb 0xA0 0x11, Outb 0x21 0x20, Outb 0xA1 0x28, Outb 0x21 0x04, Outb 0xA1 0x02,
     Outb 0x21 0x01, Outb 0xA1 0x01, Outb 0x21 0x00, Outb 0xA1 0x00]"

definition pic_send_eoi :: "nat \<Rightarrow> port_write list" where
  "pic_send_eoi irq = (if irq \<ge> 8 then [Outb 0xA0 0x20] else []) @ [Outb 0x20 0x20]"

text \<open>\<open>stub v\<close> is the address of \<^verbatim>\<open>isr0\<close> to \<^verbatim>\<open>isr20\<close> and \<^verbatim>\<open>irq32\<close> to \<^verbatim>\<open>irq47\<close>; \<open>idt_addr\<close> that of the table.\<close>

definition idt_initialize :: "(nat \<Rightarrow> u64) \<Rightarrow> u64 \<Rightarrow> interrupts_t \<Rightarrow> interrupts_t \<times> port_write list" where
  "idt_initialize stub idt_addr s =
     (let s1 = fold (\<lambda>i s. (set_idt_gate i 0 s)\<lparr>interrupt_handlers := (interrupt_handlers s)[i := 0]\<rparr>) [0..<IDT_GATES] s;
          s2 = fold (\<lambda>v. set_idt_gate v (stub v)) ([0..<21] @ [32..<48]) s1
      in (s2\<lparr>idt_ptr := \<lparr>idt_limit = of_nat (16 * IDT_GATES - 1), idt_base = idt_addr\<rparr>\<rparr>, pic_remap))"

definition set_interrupt_handler :: "int \<Rightarrow> u64 \<Rightarrow> interrupts_t \<Rightarrow> interrupts_t" where
  "set_interrupt_handler irq handler s =
     (if irq < 0 \<or> irq \<ge> int IDT_GATES then s
      else s\<lparr>interrupt_handlers := (interrupt_handlers s)[nat irq := handler]\<rparr>)"

text \<open>\<open>None\<close>: the division by zero traps.\<close>

definition pit_initialize :: "u32 \<Rightarrow> port_write list option" where
  "pit_initialize frequency =
     (if frequency = 0 then None
      else let divisor = ucast (1193180 div frequency) :: u16 in
           Some [Outb 0x43 0x36, Outb 0x40 (ucast (divisor AND 0xFF)), Outb 0x40 (ucast (drop_bit 8 divisor AND 0xFF))])"

text \<open>
  \<open>None\<close>: the index is outside \<^verbatim>\<open>interrupt_handlers\<close>. Otherwise the handler that is called, if any, and the writes
  that follow its return.
\<close>

definition isr_handler :: "u64 \<Rightarrow> interrupts_t \<Rightarrow> (u64 option \<times> port_write list) option" where
  "isr_handler interrupt_number s =
     (let irq = unat (ucast interrupt_number :: u32) in
      if 32 \<le> irq \<and> irq < 48
      then Some (if interrupt_handlers s ! irq \<noteq> 0 then Some (interrupt_handlers s ! irq) else None, pic_send_eoi (irq - 32))
      else if irq \<ge> length (interrupt_handlers s) then None
      else if interrupt_handlers s ! irq \<noteq> 0 then Some (Some (interrupt_handlers s ! irq), [])
      else Some (None, []))"

subsection \<open>Gates\<close>

text \<open>The address the processor assembles from the three parts of a gate.\<close>

definition gate_target :: "idt_entry_t \<Rightarrow> u64" where
  "gate_target e = ucast (offset_low e) OR push_bit 16 (ucast (offset_mid e)) OR push_bit 32 (ucast (offset_high e))"

lemma gate_parts:
  "(ucast (ucast (h AND 0xFFFF) :: u16) OR push_bit 16 (ucast (ucast (drop_bit 16 h AND 0xFFFF) :: u16))
    OR push_bit 32 (ucast (ucast (drop_bit 32 h AND 0xFFFFFFFF) :: u32)) :: u64) = h"
proof (rule bit_word_eqI)
  fix n assume "n < LENGTH(64)"
  have m: "(0xFFFF :: u64) = mask 16" "(0xFFFFFFFF :: u64) = mask 32" by (simp_all add: mask_eq_exp_minus_1)
  consider "n < 16" | "16 \<le> n" "n < 32" | "32 \<le> n" by linarith
  then show "bit (ucast (ucast (h AND 0xFFFF) :: u16) OR push_bit 16 (ucast (ucast (drop_bit 16 h AND 0xFFFF) :: u16))
      OR push_bit 32 (ucast (ucast (drop_bit 32 h AND 0xFFFFFFFF) :: u32)) :: u64) n = bit h n"
    using \<open>n < LENGTH(64)\<close> unfolding m
    by cases (auto simp: bit_or_iff bit_and_iff bit_push_bit_iff bit_drop_bit_eq bit_ucast_iff bit_mask_iff)
qed

lemma set_idt_gate_target: "vector < length (idt s) \<Longrightarrow> gate_target (idt (set_idt_gate vector h s) ! vector) = h"
  using gate_parts [of h] by (simp add: set_idt_gate_def gate_target_def)

lemma set_idt_gate_other [simp]: "v \<noteq> vector \<Longrightarrow> idt (set_idt_gate vector h s) ! v = idt s ! v"
  "length (idt (set_idt_gate vector h s)) = length (idt s)" "interrupt_handlers (set_idt_gate vector h s) = interrupt_handlers s"
  by (simp_all add: set_idt_gate_def)

lemma set_idt_gate_nth:
  "v < length (idt s) \<Longrightarrow> gate_target (idt (set_idt_gate w h s) ! v) = (if v = w then h else gate_target (idt s ! v))"
  using set_idt_gate_target [of w s h] by auto

lemma set_gates:
  "length (idt (fold (\<lambda>v. set_idt_gate v (stub v)) vs s)) = length (idt s) \<and>
   interrupt_handlers (fold (\<lambda>v. set_idt_gate v (stub v)) vs s) = interrupt_handlers s \<and>
   (\<forall>v < length (idt s). gate_target (idt (fold (\<lambda>v. set_idt_gate v (stub v)) vs s) ! v) =
      (if v \<in> set vs then stub v else gate_target (idt s ! v)))"
proof (induction vs rule: rev_induct)
  case (snoc v vs)
  then show ?case by (simp add: set_idt_gate_nth)
qed simp

lemma clear_gates:
  "n \<le> length (idt s) \<Longrightarrow> length (interrupt_handlers s) = length (idt s) \<Longrightarrow>
   (let s' = fold (\<lambda>i s. (set_idt_gate i 0 s)\<lparr>interrupt_handlers := (interrupt_handlers s)[i := 0]\<rparr>) [0..<n] s in
    length (idt s') = length (idt s) \<and> length (interrupt_handlers s') = length (idt s) \<and>
    (\<forall>v < n. gate_target (idt s' ! v) = 0 \<and> type_attr (idt s' ! v) = 0x8E \<and> interrupt_handlers s' ! v = 0))"
proof (induction n)
  case (Suc n)
  then show ?case by (auto simp: Let_def less_Suc_eq set_idt_gate_def gate_target_def)
qed simp

text \<open>
  After \<open>idt_initialize\<close> the processor finds the entry stub of each of the vectors 0 to 20 and 32 to 47 in its
  gate, and no handler is registered. Every other vector has a gate that is marked present and leads to
  address 0, not to a handler of unexpected interrupts.
\<close>

theorem idt_initialize_gates:
  assumes "length (idt s) = IDT_GATES" and "length (interrupt_handlers s) = IDT_GATES" and "v < IDT_GATES"
  shows "gate_target (idt (fst (idt_initialize stub base s)) ! v) =
           (if v \<le> 20 \<or> 32 \<le> v \<and> v < 48 then stub v else 0) \<and>
         type_attr (idt (fst (idt_initialize stub base s)) ! v) = 0x8E \<and>
         interrupt_handlers (fst (idt_initialize stub base s)) ! v = 0 \<and>
         idt_ptr (fst (idt_initialize stub base s)) = \<lparr>idt_limit = 4095, idt_base = base\<rparr>"
proof -
  let ?s1 = "fold (\<lambda>i s. (set_idt_gate i 0 s)\<lparr>interrupt_handlers := (interrupt_handlers s)[i := 0]\<rparr>) [0..<256] s"
  let ?vs = "[0..<21] @ [32..<48]"
  note s1 = clear_gates [of 256 s, unfolded Let_def]
  have attr: "type_attr (idt (fold (\<lambda>v. set_idt_gate v (stub v)) vs s0) ! v) = 0x8E"
    if "type_attr (idt s0 ! v) = 0x8E" "v < length (idt s0)" for vs s0
    using that
  proof (induction vs arbitrary: s0)
    case (Cons w vs)
    have "type_attr (idt (set_idt_gate w (stub w) s0) ! v) = 0x8E"
      using Cons.prems by (cases "v = w") (simp_all add: set_idt_gate_def)
    then show ?case using Cons.IH [of "set_idt_gate w (stub w) s0"] Cons.prems(2) by simp
  qed simp
  have init: "fst (idt_initialize stub base s) =
      (fold (\<lambda>v. set_idt_gate v (stub v)) ?vs ?s1)\<lparr>idt_ptr := \<lparr>idt_limit = 4095, idt_base = base\<rparr>\<rparr>"
    by (simp only: idt_initialize_def Let_def fst_conv) simp
  have "v \<in> set ?vs \<longleftrightarrow> v \<le> 20 \<or> 32 \<le> v \<and> v < 48" unfolding set_append set_upt by auto
  then show ?thesis
    using s1 assms set_gates [of stub ?vs ?s1] attr [of ?s1 ?vs] unfolding init
    by (simp del: upt_rec_numeral set_append)
qed

text \<open>
  C34: A hardware interrupt calls its registered handler and is then acknowledged exactly once: at both controllers when
  it came through the second one, at the first only otherwise. Exceptions are dispatched without an acknowledgement.
\<close>

theorem isr_handler_acknowledges:
  assumes "length (interrupt_handlers s) = IDT_GATES" and "n < 256" and "h = interrupt_handlers s ! unat n"
  shows "isr_handler n s =
     Some (if h = 0 then None else Some h,
           if n < 32 \<or> 48 \<le> n then [] else if n < 40 then [Outb 0x20 0x20] else [Outb 0xA0 0x20, Outb 0x20 0x20])"
proof -
  have n: "unat n < 256" using assms(2) by (simp add: word_less_nat_alt)
  then have u: "unat (ucast n :: u32) = unat n" by (simp add: unsigned_ucast_eq take_bit_nat_eq_self)
  have "(n < 32 \<or> 48 \<le> n) = (\<not> (32 \<le> unat n \<and> unat n < 48))" "(n < 40) = (unat n < 40)"
    by (auto simp: word_less_nat_alt word_le_nat_alt)
  then show ?thesis
    using assms(1,3) n by (auto simp: isr_handler_def Let_def u pic_send_eoi_def)
qed

text \<open>
  The timer's divisor. For every frequency from 19 Hz up the two bytes written to the counter encode
  \<open>1193180 div frequency\<close> exactly; below 19 Hz the quotient does not fit the 16-bit counter and what is written is its
  remainder modulo 65536; a frequency of 0 traps.
\<close>

theorem pit_divisor:
  "pit_initialize 0 = None \<and>
   (frequency \<noteq> 0 \<longrightarrow> (\<exists>lo hi. pit_initialize frequency = Some [Outb 0x43 0x36, Outb 0x40 lo, Outb 0x40 hi] \<and>
      unat lo + 256 * unat hi = (1193180 div unat frequency) mod 65536 \<and>
      (19 \<le> frequency \<longrightarrow> unat lo + 256 * unat hi = 1193180 div unat frequency)))"
proof -
  let ?d = "ucast (1193180 div frequency) :: u16"
  let ?lo = "ucast (?d AND 0xFF) :: u8" and ?hi = "ucast (drop_bit 8 ?d AND 0xFF) :: u8"
  have d: "unat ?d = (1193180 div unat frequency) mod 65536" by (simp add: word_nat_simps)
  have small: "unat ?d < 65536" using unsigned_less [of ?d, where 'a = nat] by simp
  have lo: "unat ?lo = unat ?d mod 256" by (simp only: unat_ucast_mod [where 'b = 8] unat_and_255) simp
  have hi: "unat ?hi = unat ?d div 256"
    using small by (simp only: unat_ucast_mod [where 'b = 8] unat_and_255 unat_drop_bit_div) simp
  have sum: "unat ?lo + 256 * unat ?hi = (1193180 div unat frequency) mod 65536"
    unfolding lo hi d [symmetric] by simp
  have "1193180 div unat frequency < 65536" if "19 \<le> frequency"
  proof -
    have "19 \<le> unat frequency" using that by (simp add: word_le_nat_alt)
    then have "1193180 div unat frequency \<le> 1193180 div 19" by (intro div_le_mono2) simp_all
    then show ?thesis by simp
  qed
  then show ?thesis using sum by (auto simp: pit_initialize_def Let_def)
qed

subsection \<open>Witnesses\<close>

theorem idt_initialize_gates_witness:
  "gate_target (idt (fst (idt_initialize (\<lambda>v. of_nat v * 16 + 0x8000) 0x4000 interrupts_static)) ! 33) = 0x8210"
  using idt_initialize_gates [of interrupts_static 33 "\<lambda>v. of_nat v * 16 + 0x8000" "0x4000"]
  by (simp add: interrupts_static_def)

theorem isr_handler_acknowledges_witness:
  "isr_handler 44 (set_interrupt_handler 44 0x5000 interrupts_static) = Some (Some 0x5000, [Outb 0xA0 0x20, Outb 0x20 0x20])"
  using isr_handler_acknowledges [of "set_interrupt_handler 44 0x5000 interrupts_static" 44 "0x5000"]
  by (simp add: interrupts_static_def set_interrupt_handler_def)

theorem pit_divisor_witness:
  "\<exists>lo hi. pit_initialize 1000 = Some [Outb 0x43 0x36, Outb 0x40 lo, Outb 0x40 hi] \<and> unat lo + 256 * unat hi = 1193"
  using pit_divisor [of 1000] by auto

end
