(* ===== verification/Ring.thy ===== *)
theory Ring
  imports Prelude
begin

text \<open>
  Ring buffers. The keyboard, the mouse and the USB driver each keep one: an array with a head and a
  tail index, empty when the two are equal and full one element earlier. The lemmas about the array are
  proved once for any size; the locale states what a client of such a queue relies on.
\<close>

subsection \<open>The elements of a ring\<close>

definition ring_ok :: "nat \<Rightarrow> 'a list \<Rightarrow> nat \<Rightarrow> nat \<Rightarrow> bool" where
  "ring_ok n buf h t \<longleftrightarrow> length buf = n \<and> h < n \<and> t < n"

definition ring_items :: "nat \<Rightarrow> 'a list \<Rightarrow> nat \<Rightarrow> nat \<Rightarrow> 'a list" where
  "ring_items n buf h t = map (\<lambda>k. buf ! ((h + k) mod n)) [0..<(t + n - h) mod n]"

lemma ring_length: "h < n \<Longrightarrow> t < n \<Longrightarrow> length (ring_items n buf h t) = (if h \<le> t then t - h else t + n - h)"
  by (auto simp: ring_items_def mod_if)

lemma ring_nth: "k < length (ring_items n buf h t) \<Longrightarrow> ring_items n buf h t ! k = buf ! ((h + k) mod n)"
  by (simp add: ring_items_def)

lemma ring_bound: "ring_ok n buf h t \<Longrightarrow> length (ring_items n buf h t) < n"
  by (auto simp: ring_ok_def ring_length)

lemma ring_empty_iff: "ring_ok n buf h t \<Longrightarrow> ring_items n buf h t = [] \<longleftrightarrow> h = t"
  by (simp add: ring_ok_def flip: length_0_conv) (auto simp: ring_length)

lemma ring_full_iff:
  assumes "ring_ok n buf h t"
  shows "(t + 1) mod n = h \<longleftrightarrow> length (ring_items n buf h t) = n - 1"
  using assms by (auto simp: ring_ok_def ring_length mod_if split: if_splits)

lemma ring_enq:
  assumes "ring_ok n buf h t" "(t + 1) mod n \<noteq> h"
  shows "ring_items n (buf[t := x]) h ((t + 1) mod n) = ring_items n buf h t @ [x]"
proof (rule nth_equalityI)
  let ?l = "length (ring_items n buf h t)"
  have b: "length buf = n" "h < n" "t < n" using assms(1) by (auto simp: ring_ok_def)
  have len: "length (ring_items n (buf[t := x]) h ((t + 1) mod n)) = Suc ?l"
    using b assms(2) by (auto simp: ring_length mod_if split: if_splits)
  then show "length (ring_items n (buf[t := x]) h ((t + 1) mod n)) = length (ring_items n buf h t @ [x])" by simp
  fix k assume "k < length (ring_items n (buf[t := x]) h ((t + 1) mod n))"
  then have k: "k \<le> ?l" using len by simp
  have nth: "ring_items n (buf[t := x]) h ((t + 1) mod n) ! k = buf[t := x] ! ((h + k) mod n)"
    using k len by (intro ring_nth) simp
  have "k < n" using k ring_bound [OF assms(1)] by linarith
  then have "(h + k) mod n = (if h + k < n then h + k else h + k - n)" using b by (simp add: mod_if)
  then have pos: "(h + k) mod n = t \<longleftrightarrow> k = ?l"
    using b k \<open>k < n\<close> unfolding ring_length [OF b(2,3)] by (auto split: if_splits)
  show "ring_items n (buf[t := x]) h ((t + 1) mod n) ! k = (ring_items n buf h t @ [x]) ! k"
  proof (cases "k = ?l")
    case True
    then show ?thesis using nth pos b by (simp add: nth_append)
  next
    case False
    then have "k < ?l" using k by simp
    then show ?thesis using nth pos False by (simp add: nth_append ring_nth)
  qed
qed

lemma ring_deq:
  assumes "ring_ok n buf h t" "h \<noteq> t"
  shows "ring_items n buf h t = buf ! h # ring_items n buf ((h + 1) mod n) t"
proof (rule nth_equalityI)
  have b: "length buf = n" "h < n" "t < n" using assms(1) by (auto simp: ring_ok_def)
  have len: "length (ring_items n buf h t) = Suc (length (ring_items n buf ((h + 1) mod n) t))"
    using b assms(2) by (auto simp: ring_length mod_if split: if_splits)
  then show "length (ring_items n buf h t) = length (buf ! h # ring_items n buf ((h + 1) mod n) t)" by simp
  fix k assume "k < length (ring_items n buf h t)"
  then show "ring_items n buf h t ! k = (buf ! h # ring_items n buf ((h + 1) mod n) t) ! k"
  proof (cases k)
    case (Suc j)
    then have "(h + k) mod n = (((h + 1) mod n) + j) mod n" by (simp add: mod_add_left_eq)
    then show ?thesis using Suc \<open>k < _\<close> len by (simp add: ring_nth del: length_map)
  qed (use b in \<open>simp add: ring_nth\<close>)
qed

lemma ring_ok_step:
  "ring_ok n buf h t \<Longrightarrow> ring_ok n (buf[i := x]) h ((t + 1) mod n)" "ring_ok n buf h t \<Longrightarrow> ring_ok n buf ((h + 1) mod n) t"
  by (auto simp: ring_ok_def intro!: mod_less_divisor)

text \<open>The indices are advanced with a mask where the size is a power of two.\<close>

lemma nat_and_mask: "(x :: nat) AND 255 = x mod 256" "(x :: nat) AND 31 = x mod 32"
  using take_bit_eq_mask [of 8 x] take_bit_eq_mask [of 5 x] by (simp_all add: take_bit_eq_mod mask_eq_exp_minus_1)

subsection \<open>Bounded queues\<close>

text \<open>Taking up to \<open>n\<close> elements from a queue.\<close>

fun drain :: "('q \<Rightarrow> ('a \<times> 'q) option) \<Rightarrow> nat \<Rightarrow> 'q \<Rightarrow> 'a list" where
  "drain deq 0 q = []"
| "drain deq (Suc n) q = (case deq q of None \<Rightarrow> [] | Some (x, q') \<Rightarrow> x # drain deq n q')"

locale bounded_queue =
  fixes enq :: "'a \<Rightarrow> 'q \<Rightarrow> 'q" and deq :: "'q \<Rightarrow> ('a \<times> 'q) option"
    and items :: "'q \<Rightarrow> 'a list" and cap :: nat and invar :: "'q \<Rightarrow> bool"
  assumes enq_items: "invar q \<Longrightarrow> items (enq x q) = (if length (items q) < cap then items q @ [x] else items q)"
    and enq_invar: "invar q \<Longrightarrow> invar (enq x q)"
    and deq_items: "invar q \<Longrightarrow> deq q = None \<longleftrightarrow> items q = []"
    and deq_Some: "invar q \<Longrightarrow> deq q = Some (x, q') \<Longrightarrow> items q = x # items q' \<and> invar q'"
begin

lemma drain_items: "invar q \<Longrightarrow> drain deq n q = take n (items q)"
proof (induction n arbitrary: q)
  case (Suc n)
  show ?case
  proof (cases "deq q")
    case None
    then show ?thesis using deq_items [OF Suc.prems] by simp
  next
    case (Some p)
    then obtain x q' where p: "deq q = Some (x, q')" by (cases p) auto
    then show ?thesis using deq_Some [OF Suc.prems p] Suc.IH by simp
  qed
qed simp

lemma fill_items:
  "invar q \<Longrightarrow> invar (fold enq xs q) \<and> items (fold enq xs q) = items q @ take (cap - length (items q)) xs"
proof (induction xs arbitrary: q)
  case (Cons x xs)
  have "invar (enq x q)" by (rule enq_invar [OF Cons.prems])
  from Cons.IH [OF this] show ?case
    using enq_items [OF Cons.prems, of x]
    by (cases "length (items q) < cap") (auto simp: Suc_diff_Suc [symmetric])
qed simp

text \<open>First in, first out: what was put in comes out in order, and once the queue is full the newest is dropped.\<close>

lemma fifo:
  assumes "invar q" "items q = []"
  shows "drain deq n (fold enq xs q) = take n (take cap xs)"
  using drain_items [of "fold enq xs q" n] fill_items [OF assms(1), of xs] assms(2) by simp

end

end
