(* ===== verification/Usb.thy ===== *)
theory Usb
  imports Pci Ring
begin

text \<open>
  The USB driver of \<^verbatim>\<open>usb.c\<close>: the xHCI controller's set-up, the table of HID devices, the two report queues and
  the decoding of keyboard and mouse reports. The memory-mapped registers are parameters where the code
  reads them and a list of writes where it sets them; the addresses of the driver's static arrays are
  a parameter too. The queue indices are natural numbers below the queue size, where the source's 32-bit
  arithmetic does not wrap.
\<close>

subsection \<open>State\<close>

datatype usb_hid_type_t = USB_HID_NONE | USB_HID_KEYBOARD | USB_HID_MOUSE

record usb_hid_device_t =
  attached :: bool
  slot_id :: u8
  address :: u8
  hid_type :: usb_hid_type_t
  endpoint_address :: u8
  max_packet_size :: u16
  interface_number :: u8

record xhci_trb_t =
  parameter_lo :: u32
  parameter_hi :: u32
  trb_status :: u32
  trb_control :: u32

record xhci_ring_segment_table_t =
  ring_segment_base_address :: u64
  ring_segment_size :: u32
  segment_reserved :: u32

text \<open>The four bytes of a mouse report.\<close>

type_synonym mouse_report = "u8 \<times> u8 \<times> u8 \<times> u8"

record usb_t =
  xhci_cap :: u64
  xhci_op :: u64
  xhci_ports :: u64
  xhci_runtime :: u64
  xhci_doorbell :: u64
  cmd_ring :: "xhci_trb_t list"
  event_ring :: "xhci_trb_t list"
  cmd_ring_segment :: xhci_ring_segment_table_t
  event_ring_segment :: xhci_ring_segment_table_t
  dcbaa :: "u64 list"
  hid_devices :: "usb_hid_device_t list"
  keyboard_buffer :: "u8 list"
  keyboard_head :: nat
  keyboard_tail :: nat
  mouse_events :: "mouse_report list"
  mouse_head :: nat
  mouse_tail :: nat
  usb_mouse_x :: int
  usb_mouse_y :: int
  max_ports :: u32
  xhci_ready :: bool

record usb_layout =
  at_cmd_ring :: u64
  at_event_ring :: u64
  at_cmd_ring_segment :: u64
  at_event_ring_segment :: u64
  at_dcbaa :: u64

datatype mmio_write = Write32 u64 u32 | Write64 u64 u64

abbreviation MAX_HID_DEVICES :: nat where "MAX_HID_DEVICES \<equiv> 4"
abbreviation USB_KEYBOARD_QUEUE_SIZE :: nat where "USB_KEYBOARD_QUEUE_SIZE \<equiv> 64"
abbreviation USB_MOUSE_QUEUE_SIZE :: nat where "USB_MOUSE_QUEUE_SIZE \<equiv> 32"

definition usb_static :: usb_t where
  "usb_static = \<lparr>xhci_cap = 0, xhci_op = 0, xhci_ports = 0, xhci_runtime = 0, xhci_doorbell = 0,
     cmd_ring = replicate 256 \<lparr>parameter_lo = 0, parameter_hi = 0, trb_status = 0, trb_control = 0\<rparr>,
     event_ring = replicate 256 \<lparr>parameter_lo = 0, parameter_hi = 0, trb_status = 0, trb_control = 0\<rparr>,
     cmd_ring_segment = \<lparr>ring_segment_base_address = 0, ring_segment_size = 0, segment_reserved = 0\<rparr>,
     event_ring_segment = \<lparr>ring_segment_base_address = 0, ring_segment_size = 0, segment_reserved = 0\<rparr>,
     dcbaa = replicate 256 0,
     hid_devices = replicate MAX_HID_DEVICES \<lparr>attached = False, slot_id = 0, address = 0, hid_type = USB_HID_NONE,
       endpoint_address = 0, max_packet_size = 0, interface_number = 0\<rparr>,
     keyboard_buffer = replicate USB_KEYBOARD_QUEUE_SIZE 0, keyboard_head = 0, keyboard_tail = 0,
     mouse_events = replicate USB_MOUSE_QUEUE_SIZE (0, 0, 0, 0), mouse_head = 0, mouse_tail = 0,
     usb_mouse_x = 40, usb_mouse_y = 12, max_ports = 0, xhci_ready = False\<rparr>"

subsection \<open>The queues\<close>

definition usb_queue_keyboard_char :: "u8 \<Rightarrow> usb_t \<Rightarrow> bool \<times> usb_t" where
  "usb_queue_keyboard_char c s =
     (let nxt = (keyboard_tail s + 1) mod USB_KEYBOARD_QUEUE_SIZE in
      if nxt = keyboard_head s then (False, s)
      else (True, s\<lparr>keyboard_buffer := (keyboard_buffer s)[keyboard_tail s := c], keyboard_tail := nxt\<rparr>))"

definition usb_dequeue_keyboard_char :: "usb_t \<Rightarrow> (u8 \<times> usb_t) option" where
  "usb_dequeue_keyboard_char s =
     (if keyboard_head s = keyboard_tail s then None
      else Some (keyboard_buffer s ! keyboard_head s,
                 s\<lparr>keyboard_head := (keyboard_head s + 1) mod USB_KEYBOARD_QUEUE_SIZE\<rparr>))"

definition usb_queue_mouse_event :: "mouse_report \<Rightarrow> usb_t \<Rightarrow> bool \<times> usb_t" where
  "usb_queue_mouse_event report s =
     (let nxt = (mouse_tail s + 1) mod USB_MOUSE_QUEUE_SIZE in
      if nxt = mouse_head s then (False, s)
      else (True, s\<lparr>mouse_events := (mouse_events s)[mouse_tail s := report], mouse_tail := nxt\<rparr>))"

definition usb_dequeue_mouse_event :: "usb_t \<Rightarrow> (mouse_report \<times> usb_t) option" where
  "usb_dequeue_mouse_event s =
     (if mouse_head s = mouse_tail s then None
      else Some (mouse_events s ! mouse_head s, s\<lparr>mouse_head := (mouse_head s + 1) mod USB_MOUSE_QUEUE_SIZE\<rparr>))"

subsection \<open>Reports\<close>

definition usb_hid_keyboard_map :: "u8 list" where
  "usb_hid_keyboard_map = replicate 4 0 @ map of_char ''abcdefghijklmnopqrstuvwxyz1234567890'' @
     [0x0A, 0x1B, 0x08, 0x09] @ map of_char '' -=[]'' @ [0x5C, 0, 0x3B, 0x27, 0x60] @ map of_char '',./'' @
     replicate 199 0"

definition usb_hid_shift_map :: "u8 list" where
  "usb_hid_shift_map = replicate 4 0 @ map of_char ''ABCDEFGHIJKLMNOPQRSTUVWXYZ!@#$%^&*()'' @
     [0x0A, 0x1B, 0x08, 0x09] @ map of_char '' _+{}'' @ [0x7C, 0, 0x3A, 0x22, 0x7E] @ map of_char ''<>?'' @
     replicate 199 0"

definition usb_hid_keycode_to_ascii :: "u8 \<Rightarrow> bool \<Rightarrow> u8 option" where
  "usb_hid_keycode_to_ascii keycode shift =
     (if shift
      then if usb_hid_shift_map ! unat keycode \<noteq> 0 then Some (usb_hid_shift_map ! unat keycode) else None
      else if usb_hid_keyboard_map ! unat keycode \<noteq> 0 then Some (usb_hid_keyboard_map ! unat keycode) else None)"

definition process_keycode :: "bool \<Rightarrow> u8 \<Rightarrow> usb_t \<Rightarrow> usb_t" where
  "process_keycode shift code s =
     (if code = 0 then s
      else if code = 0x2A \<or> code = 0x2C then s
      else let c = (if shift then usb_hid_shift_map else usb_hid_keyboard_map) ! unat code in
           if c \<noteq> 0 then snd (usb_queue_keyboard_char c s) else s)"

definition usb_process_keyboard_report :: "u8 list \<Rightarrow> usb_t \<Rightarrow> usb_t" where
  "usb_process_keyboard_report report s =
     (let shift = report ! 0 AND 0x22 \<noteq> 0 in
      fold (\<lambda>i. process_keycode shift (report ! i)) [2..<8] s)"

definition usb_process_mouse_report :: "mouse_report \<Rightarrow> usb_t \<Rightarrow> usb_t" where
  "usb_process_mouse_report report s =
     (let (_, r1, r2, _) = report; dx = sint r1; dy = sint r2;
          (ok, s1) = usb_queue_mouse_event report s
      in if \<not> ok then s1
         else
           let s2 = s1\<lparr>usb_mouse_x := usb_mouse_x s1 + dx, usb_mouse_y := usb_mouse_y s1 - dy\<rparr>;
               s3 = (if usb_mouse_x s2 < 0 then s2\<lparr>usb_mouse_x := 0\<rparr> else s2);
               s4 = (if usb_mouse_x s3 > 79 then s3\<lparr>usb_mouse_x := 79\<rparr> else s3);
               s5 = (if usb_mouse_y s4 < 0 then s4\<lparr>usb_mouse_y := 0\<rparr> else s4)
           in (if usb_mouse_y s5 > 23 then s5\<lparr>usb_mouse_y := 23\<rparr> else s5))"

subsection \<open>Devices\<close>

text \<open>The body of the port loop; \<open>portsc\<close> is the port status register the controller returns.\<close>

definition attach_device :: "nat \<Rightarrow> nat \<Rightarrow> usb_hid_device_t \<Rightarrow> usb_hid_device_t" where
  "attach_device port i d =
     d\<lparr>attached := True, address := of_nat (port + 1), slot_id := of_nat (i + 1),
       hid_type := (if i = 0 then USB_HID_KEYBOARD else USB_HID_MOUSE),
       endpoint_address := (if i = 0 then 0x81 else 0x82), max_packet_size := 8, interface_number := 0\<rparr>"

definition poll_port :: "(nat \<Rightarrow> u32) \<Rightarrow> nat \<Rightarrow> bool \<times> usb_t \<Rightarrow> bool \<times> usb_t" where
  "poll_port portsc port = (\<lambda>(found, s).
     let connected = portsc port AND 1 \<noteq> 0; enabled = drop_bit 1 (portsc port) AND 1 \<noteq> 0 in
     if \<not> connected \<or> \<not> enabled then (found, s)
     else
       case first_idx (\<lambda>d. attached d \<and> unat (address d) = port + 1) (hid_devices s) of
         Some existing \<Rightarrow> (True, s)
       | None \<Rightarrow>
           (case first_idx (\<lambda>d. \<not> attached d) (hid_devices s) of
              Some i \<Rightarrow> (True, s\<lparr>hid_devices := (hid_devices s)[i := attach_device port i (hid_devices s ! i)]\<rparr>)
            | None \<Rightarrow> (True, s)))"

definition usb_poll_hid_devices :: "(nat \<Rightarrow> u32) \<Rightarrow> usb_t \<Rightarrow> bool \<times> usb_t" where
  "usb_poll_hid_devices portsc s =
     (if \<not> xhci_ready s \<or> xhci_ports s = 0 then (False, s)
      else fold (poll_port portsc) [0..<min (unat (max_ports s)) 256] (False, s))"

definition usb_poll :: "(nat \<Rightarrow> u32) \<Rightarrow> usb_t \<Rightarrow> usb_t" where
  "usb_poll portsc s = (if \<not> xhci_ready s then s else snd (usb_poll_hid_devices portsc s))"

definition usb_has_keyboard :: "usb_t \<Rightarrow> bool" where
  "usb_has_keyboard s = (\<exists>d \<in> set (hid_devices s). attached d \<and> hid_type d = USB_HID_KEYBOARD)"

definition usb_has_mouse :: "usb_t \<Rightarrow> bool" where
  "usb_has_mouse s = (\<exists>d \<in> set (hid_devices s). attached d \<and> hid_type d = USB_HID_MOUSE)"

definition usb_get_keyboard_char :: "usb_t \<Rightarrow> (u8 \<times> usb_t) option" where
  "usb_get_keyboard_char s = usb_dequeue_keyboard_char s"

text \<open>The report as the five values stored through the pointers: the two deltas and the three buttons.\<close>

definition usb_get_mouse_report :: "usb_t \<Rightarrow> ((u8 \<times> u8 \<times> bool \<times> bool \<times> bool) \<times> usb_t) option" where
  "usb_get_mouse_report s =
     (case usb_dequeue_mouse_event s of
        None \<Rightarrow> None
      | Some ((r0, r1, r2, _), s') \<Rightarrow> Some ((r1, r2, r0 AND 0x01 \<noteq> 0, r0 AND 0x02 \<noteq> 0, r0 AND 0x04 \<noteq> 0), s'))"

subsection \<open>Controller set-up\<close>

definition pci_config_bar0 :: "pci_space \<Rightarrow> u8 \<Rightarrow> u8 \<Rightarrow> u8 \<Rightarrow> u32" where
  "pci_config_bar0 cfg bus device function = pci_read_config_dword cfg bus device function 0x10 AND NOT 0x0F"

definition usb_initialize ::
  "pci_space \<Rightarrow> (u64 \<Rightarrow> u8) \<Rightarrow> (u64 \<Rightarrow> u32) \<Rightarrow> usb_layout \<Rightarrow> usb_t \<Rightarrow> usb_t \<times> mmio_write list" where
  "usb_initialize cfg mmio8 mmio32 lay s =
     (case pci_find_xhci_controller cfg of
        None \<Rightarrow> (s, [])
      | Some controller \<Rightarrow>
          let s1 = s\<lparr>xhci_cap := ucast (pd_bar0 controller)\<rparr> in
          if xhci_cap s1 = 0 then (s1, [])
          else
            let cap = xhci_cap s1;
                cap_len = ucast (mmio8 cap);
                op = cap + cap_len;
                runtime = cap + cap_len + 0x200;
                trb0 = \<lparr>parameter_lo = 0, parameter_hi = 0, trb_status = 0, trb_control = 0\<rparr>;
                s2 = s1\<lparr>max_ports := mmio32 (cap + 4) AND 0xFF,
                        xhci_op := op, xhci_ports := op + 0x400, xhci_runtime := runtime,
                        xhci_doorbell := cap + cap_len + 0x1000,
                        cmd_ring := replicate 256 trb0, event_ring := replicate 256 trb0, dcbaa := replicate 256 0,
                        cmd_ring_segment := \<lparr>ring_segment_base_address = at_cmd_ring lay, ring_segment_size = 256,
                                             segment_reserved = 0\<rparr>,
                        event_ring_segment := \<lparr>ring_segment_base_address = at_event_ring lay, ring_segment_size = 256,
                                               segment_reserved = 0\<rparr>,
                        xhci_ready := True\<rparr>
            in (s2, [Write64 (op + 16) (at_cmd_ring_segment lay OR 1), Write64 (op + 32) (at_dcbaa lay),
                     Write32 (op + 40) 1, Write32 op (mmio32 op OR 1),
                     Write32 (runtime + 32) 1, Write32 (runtime + 36) 0, Write32 (runtime + 40) 1,
                     Write64 (runtime + 48) (at_event_ring_segment lay), Write64 (runtime + 56) (at_event_ring lay)]))"

subsection \<open>Invariant and queues\<close>

definition usb_keys_items :: "usb_t \<Rightarrow> u8 list" where
  "usb_keys_items s = ring_items USB_KEYBOARD_QUEUE_SIZE (keyboard_buffer s) (keyboard_head s) (keyboard_tail s)"

definition usb_mouse_items :: "usb_t \<Rightarrow> mouse_report list" where
  "usb_mouse_items s = ring_items USB_MOUSE_QUEUE_SIZE (mouse_events s) (mouse_head s) (mouse_tail s)"

definition usb_inv :: "usb_t \<Rightarrow> bool" where
  "usb_inv s \<longleftrightarrow> ring_ok USB_KEYBOARD_QUEUE_SIZE (keyboard_buffer s) (keyboard_head s) (keyboard_tail s) \<and>
     ring_ok USB_MOUSE_QUEUE_SIZE (mouse_events s) (mouse_head s) (mouse_tail s) \<and>
     length (hid_devices s) = MAX_HID_DEVICES \<and> 0 \<le> usb_mouse_x s \<and> usb_mouse_x s \<le> 79 \<and>
     0 \<le> usb_mouse_y s \<and> usb_mouse_y s \<le> 23"

lemma usb_static_inv: "usb_inv usb_static"
  by (simp add: usb_inv_def usb_static_def ring_ok_def)

interpretation usb_keys: bounded_queue "\<lambda>c s. snd (usb_queue_keyboard_char c s)" usb_dequeue_keyboard_char
  usb_keys_items 63 usb_inv
proof
  fix s c assume inv: "usb_inv s"
  then have ok: "ring_ok 64 (keyboard_buffer s) (keyboard_head s) (keyboard_tail s)" by (simp add: usb_inv_def)
  note bound = ring_bound [OF ok]
  show "usb_keys_items (snd (usb_queue_keyboard_char c s)) =
      (if length (usb_keys_items s) < 63 then usb_keys_items s @ [c] else usb_keys_items s)"
    using ring_full_iff [OF ok] ring_enq [OF ok] bound by (auto simp: usb_queue_keyboard_char_def Let_def usb_keys_items_def)
  show "usb_inv (snd (usb_queue_keyboard_char c s))"
    using inv ring_ok_step(1) [OF ok] by (simp add: usb_queue_keyboard_char_def Let_def usb_inv_def)
  show "usb_dequeue_keyboard_char s = None \<longleftrightarrow> usb_keys_items s = []"
    using ring_empty_iff [OF ok] by (simp add: usb_dequeue_keyboard_char_def usb_keys_items_def)
  fix s' assume "usb_dequeue_keyboard_char s = Some (c, s')"
  then show "usb_keys_items s = c # usb_keys_items s' \<and> usb_inv s'"
    using ring_deq [OF ok] ring_ok_step(2) [OF ok] inv
    by (auto simp: usb_dequeue_keyboard_char_def usb_keys_items_def usb_inv_def split: if_splits)
qed

interpretation usb_mouse: bounded_queue "\<lambda>r s. snd (usb_queue_mouse_event r s)" usb_dequeue_mouse_event
  usb_mouse_items 31 usb_inv
proof
  fix s r assume inv: "usb_inv s"
  then have ok: "ring_ok 32 (mouse_events s) (mouse_head s) (mouse_tail s)" by (simp add: usb_inv_def)
  note bound = ring_bound [OF ok]
  show "usb_mouse_items (snd (usb_queue_mouse_event r s)) =
      (if length (usb_mouse_items s) < 31 then usb_mouse_items s @ [r] else usb_mouse_items s)"
    using ring_full_iff [OF ok] ring_enq [OF ok] bound by (auto simp: usb_queue_mouse_event_def Let_def usb_mouse_items_def)
  show "usb_inv (snd (usb_queue_mouse_event r s))"
    using inv ring_ok_step(1) [OF ok] by (simp add: usb_queue_mouse_event_def Let_def usb_inv_def)
  show "usb_dequeue_mouse_event s = None \<longleftrightarrow> usb_mouse_items s = []"
    using ring_empty_iff [OF ok] by (simp add: usb_dequeue_mouse_event_def usb_mouse_items_def)
  fix s' assume "usb_dequeue_mouse_event s = Some (r, s')"
  then show "usb_mouse_items s = r # usb_mouse_items s' \<and> usb_inv s'"
    using ring_deq [OF ok] ring_ok_step(2) [OF ok] inv
    by (auto simp: usb_dequeue_mouse_event_def usb_mouse_items_def usb_inv_def split: if_splits)
qed

lemma usb_mouse_report_inv:
  assumes "usb_inv s"
  shows "usb_inv (usb_process_mouse_report r s)"
proof -
  obtain ok s1 where q: "usb_queue_mouse_event r s = (ok, s1)" by (cases "usb_queue_mouse_event r s")
  obtain a b c d where r: "r = (a, b, c, d)" by (cases r)
  have "usb_inv s1" using usb_mouse.enq_invar [OF assms, of r] q by simp
  then show ?thesis
    by (simp add: usb_process_mouse_report_def q [unfolded r] r usb_inv_def Let_def)
qed

subsection \<open>Keyboard reports\<close>

text \<open>The characters a report stands for, in order.\<close>

definition keycode_char :: "bool \<Rightarrow> u8 \<Rightarrow> u8 option" where
  "keycode_char shift code =
     (if code = 0 \<or> code = 0x2A \<or> code = 0x2C then None else usb_hid_keycode_to_ascii code shift)"

definition report_chars :: "u8 list \<Rightarrow> u8 list" where
  "report_chars report = List.map_filter (keycode_char (report ! 0 AND 0x22 \<noteq> 0)) (map ((!) report) [2..<8])"

lemma process_keycode_char:
  "process_keycode shift code s =
     (case keycode_char shift code of None \<Rightarrow> s | Some c \<Rightarrow> snd (usb_queue_keyboard_char c s))"
  by (simp add: process_keycode_def keycode_char_def usb_hid_keycode_to_ascii_def Let_def)

lemma fold_map_filter:
  "fold (\<lambda>x s. case f x of None \<Rightarrow> s | Some y \<Rightarrow> g y s) xs s = fold g (List.map_filter f xs) s"
  by (induction xs arbitrary: s) (auto simp: map_filter_simps split: option.splits)

lemma usb_report_fold:
  "usb_process_keyboard_report report s = fold (\<lambda>c s. snd (usb_queue_keyboard_char c s)) (report_chars report) s"
proof -
  have "usb_process_keyboard_report report s =
      fold (\<lambda>code s. process_keycode (report ! 0 AND 0x22 \<noteq> 0) code s) (map ((!) report) [2..<8]) s"
    unfolding usb_process_keyboard_report_def Let_def fold_map comp_def ..
  then show ?thesis unfolding process_keycode_char fold_map_filter report_chars_def .
qed

text \<open>
  A keyboard report appends the characters of its six key codes to the queue in order, as long as the
  queue has room for them; reading the queue returns them in that order, and no report breaks the queue.
\<close>

theorem usb_keyboard_report_fifo:
  assumes "usb_inv s" and "usb_keys_items s = []"
  shows "drain usb_dequeue_keyboard_char n (usb_process_keyboard_report report s) = take n (report_chars report) \<and>
         usb_inv (usb_process_keyboard_report report s)"
proof -
  have "length (report_chars report) \<le> length [2..<8]"
    unfolding report_chars_def map_filter_def length_map by (rule order_trans [OF length_filter_le]) simp
  then show ?thesis
    using usb_keys.fifo [OF assms, of n "report_chars report"] usb_keys.fill_items [OF assms(1)]
    by (simp add: usb_report_fold)
qed

lemma nth_unique:
  assumes "x \<notin> set (take k xs)" "x \<notin> set (drop (Suc k) xs)" "i < length xs" "xs ! i = x"
  shows "i = k"
proof (rule ccontr)
  assume "i \<noteq> k"
  then consider "i < k" | "k < i" by linarith
  then show False
  proof cases
    case 1
    then have "xs ! i \<in> set (take k xs)" using assms(3) by (auto simp: in_set_conv_nth intro!: exI [of _ i])
    then show False using assms(1,4) by simp
  next
    case 2
    then have "xs ! i \<in> set (drop (Suc k) xs)"
      using assms(3) by (auto simp: in_set_conv_nth intro!: exI [of _ "i - Suc k"])
    then show False using assms(2,4) by simp
  qed
qed

lemma hid_map_length [simp]: "length usb_hid_keyboard_map = 256" "length usb_hid_shift_map = 256"
  by (simp_all add: usb_hid_keyboard_map_def usb_hid_shift_map_def)

lemma hid_map_entries:
  "usb_hid_keyboard_map ! 44 = 0x20" "usb_hid_keyboard_map ! 42 = 8" "usb_hid_shift_map ! 44 = 0x20" "usb_hid_shift_map ! 42 = 8"
  by code_simp+

lemma hid_map_space:
  assumes "i < 256" "usb_hid_keyboard_map ! i = 0x20 \<or> usb_hid_shift_map ! i = 0x20"
  shows "i = 44"
  using assms(2)
proof
  assume "usb_hid_keyboard_map ! i = 0x20"
  then show ?thesis using assms(1) by (intro nth_unique [of "0x20" 44 usb_hid_keyboard_map]) (simp_all add: usb_hid_keyboard_map_def)
next
  assume "usb_hid_shift_map ! i = 0x20"
  then show ?thesis using assms(1) by (intro nth_unique [of "0x20" 44 usb_hid_shift_map]) (simp_all add: usb_hid_shift_map_def)
qed

lemma hid_map_backspace:
  assumes "i < 256" "usb_hid_keyboard_map ! i = 8 \<or> usb_hid_shift_map ! i = 8"
  shows "i = 42"
  using assms(2)
proof
  assume "usb_hid_keyboard_map ! i = 8"
  then show ?thesis using assms(1) by (intro nth_unique [of 8 42 usb_hid_keyboard_map]) (simp_all add: usb_hid_keyboard_map_def)
next
  assume "usb_hid_shift_map ! i = 8"
  then show ?thesis using assms(1) by (intro nth_unique [of 8 42 usb_hid_shift_map]) (simp_all add: usb_hid_shift_map_def)
qed

lemma keycode_char_not_space: "keycode_char shift code \<noteq> Some 0x20 \<and> keycode_char shift code \<noteq> Some 8"
proof -
  have "unat code < 256" using unsigned_less [of code, where 'a = nat] by simp
  then have "usb_hid_keycode_to_ascii code shift = Some 0x20 \<Longrightarrow> unat code = 44"
    "usb_hid_keycode_to_ascii code shift = Some 8 \<Longrightarrow> unat code = 42"
    using hid_map_space [of "unat code"] hid_map_backspace [of "unat code"]
    by (auto simp: usb_hid_keycode_to_ascii_def split: if_splits)
  then show ?thesis by (auto simp: keycode_char_def word_unat_eq_iff)
qed

text \<open>
  A report never delivers a space or a backspace: \<open>usb_process_keyboard_report\<close> skips the HID codes
  0x2A and 0x2C, for which the translation tables have entries (0x2A and 0x36 are the shift keys of the PS/2
  scan code set, not of the HID usage table).
\<close>

theorem usb_report_drops_space_and_backspace:
  "usb_hid_keycode_to_ascii 0x2C shift = Some 0x20 \<and> usb_hid_keycode_to_ascii 0x2A shift = Some 8 \<and>
   usb_process_keyboard_report report s = fold (\<lambda>c s. snd (usb_queue_keyboard_char c s)) (report_chars report) s \<and>
   0x20 \<notin> set (report_chars report) \<and> 8 \<notin> set (report_chars report)"
proof -
  have "c \<noteq> 0x20 \<and> c \<noteq> 8" if "c \<in> set (report_chars report)" for c
    using that keycode_char_not_space by (auto simp: report_chars_def map_filter_def simp del: upt_rec_numeral)
  then show ?thesis
    using usb_report_fold [of report s]
    by (auto simp: usb_hid_keycode_to_ascii_def hid_map_entries)
qed

subsection \<open>Attached devices\<close>

definition port_active :: "(nat \<Rightarrow> u32) \<Rightarrow> nat \<Rightarrow> bool" where
  "port_active portsc port \<longleftrightarrow> portsc port AND 1 \<noteq> 0 \<and> drop_bit 1 (portsc port) AND 1 \<noteq> 0"

definition device_at :: "nat \<Rightarrow> usb_hid_device_t \<Rightarrow> bool" where
  "device_at port d \<longleftrightarrow> attached d \<and> unat (address d) = port + 1"

text \<open>At most one slot per port, and slot 0 is the one that is taken for a keyboard.\<close>

definition hid_ok :: "usb_hid_device_t list \<Rightarrow> bool" where
  "hid_ok ds \<longleftrightarrow> length ds = MAX_HID_DEVICES \<and>
     (\<forall>i < length ds. \<forall>j < length ds. attached (ds ! i) \<and> attached (ds ! j) \<and> address (ds ! i) = address (ds ! j) \<longrightarrow> i = j) \<and>
     (\<forall>i < length ds. attached (ds ! i) \<longrightarrow> hid_type (ds ! i) = (if i = 0 then USB_HID_KEYBOARD else USB_HID_MOUSE))"

definition served :: "nat \<Rightarrow> usb_hid_device_t list \<Rightarrow> bool" where
  "served port ds \<longleftrightarrow> (\<exists>d \<in> set ds. device_at port d) \<or> (\<forall>d \<in> set ds. attached d)"

lemma poll_port_eq:
  "poll_port portsc port (b, s) =
     (if \<not> port_active portsc port then (b, s)
      else case first_idx (device_at port) (hid_devices s) of
        Some _ \<Rightarrow> (True, s)
      | None \<Rightarrow> (case first_idx (\<lambda>d. \<not> attached d) (hid_devices s) of
           None \<Rightarrow> (True, s)
         | Some i \<Rightarrow> (True, s\<lparr>hid_devices := (hid_devices s)[i := attach_device port i (hid_devices s ! i)]\<rparr>)))"
proof -
  have "device_at port = (\<lambda>d. attached d \<and> unat (address d) = port + 1)" by (auto simp: device_at_def)
  then show ?thesis unfolding poll_port_def port_active_def by (simp add: Let_def split: option.split)
qed

text \<open>One port: what is attached stays, the table stays well formed, and the port is served if it is active.\<close>

lemma poll_port_hid:
  fixes portsc b
  assumes ok: "hid_ok (hid_devices s)" and port: "port < 255"
  defines "ds \<equiv> hid_devices (snd (poll_port portsc port (b, s)))"
  shows "hid_ok ds" "port_active portsc port \<Longrightarrow> served port ds"
    "i < length (hid_devices s) \<Longrightarrow> attached (hid_devices s ! i) \<Longrightarrow> ds ! i = hid_devices s ! i"
proof -
  let ?old = "hid_devices s"
  have addr: "unat (of_nat (port + 1) :: u8) = port + 1" using port by (intro unat_of_nat_small) simp
  consider (same) "ds = ?old" "port_active portsc port \<Longrightarrow> served port ?old"
    | (new) k where "k < length ?old" "\<not> attached (?old ! k)" "\<not> (\<exists>d \<in> set ?old. device_at port d)"
        "ds = ?old[k := attach_device port k (?old ! k)]"
  proof (cases "port_active portsc port")
    case False
    then show thesis using same by (simp add: ds_def poll_port_eq)
  next
    case True
    show thesis
    proof (cases "first_idx (device_at port) ?old")
      case (Some i)
      then have "\<exists>d \<in> set ?old. device_at port d" by (meson first_idx_SomeD nth_mem)
      then show thesis using same Some True by (simp add: ds_def poll_port_eq served_def)
    next
      case None
      then have none: "\<not> (\<exists>d \<in> set ?old. device_at port d)" by (simp add: first_idx_None_iff)
      show thesis
      proof (cases "first_idx (\<lambda>d. \<not> attached d) ?old")
        case n: None
        then have "\<forall>d \<in> set ?old. attached d" by (simp add: first_idx_None_iff)
        then show thesis using same True None n by (simp add: ds_def poll_port_eq served_def)
      next
        case (Some k)
        then show thesis using new [of k] True None none first_idx_SomeD [OF Some] by (simp add: ds_def poll_port_eq)
      qed
    qed
  qed
  note cases = this
  show "hid_ok ds"
  proof (cases rule: cases)
    case (new k)
    have na: "address (?old ! j) = of_nat (port + 1) \<Longrightarrow> False" if "j < length ?old" "attached (?old ! j)" for j
      using new(3) that addr nth_mem [OF that(1)] by (auto simp: device_at_def)
    have ne: "address (?old ! j) \<noteq> address (attach_device port k (?old ! k))"
      if "j < length ?old" "attached (?old ! j)" for j
      using na [OF that] by (auto simp: attach_device_def)
    show ?thesis unfolding hid_ok_def
    proof (intro conjI allI impI)
      fix i j assume ij: "i < length ds" "j < length ds"
        "attached (ds ! i) \<and> attached (ds ! j) \<and> address (ds ! i) = address (ds ! j)"
      then show "i = j"
        using ok ne [of i] ne [of j] new(1,4) unfolding hid_ok_def by (metis length_list_update nth_list_update)
    qed (use ok new(1,4) in \<open>auto simp: hid_ok_def nth_list_update attach_device_def\<close>)
  qed (use ok in simp)
  show "served port ds" if "port_active portsc port"
  proof (cases rule: cases)
    case (new k)
    then have "attach_device port k (?old ! k) \<in> set ds" by (simp add: set_update_memI)
    moreover have "device_at port (attach_device port k (?old ! k))" using addr by (simp add: device_at_def attach_device_def)
    ultimately show ?thesis unfolding served_def by blast
  qed (use that in simp)
  show "ds ! i = ?old ! i" if "i < length ?old" "attached (?old ! i)"
    by (cases rule: cases) (use that in \<open>auto simp: nth_list_update\<close>)
qed

lemma poll_ports_hid:
  assumes "hid_ok (hid_devices s)" "\<And>p. p \<in> set ports \<Longrightarrow> p < 255"
  shows "hid_ok (hid_devices (snd (fold (poll_port portsc) ports (b, s)))) \<and>
    (\<forall>p \<in> set ports. port_active portsc p \<longrightarrow> served p (hid_devices (snd (fold (poll_port portsc) ports (b, s))))) \<and>
    (\<forall>i < length (hid_devices s). attached (hid_devices s ! i) \<longrightarrow>
       hid_devices (snd (fold (poll_port portsc) ports (b, s))) ! i = hid_devices s ! i)"
  using assms(2)
proof (induction ports rule: rev_induct)
  case Nil
  then show ?case using assms(1) by simp
next
  case (snoc p ports)
  obtain b' s' where f: "fold (poll_port portsc) ports (b, s) = (b', s')" by (cases "fold (poll_port portsc) ports (b, s)")
  have IH: "hid_ok (hid_devices s')" "\<forall>p \<in> set ports. port_active portsc p \<longrightarrow> served p (hid_devices s')"
    "\<forall>i < length (hid_devices s). attached (hid_devices s ! i) \<longrightarrow> hid_devices s' ! i = hid_devices s ! i"
    using snoc.IH snoc.prems f by auto
  have p: "p < 255" using snoc.prems by simp
  let ?ds = "hid_devices (snd (poll_port portsc p (b', s')))"
  note step = poll_port_hid [OF IH(1) p, where portsc = portsc and b = b']
  have len: "length (hid_devices s') = 4" "length (hid_devices s) = 4" "length ?ds = 4"
    using IH(1) assms(1) step(1) by (auto simp: hid_ok_def)
  have keep: "served r ?ds" if "served r (hid_devices s')" for r
    using that unfolding served_def
  proof
    assume "\<exists>d \<in> set (hid_devices s'). device_at r d"
    then obtain i where "i < 4" "device_at r (hid_devices s' ! i)" using len by (auto simp: in_set_conv_nth)
    then have "?ds ! i = hid_devices s' ! i" "i < length ?ds" using step(3) [of i] len by (auto simp: device_at_def)
    then show "(\<exists>d \<in> set ?ds. device_at r d) \<or> (\<forall>d \<in> set ?ds. attached d)"
      using \<open>device_at r (hid_devices s' ! i)\<close> by (metis nth_mem)
  next
    assume "\<forall>d \<in> set (hid_devices s'). attached d"
    then have "attached (?ds ! i)" if "i < 4" for i using step(3) [of i] that len by simp
    then show "(\<exists>d \<in> set ?ds. device_at r d) \<or> (\<forall>d \<in> set ?ds. attached d)" using len by (auto simp: in_set_conv_nth)
  qed
  show ?case using IH step(1,2) keep step(3) len by (simp add: f)
qed

text \<open>
  Polling attaches every active port at most once: afterwards each active port has a device
  unless all four slots are taken, no two devices share a port, and devices attached before are unchanged.
\<close>

theorem usb_poll_attaches_ports:
  assumes "hid_ok (hid_devices s)" and "xhci_ready s" and "xhci_ports s \<noteq> 0" and "unat (max_ports s) \<le> 255"
  shows "hid_ok (hid_devices (usb_poll portsc s)) \<and>
    (\<forall>p < unat (max_ports s). port_active portsc p \<longrightarrow> served p (hid_devices (usb_poll portsc s))) \<and>
    (\<forall>i < MAX_HID_DEVICES. attached (hid_devices s ! i) \<longrightarrow> hid_devices (usb_poll portsc s) ! i = hid_devices s ! i)"
proof -
  have "min (unat (max_ports s)) 256 = unat (max_ports s)" using assms(4) by simp
  then show ?thesis
    using poll_ports_hid [OF assms(1), of "[0..<unat (max_ports s)]" portsc False] assms
    by (simp add: usb_poll_def usb_poll_hid_devices_def) (simp add: hid_ok_def)
qed

lemma usb_initialize_ports:
  assumes "usb_initialize cfg mmio8 mmio32 lay s = (s', ws)" "\<not> xhci_ready s" "xhci_ready s'"
  shows "unat (max_ports s') \<le> 255" "hid_devices s' = hid_devices s"
proof -
  have "unat (x AND 0xFF) \<le> 255" for x :: u32
    using word_and_le1 [of x "0xFF"] by (simp add: word_le_nat_alt)
  then show "unat (max_ports s') \<le> 255" "hid_devices s' = hid_devices s"
    using assms by (auto simp: usb_initialize_def Let_def split: option.splits if_splits)
qed

subsection \<open>Witnesses\<close>

theorem usb_keyboard_report_fifo_witness:
  "drain usb_dequeue_keyboard_char 5 (usb_process_keyboard_report [0x02, 0, 0x0B, 0x0C, 0, 0, 0, 0] usb_static) =
     map of_char ''HI''"
proof -
  have "usb_keys_items usb_static = []" by (simp add: usb_keys_items_def ring_items_def usb_static_def)
  moreover have "report_chars [0x02, 0, 0x0B, 0x0C, 0, 0, 0, 0] = map of_char ''HI''" by code_simp
  ultimately show ?thesis using usb_keyboard_report_fifo [OF usb_static_inv] by simp
qed

theorem usb_poll_attaches_ports_witness:
  "served 1 (hid_devices (usb_poll (\<lambda>p. if p = 1 then 3 else 0)
     (usb_static\<lparr>xhci_ready := True, xhci_ports := 0x1000, max_ports := 4\<rparr>)))"
proof -
  let ?s = "usb_static\<lparr>xhci_ready := True, xhci_ports := 0x1000, max_ports := 4\<rparr>"
  have "hid_ok (hid_devices ?s)" by (auto simp: hid_ok_def usb_static_def)
  from usb_poll_attaches_ports [OF this, of "\<lambda>p. if p = 1 then 3 else 0"] show ?thesis
    by (simp add: port_active_def)
qed

end
