(* ===== verification/Keyboard.thy ===== *)
theory Keyboard
  imports Usb
begin

text \<open>
  The keyboard driver of \<^verbatim>\<open>keyboard.c\<close>: a queue of 255 characters filled by polling the PS/2 controller and
  the USB driver. The bytes read from ports 0x64 and 0x60 are arguments.
\<close>

subsection \<open>State and operations\<close>

record keyboard_t =
  key_queue :: "u8 list"
  key_head :: nat
  key_tail :: nat
  shift_down :: bool

definition keyboard_static :: keyboard_t where
  "keyboard_static = \<lparr>key_queue = replicate 256 0, key_head = 0, key_tail = 0, shift_down = False\<rparr>"

definition keyboard_queue_char :: "u8 \<Rightarrow> keyboard_t \<Rightarrow> keyboard_t" where
  "keyboard_queue_char c k =
     (let nxt = (key_tail k + 1) AND 0xFF in
      if nxt \<noteq> key_head k then k\<lparr>key_queue := (key_queue k)[key_tail k := c], key_tail := nxt\<rparr> else k)"

definition usb_keyboard_poll :: "keyboard_t \<times> usb_t \<Rightarrow> keyboard_t \<times> usb_t" where
  "usb_keyboard_poll = (\<lambda>(k, u).
     if usb_has_keyboard u
     then (case usb_get_keyboard_char u of
             None \<Rightarrow> (k, u)
           | Some (c, u') \<Rightarrow> (if c \<noteq> 0 then keyboard_queue_char c k else k, u'))
     else (k, u))"

definition keymap :: "u8 list" where
  "keymap = [0, 0] @ map of_char ''1234567890-='' @ [8, 9] @ map of_char ''qwertyuiop[]'' @ [10, 0] @
     map of_char ''asdfghjkl;'' @ [0x27, 0x60, 0, 0x5C] @ map of_char ''zxcvbnm,./'' @ [0] @ map of_char ''*'' @ [0] @
     map of_char '' '' @ replicate 70 0"

definition shift_keymap :: "u8 list" where
  "shift_keymap = [0, 0] @ map of_char ''!@#$%^&*()_+'' @ [8, 9] @ map of_char ''QWERTYUIOP{}'' @ [10, 0] @
     map of_char ''ASDFGHJKL:'' @ [0x22, 0x7E, 0, 0x7C] @ map of_char ''ZXCVBNM<>?'' @ [0] @ map of_char ''*'' @ [0] @
     map of_char '' '' @ replicate 70 0"

definition keyboard_poll :: "u8 \<Rightarrow> u8 \<Rightarrow> keyboard_t \<Rightarrow> keyboard_t" where
  "keyboard_poll status data k =
     (if status AND 0x01 = 0 \<or> status AND 0x20 \<noteq> 0 then k
      else
        let released = data AND 0x80 \<noteq> 0; scancode = data AND 0x7F in
        if scancode = 0x2A \<or> scancode = 0x36 then k\<lparr>shift_down := \<not> released\<rparr>
        else if released then k
        else let chr = (if shift_down k then shift_keymap else keymap) ! unat scancode in
             if chr \<noteq> 0 then keyboard_queue_char chr k else k)"

definition keyboard_initialize :: "keyboard_t \<Rightarrow> keyboard_t" where
  "keyboard_initialize k = k\<lparr>key_head := 0, key_tail := 0, shift_down := False\<rparr>"

definition keyboard_has_data :: "u8 \<Rightarrow> u8 \<Rightarrow> keyboard_t \<times> usb_t \<Rightarrow> bool \<times> keyboard_t \<times> usb_t" where
  "keyboard_has_data status data = (\<lambda>(k, u).
     let (k', u') = usb_keyboard_poll (keyboard_poll status data k, u) in (key_head k' \<noteq> key_tail k', k', u'))"

text \<open>The end of \<^verbatim>\<open>keyboard_read_char\<close>, once both devices have been polled.\<close>

definition keyboard_take :: "keyboard_t \<Rightarrow> (u8 \<times> keyboard_t) option" where
  "keyboard_take k =
     (if key_head k = key_tail k then None
      else Some (key_queue k ! key_head k, k\<lparr>key_head := (key_head k + 1) AND 0xFF\<rparr>))"

definition keyboard_read_char :: "u8 \<Rightarrow> u8 \<Rightarrow> keyboard_t \<times> usb_t \<Rightarrow> u8 \<times> keyboard_t \<times> usb_t" where
  "keyboard_read_char status data = (\<lambda>(k, u).
     let (k', u') = usb_keyboard_poll (keyboard_poll status data k, u) in
     case keyboard_take k' of None \<Rightarrow> (0, k', u') | Some (c, k'') \<Rightarrow> (c, k'', u'))"

subsection \<open>The queue\<close>

definition key_items :: "keyboard_t \<Rightarrow> u8 list" where
  "key_items k = ring_items 256 (key_queue k) (key_head k) (key_tail k)"

definition keyboard_inv :: "keyboard_t \<Rightarrow> bool" where
  "keyboard_inv k \<longleftrightarrow> ring_ok 256 (key_queue k) (key_head k) (key_tail k)"

interpretation keys: bounded_queue keyboard_queue_char keyboard_take key_items 255 keyboard_inv
proof
  fix k c assume "keyboard_inv k"
  then have ok: "ring_ok 256 (key_queue k) (key_head k) (key_tail k)" by (simp add: keyboard_inv_def)
  show "key_items (keyboard_queue_char c k) = (if length (key_items k) < 255 then key_items k @ [c] else key_items k)"
    using ring_full_iff [OF ok] ring_enq [OF ok] ring_bound [OF ok]
    by (auto simp: keyboard_queue_char_def Let_def key_items_def nat_and_mask)
  show "keyboard_inv (keyboard_queue_char c k)"
    using ok ring_ok_step(1) [OF ok] by (simp add: keyboard_inv_def keyboard_queue_char_def Let_def nat_and_mask)
  show "keyboard_take k = None \<longleftrightarrow> key_items k = []"
    using ring_empty_iff [OF ok] by (simp add: keyboard_take_def key_items_def)
  fix k' assume "keyboard_take k = Some (c, k')"
  then show "key_items k = c # key_items k' \<and> keyboard_inv k'"
    using ring_deq [OF ok] ring_ok_step(2) [OF ok]
    by (auto simp: keyboard_take_def key_items_def keyboard_inv_def nat_and_mask split: if_splits)
qed

lemma keyboard_initialize_inv: "length (key_queue k) = 256 \<Longrightarrow> keyboard_inv (keyboard_initialize k) \<and> key_items (keyboard_initialize k) = []"
  by (simp add: keyboard_inv_def keyboard_initialize_def key_items_def ring_ok_def ring_items_def)

text \<open>The characters one poll adds: at most one from each device.\<close>

definition ps2_chars :: "u8 \<Rightarrow> u8 \<Rightarrow> bool \<Rightarrow> u8 list" where
  "ps2_chars status data shift =
     (if status AND 0x01 = 0 \<or> status AND 0x20 \<noteq> 0 \<or> data AND 0x80 \<noteq> 0 \<or> data AND 0x7F = 0x2A \<or> data AND 0x7F = 0x36
      then [] else filter (\<lambda>c. c \<noteq> 0) [(if shift then shift_keymap else keymap) ! unat (data AND 0x7F)])"

definition usb_chars :: "usb_t \<Rightarrow> u8 list" where
  "usb_chars u = (if usb_has_keyboard u then filter (\<lambda>c. c \<noteq> 0) (take 1 (usb_keys_items u)) else [])"

lemma keyboard_poll_fold:
  "key_items (keyboard_poll status data k) = key_items (fold keyboard_queue_char (ps2_chars status data (shift_down k)) k)"
  "keyboard_inv k \<Longrightarrow> keyboard_inv (keyboard_poll status data k)"
  using keys.enq_invar [of k] by (auto simp: keyboard_poll_def ps2_chars_def Let_def key_items_def keyboard_inv_def)

lemma usb_poll_fold:
  assumes "usb_inv u"
  shows "fst (usb_keyboard_poll (k, u)) = fold keyboard_queue_char (usb_chars u) k"
    "usb_inv (snd (usb_keyboard_poll (k, u)))"
  using usb_keys.deq_items [OF assms] usb_keys.deq_Some [OF assms] assms
  by (auto simp: usb_keyboard_poll_def usb_chars_def usb_get_keyboard_char_def split: option.splits)

text \<open>
  C29: \<open>keyboard_read_char\<close> is a first-in-first-out read: it appends what the two devices deliver (a scan code
  is translated through the map of the current shift state, releases and shift keys give nothing) to the
  characters waiting, as far as 255 fit, and returns and removes the oldest, or returns 0 when there is none.
\<close>

theorem keyboard_read_char_fifo:
  assumes "keyboard_inv k" and "usb_inv u" and "keyboard_read_char status data (k, u) = (c, k', u')"
  shows "(c, key_items k') =
           (case take 255 (key_items k @ ps2_chars status data (shift_down k) @ usb_chars u) of
              [] \<Rightarrow> (0, []) | x # xs \<Rightarrow> (x, xs)) \<and>
         keyboard_inv k' \<and> usb_inv u'"
proof -
  let ?k1 = "keyboard_poll status data k"
  obtain k2 u2 where p: "usb_keyboard_poll (?k1, u) = (k2, u2)" by (cases "usb_keyboard_poll (?k1, u)")
  have k2: "k2 = fold keyboard_queue_char (usb_chars u) ?k1" and u2: "usb_inv u2"
    using usb_poll_fold [OF assms(2), of ?k1] p by simp_all
  have fit: "length (key_items k) \<le> 255"
    using ring_bound assms(1) unfolding keyboard_inv_def key_items_def by fastforce
  have inv1: "keyboard_inv ?k1" by (rule keyboard_poll_fold(2) [OF assms(1)])
  have "key_items ?k1 = take 255 (key_items k @ ps2_chars status data (shift_down k))"
    using keys.fill_items [OF assms(1)] fit by (simp add: keyboard_poll_fold(1))
  then have items2: "key_items k2 = take 255 (key_items k @ ps2_chars status data (shift_down k) @ usb_chars u)"
    using keys.fill_items [OF inv1, of "usb_chars u"] unfolding k2 by (simp add: min_def not_le split: if_splits)
  have inv2: "keyboard_inv k2" using keys.fill_items [OF inv1] k2 by simp
  show ?thesis
  proof (cases "keyboard_take k2")
    case None
    then show ?thesis
      using assms(3) p keys.deq_items [OF inv2] items2 inv2 u2 by (auto simp: keyboard_read_char_def)
  next
    case (Some r)
    then obtain x k3 where "keyboard_take k2 = Some (x, k3)" by (cases r) auto
    then show ?thesis
      using assms(3) p keys.deq_Some [OF inv2] u2 unfolding items2 [symmetric] by (auto simp: keyboard_read_char_def)
  qed
qed

theorem keyboard_read_char_fifo_witness:
  "fst (keyboard_read_char 0x01 0x1E (keyboard_static, usb_static)) = of_char (CHR ''a'')"
proof -
  have "keyboard_inv keyboard_static" by (simp add: keyboard_inv_def keyboard_static_def ring_ok_def)
  moreover have "key_items keyboard_static = []" by (simp add: key_items_def keyboard_static_def ring_items_def)
  moreover have "ps2_chars 0x01 0x1E (shift_down keyboard_static) = [0x61]" by code_simp
  moreover have "usb_chars usb_static = []" by (simp add: usb_chars_def usb_has_keyboard_def usb_static_def)
  ultimately show ?thesis
    using keyboard_read_char_fifo [OF _ usb_static_inv, of keyboard_static "0x01" "0x1E"]
    by (cases "keyboard_read_char 0x01 0x1E (keyboard_static, usb_static)") auto
qed

end
