(* ===== verification/Mouse.thy ===== *)
theory Mouse
  imports Usb
begin

text \<open>
  The mouse driver of \<^verbatim>\<open>mouse.c\<close>: a state machine that collects three-byte PS/2 packets, a queue of 31 events
  that the PS/2 and the USB mouse share, and the cursor position. The bytes read from ports 0x64 and 0x60 and
  the USB port registers are arguments.
\<close>

subsection \<open>State and operations\<close>

record mouse_event_t =
  ev_dx :: u8
  ev_dy :: u8
  ev_left :: bool
  ev_right :: bool
  ev_middle :: bool

record mouse_t =
  mouse_queue :: "mouse_event_t list"
  mouse_queue_head :: nat
  mouse_queue_tail :: nat
  mouse_packet :: "u8 list"
  mouse_packet_offset :: nat
  mouse_x :: int
  mouse_y :: int
  mouse_initialized :: bool

definition mouse_static :: mouse_t where
  "mouse_static = \<lparr>mouse_queue = replicate 32 \<lparr>ev_dx = 0, ev_dy = 0, ev_left = False, ev_right = False, ev_middle = False\<rparr>,
     mouse_queue_head = 0, mouse_queue_tail = 0, mouse_packet = [0, 0, 0], mouse_packet_offset = 0,
     mouse_x = 40, mouse_y = 12, mouse_initialized = False\<rparr>"

definition queue_is_full :: "mouse_t \<Rightarrow> bool" where
  "queue_is_full s \<longleftrightarrow> (mouse_queue_tail s + 1) AND 31 = mouse_queue_head s"

definition queue_is_empty :: "mouse_t \<Rightarrow> bool" where
  "queue_is_empty s \<longleftrightarrow> mouse_queue_head s = mouse_queue_tail s"

definition enqueue_mouse_event :: "mouse_event_t \<Rightarrow> mouse_t \<Rightarrow> mouse_t" where
  "enqueue_mouse_event ev s =
     (if queue_is_full s then s
      else s\<lparr>mouse_queue := (mouse_queue s)[mouse_queue_tail s := ev],
             mouse_queue_tail := (mouse_queue_tail s + 1) AND 31\<rparr>)"

definition process_ps2_packet :: "mouse_t \<Rightarrow> mouse_t" where
  "process_ps2_packet s =
     (let status = mouse_packet s ! 0 in
      enqueue_mouse_event \<lparr>ev_dx = mouse_packet s ! 1, ev_dy = mouse_packet s ! 2,
        ev_left = (status AND 0x01 \<noteq> 0), ev_right = (status AND 0x02 \<noteq> 0), ev_middle = (status AND 0x04 \<noteq> 0)\<rparr> s)"

definition mouse_poll_ps2 :: "u8 \<Rightarrow> u8 \<Rightarrow> mouse_t \<Rightarrow> mouse_t" where
  "mouse_poll_ps2 status data s =
     (if status AND 0x01 = 0 \<or> status AND 0x20 = 0 then s
      else if mouse_packet_offset s = 0 \<and> data AND 0x08 = 0 then s
      else
        let s1 = s\<lparr>mouse_packet := (mouse_packet s)[mouse_packet_offset s := data],
                   mouse_packet_offset := mouse_packet_offset s + 1\<rparr> in
        if mouse_packet_offset s1 \<ge> 3 then (process_ps2_packet s1)\<lparr>mouse_packet_offset := 0\<rparr> else s1)"

text \<open>
  The two waits before the writes only read the status port. \<open>statuses\<close> are the values the last loop reads
  from it, in order, and \<open>response\<close> the byte then read from the data port.
\<close>

definition send_mouse_command :: "(nat \<Rightarrow> u8) \<Rightarrow> u8 \<Rightarrow> u8 \<Rightarrow> bool \<times> port_write list" where
  "send_mouse_command statuses response command =
     (list_ex (\<lambda>i. statuses i AND 0x01 \<noteq> 0) [0..<100000] \<and> response = 0xFA,
      [Outb 0x64 0xD4, Outb 0x60 command])"

text \<open>The result adds the port writes and the register writes of the USB controller's set-up.\<close>

definition mouse_initialize ::
  "pci_space \<Rightarrow> (u64 \<Rightarrow> u8) \<Rightarrow> (u64 \<Rightarrow> u32) \<Rightarrow> usb_layout \<Rightarrow> (nat \<Rightarrow> u32) \<Rightarrow> (nat \<Rightarrow> u8) \<Rightarrow> u8 \<Rightarrow> mouse_t \<times> usb_t \<Rightarrow>
     (mouse_t \<times> usb_t) \<times> port_write list \<times> mmio_write list" where
  "mouse_initialize cfg mmio8 mmio32 lay portsc statuses response = (\<lambda>(s, u).
     let s' = s\<lparr>mouse_queue_head := 0, mouse_queue_tail := 0, mouse_packet_offset := 0, mouse_x := 40, mouse_y := 12,
                mouse_initialized := True\<rparr>;
         out = snd (send_mouse_command statuses response 0xF6) @ snd (send_mouse_command statuses response 0xF4);
         (u', ws) = usb_initialize cfg mmio8 mmio32 lay u
     in ((s', usb_poll portsc u'), out, ws))"

definition poll_usb_mouse :: "(nat \<Rightarrow> u32) \<Rightarrow> mouse_t \<times> usb_t \<Rightarrow> mouse_t \<times> usb_t" where
  "poll_usb_mouse portsc = (\<lambda>(s, u).
     let u1 = usb_poll portsc u in
     if \<not> usb_has_mouse u1 then (s, u1)
     else case usb_get_mouse_report u1 of
            None \<Rightarrow> (s, u1)
          | Some ((dx, dy, left, right, middle), u2) \<Rightarrow>
              (enqueue_mouse_event \<lparr>ev_dx = dx, ev_dy = dy, ev_left = left, ev_right = right, ev_middle = middle\<rparr> s, u2))"

definition mouse_has_event :: "u8 \<Rightarrow> u8 \<Rightarrow> (nat \<Rightarrow> u32) \<Rightarrow> mouse_t \<times> usb_t \<Rightarrow> bool \<times> mouse_t \<times> usb_t" where
  "mouse_has_event status data portsc = (\<lambda>(s, u).
     if \<not> mouse_initialized s then (False, s, u)
     else let (s', u') = poll_usb_mouse portsc (mouse_poll_ps2 status data s, u) in (\<not> queue_is_empty s', s', u'))"

text \<open>
  \<open>null\<close> tells that one of the five pointers is \<^verbatim>\<open>NULL\<close>; the result is what is stored through the others: the event, or zeros.
\<close>

definition mouse_get_event :: "bool \<Rightarrow> mouse_t \<Rightarrow> mouse_event_t \<times> mouse_t" where
  "mouse_get_event null s =
     (if queue_is_empty s \<or> null
      then (\<lparr>ev_dx = 0, ev_dy = 0, ev_left = False, ev_right = False, ev_middle = False\<rparr>, s)
      else
        let event = mouse_queue s ! mouse_queue_head s;
            x = mouse_x s + sint (ev_dx event);
            y = mouse_y s - sint (ev_dy event)
        in (event, s\<lparr>mouse_queue_head := (mouse_queue_head s + 1) AND 31,
              mouse_x := (if x < 0 then 0 else if x > 79 then 79 else x),
              mouse_y := (if y < 0 then 0 else if y > 23 then 23 else y)\<rparr>))"

definition mouse_get_x :: "mouse_t \<Rightarrow> int" where "mouse_get_x s = mouse_x s"
definition mouse_get_y :: "mouse_t \<Rightarrow> int" where "mouse_get_y s = mouse_y s"

subsection \<open>Invariant and queue\<close>

definition mouse_items :: "mouse_t \<Rightarrow> mouse_event_t list" where
  "mouse_items s = ring_items 32 (mouse_queue s) (mouse_queue_head s) (mouse_queue_tail s)"

definition mouse_inv :: "mouse_t \<Rightarrow> bool" where
  "mouse_inv s \<longleftrightarrow> ring_ok 32 (mouse_queue s) (mouse_queue_head s) (mouse_queue_tail s) \<and>
     length (mouse_packet s) = 3 \<and> mouse_packet_offset s < 3 \<and>
     0 \<le> mouse_x s \<and> mouse_x s \<le> 79 \<and> 0 \<le> mouse_y s \<and> mouse_y s \<le> 23"

definition mouse_deq :: "mouse_t \<Rightarrow> (mouse_event_t \<times> mouse_t) option" where
  "mouse_deq s = (if queue_is_empty s then None else Some (mouse_get_event False s))"

interpretation mouse_events_queue: bounded_queue enqueue_mouse_event mouse_deq mouse_items 31 mouse_inv
proof
  fix s ev assume inv: "mouse_inv s"
  then have ok: "ring_ok 32 (mouse_queue s) (mouse_queue_head s) (mouse_queue_tail s)" by (simp add: mouse_inv_def)
  show "mouse_items (enqueue_mouse_event ev s) = (if length (mouse_items s) < 31 then mouse_items s @ [ev] else mouse_items s)"
    using ring_full_iff [OF ok] ring_enq [OF ok] ring_bound [OF ok]
    by (auto simp: enqueue_mouse_event_def queue_is_full_def mouse_items_def nat_and_mask)
  show "mouse_inv (enqueue_mouse_event ev s)"
    using inv ring_ok_step(1) [OF ok] by (simp add: mouse_inv_def enqueue_mouse_event_def nat_and_mask)
  show "mouse_deq s = None \<longleftrightarrow> mouse_items s = []"
    using ring_empty_iff [OF ok] by (simp add: mouse_deq_def queue_is_empty_def mouse_items_def)
  fix s' assume "mouse_deq s = Some (ev, s')"
  then show "mouse_items s = ev # mouse_items s' \<and> mouse_inv s'"
    using ring_deq [OF ok] ring_ok_step(2) [OF ok] inv
    by (auto simp: mouse_deq_def mouse_get_event_def queue_is_empty_def mouse_items_def mouse_inv_def nat_and_mask Let_def
        split: if_splits)
qed

subsection \<open>Packets\<close>

text \<open>
  A byte that arrives from the mouse, and what a stream of bytes means: a byte without bit 3 is skipped where a
  packet may start, any other starts a packet of three.
\<close>

definition mouse_byte :: "u8 \<Rightarrow> mouse_t \<Rightarrow> mouse_t" where
  "mouse_byte data s = mouse_poll_ps2 0x21 data s"

definition packet_event :: "u8 \<Rightarrow> u8 \<Rightarrow> u8 \<Rightarrow> mouse_event_t" where
  "packet_event b0 b1 b2 = \<lparr>ev_dx = b1, ev_dy = b2, ev_left = (b0 AND 0x01 \<noteq> 0), ev_right = (b0 AND 0x02 \<noteq> 0),
     ev_middle = (b0 AND 0x04 \<noteq> 0)\<rparr>"

fun decode_packets :: "u8 list \<Rightarrow> mouse_event_t list" where
  "decode_packets (b0 # b1 # b2 # rest) =
     (if b0 AND 0x08 = 0 then decode_packets (b1 # b2 # rest) else packet_event b0 b1 b2 # decode_packets rest)"
| "decode_packets [] = []"
| "decode_packets [b0] = []"
| "decode_packets [b0, b1] = []"

lemma mouse_byte_skip:
  "mouse_packet_offset s = 0 \<Longrightarrow> b AND 0x08 = 0 \<Longrightarrow> mouse_byte b s = s"
  by (simp add: mouse_byte_def mouse_poll_ps2_def)

lemma mouse_byte_packet:
  assumes "mouse_inv s" "mouse_packet_offset s = 0" "b0 AND 0x08 \<noteq> 0"
  shows "\<exists>s'. mouse_byte b2 (mouse_byte b1 (mouse_byte b0 s)) = enqueue_mouse_event (packet_event b0 b1 b2) s' \<and>
    mouse_inv s' \<and> mouse_packet_offset s' = 0 \<and> mouse_items s' = mouse_items s"
proof -
  let ?s' = "s\<lparr>mouse_packet := [b0, b1, b2]\<rparr>"
  obtain p0 p1 p2 where p: "mouse_packet s = [p0, p1, p2]"
    using assms(1) by (auto simp: mouse_inv_def numeral_3_eq_3 length_Suc_conv)
  have "mouse_byte b2 (mouse_byte b1 (mouse_byte b0 s)) = enqueue_mouse_event (packet_event b0 b1 b2) ?s'"
    using assms(2,3) p
    by (simp add: mouse_byte_def mouse_poll_ps2_def process_ps2_packet_def packet_event_def enqueue_mouse_event_def
        queue_is_full_def Let_def)
  then show ?thesis using assms(1,2) by (intro exI [of _ ?s']) (simp add: mouse_inv_def mouse_items_def)
qed

lemma enqueue_offset [simp]: "mouse_packet_offset (enqueue_mouse_event ev s) = mouse_packet_offset s"
  by (simp add: enqueue_mouse_event_def)

lemma mouse_short_stream:
  assumes "mouse_inv s"
  shows "mouse_packet_offset s + length bs < 3 \<Longrightarrow> mouse_items (fold mouse_byte bs s) = mouse_items s \<and> mouse_inv (fold mouse_byte bs s)"
  using assms
proof (induction bs arbitrary: s)
  case (Cons b bs)
  have "mouse_items (mouse_byte b s) = mouse_items s \<and> mouse_inv (mouse_byte b s) \<and>
      mouse_packet_offset (mouse_byte b s) \<le> mouse_packet_offset s + 1"
    using Cons.prems by (auto simp: mouse_byte_def mouse_poll_ps2_def Let_def mouse_items_def mouse_inv_def)
  then show ?case using Cons.IH [of "mouse_byte b s"] Cons.prems by simp
qed simp

text \<open>
  C28: Whatever bytes the mouse sends, the events queued are exactly the packets of the stream, in order and as
  far as 31 fit, and the queue stays well formed: the packet state machine agrees with decoding the stream at once,
  including its resynchronisation on bytes that cannot start a packet.
\<close>

theorem mouse_stream_decoded:
  assumes "mouse_inv s" and "mouse_packet_offset s = 0"
  shows "mouse_items (fold mouse_byte bytes s) =
           mouse_items s @ take (31 - length (mouse_items s)) (decode_packets bytes) \<and>
         mouse_inv (fold mouse_byte bytes s)"
  using assms
proof (induction bytes arbitrary: s rule: decode_packets.induct)
  case (1 b0 b1 b2 rest)
  show ?case
  proof (cases "b0 AND 0x08 = 0")
    case True
    then show ?thesis using 1(1) [OF True 1(3,4)] mouse_byte_skip [OF 1(4) True] by simp
  next
    case False
    obtain s' where s': "mouse_byte b2 (mouse_byte b1 (mouse_byte b0 s)) = enqueue_mouse_event (packet_event b0 b1 b2) s'"
        "mouse_inv s'" "mouse_packet_offset s' = 0" "mouse_items s' = mouse_items s"
      using mouse_byte_packet [OF 1(3,4) False] by blast
    let ?e = "enqueue_mouse_event (packet_event b0 b1 b2) s'"
    have "mouse_inv ?e" by (rule mouse_events_queue.enq_invar [OF s'(2)])
    from 1(2) [OF False this] show ?thesis
      using mouse_events_queue.enq_items [OF s'(2)] s' False
      by (cases "length (mouse_items s) < 31") (auto simp: Suc_diff_Suc [symmetric])
  qed
next
  case (3 b0)
  then show ?case using mouse_short_stream [of s "[b0]"] by simp
next
  case (4 b0 b1)
  then show ?case using mouse_short_stream [of s "[b0, b1]"] by simp
qed simp

text \<open>
  Reading an event removes the oldest one, moves the cursor by it and keeps the cursor on the 80 by 24 screen
  (the vertical axis points down); polling either mouse never moves the cursor.
\<close>

theorem mouse_cursor_on_screen:
  assumes "mouse_inv s" and "mouse_items s = ev # evs"
  shows "fst (mouse_get_event False s) = ev \<and> mouse_items (snd (mouse_get_event False s)) = evs \<and>
         mouse_inv (snd (mouse_get_event False s)) \<and>
         mouse_get_x (snd (mouse_get_event False s)) = max 0 (min 79 (mouse_x s + sint (ev_dx ev))) \<and>
         mouse_get_y (snd (mouse_get_event False s)) = max 0 (min 23 (mouse_y s - sint (ev_dy ev))) \<and>
         mouse_get_x (mouse_poll_ps2 status data s) = mouse_x s"
proof -
  have "mouse_deq s \<noteq> None" using mouse_events_queue.deq_items [OF assms(1)] assms(2) by simp
  then have deq: "mouse_deq s = Some (mouse_get_event False s)" and ne: "\<not> queue_is_empty s"
    by (auto simp: mouse_deq_def split: if_splits)
  obtain e s' where e: "mouse_get_event False s = (e, s')" by (cases "mouse_get_event False s")
  have "mouse_items s = e # mouse_items s' \<and> mouse_inv s'"
    using mouse_events_queue.deq_Some [OF assms(1)] deq e by simp
  moreover have "mouse_x s' = max 0 (min 79 (mouse_x s + sint (ev_dx e)))"
    "mouse_y s' = max 0 (min 23 (mouse_y s - sint (ev_dy e)))"
    using e ne by (auto simp: mouse_get_event_def Let_def)
  moreover have "mouse_x (mouse_poll_ps2 status data s) = mouse_x s"
    by (simp add: mouse_poll_ps2_def process_ps2_packet_def enqueue_mouse_event_def Let_def)
  ultimately show ?thesis using assms(2) e by (simp add: mouse_get_x_def mouse_get_y_def)
qed

lemma mouse_static_inv: "mouse_inv mouse_static" "mouse_items mouse_static = []" "mouse_packet_offset mouse_static = 0"
  by (simp_all add: mouse_inv_def mouse_static_def ring_ok_def mouse_items_def ring_items_def)

theorem mouse_stream_decoded_witness:
  "mouse_items (fold mouse_byte [0x00, 0x09, 5, 0xFF] mouse_static) = [packet_event 0x09 5 0xFF]"
  using mouse_stream_decoded [OF mouse_static_inv(1,3), of "[0x00, 0x09, 5, 0xFF]"] mouse_static_inv(2) by simp

theorem mouse_cursor_on_screen_witness:
  "mouse_get_y (snd (mouse_get_event False (fold mouse_byte [0x00, 0x09, 5, 0xFF] mouse_static))) = 13"
proof -
  let ?s = "fold mouse_byte [0x00, 0x09, 5, 0xFF] mouse_static"
  have "mouse_inv ?s \<and> mouse_items ?s = [packet_event 0x09 5 0xFF]"
    using mouse_static_inv by (simp add: mouse_byte_def mouse_poll_ps2_def process_ps2_packet_def packet_event_def
        enqueue_mouse_event_def queue_is_full_def Let_def mouse_static_def nat_and_mask mouse_inv_def mouse_items_def ring_ok_def ring_items_def)
  moreover have "mouse_y ?s = 12" 
    by (simp add: mouse_byte_def mouse_poll_ps2_def process_ps2_packet_def enqueue_mouse_event_def Let_def mouse_static_def)
  ultimately show ?thesis
    using mouse_cursor_on_screen [of ?s "packet_event 0x09 5 0xFF" "[]" 0 0] by (simp add: packet_event_def)
qed

end
