(* ===== verification/Vga.thy ===== *)
theory Vga
  imports Prelude "HOL-Library.Monad_Syntax"
begin

text \<open>
  The display driver of \<^verbatim>\<open>vga.c\<close>: the 80 by 25 text screen and the linear framebuffer with its back buffer of
  1024 * 768 pixels. Coordinates are C \<^verbatim>\<open>int\<close>s, kept as \<open>int\<close>; the pixel index is computed in 32-bit arithmetic as in the
  source, a write outside the back buffer is \<open>None\<close>, and so is an \<^verbatim>\<open>int\<close> that overflows in the loops that draw figures. The text screen is the interface the desktop draws through:
  the locale \<open>display\<close> states what its clients rely on.
\<close>

subsection \<open>State and operations\<close>

abbreviation VGA_WIDTH :: nat where "VGA_WIDTH \<equiv> 80"
abbreviation VGA_HEIGHT :: nat where "VGA_HEIGHT \<equiv> 25"
abbreviation BACKBUFFER :: nat where "BACKBUFFER \<equiv> 786432"

record framebuffer_t =
  fb_vram :: u64
  fb_width :: u32
  fb_height :: u32
  fb_pitch :: u32
  fb_bpp :: u8

record vga_t =
  vram :: "u16 list"
  vga_current_color :: u8
  vga_cursor_x :: int
  vga_cursor_y :: int
  fb :: framebuffer_t
  backbuffer :: "u32 list"

definition vga_initialize :: "vga_t \<Rightarrow> vga_t" where
  "vga_initialize s = s\<lparr>vga_current_color := push_bit 4 0 OR 7, vga_cursor_x := 0, vga_cursor_y := 0\<rparr>"

text \<open>A character is a signed \<^verbatim>\<open>char\<close>: it is sign extended before the colour is added.\<close>

definition vga_entry :: "u8 \<Rightarrow> u8 \<Rightarrow> u16" where
  "vga_entry c color = scast c OR push_bit 8 (ucast color)"

definition vga_clear_screen :: "vga_t \<Rightarrow> vga_t" where
  "vga_clear_screen s =
     (let blank = vga_entry 0x20 (vga_current_color s) in
      s\<lparr>vram := map (\<lambda>_. blank) [0..<VGA_HEIGHT * VGA_WIDTH], vga_cursor_x := 0, vga_cursor_y := 0\<rparr>)"

definition vga_write_char :: "int \<Rightarrow> int \<Rightarrow> u8 \<Rightarrow> u8 \<Rightarrow> vga_t \<Rightarrow> vga_t" where
  "vga_write_char x y c color s =
     (if x < 0 \<or> x \<ge> int VGA_WIDTH \<or> y < 0 \<or> y \<ge> int VGA_HEIGHT then s
      else let index = nat (y * int VGA_WIDTH + x) in s\<lparr>vram := (vram s)[index := vga_entry c color]\<rparr>)"

definition vga_scroll_down :: "vga_t \<Rightarrow> vga_t" where
  "vga_scroll_down s =
     (let blank = vga_entry 0x20 (vga_current_color s) in
      s\<lparr>vram := map (\<lambda>i. if i < (VGA_HEIGHT - 1) * VGA_WIDTH then vram s ! (i + VGA_WIDTH) else blank)
                  [0..<VGA_HEIGHT * VGA_WIDTH]\<rparr>)"

definition vga_initialize_framebuffer :: "u64 \<Rightarrow> u32 \<Rightarrow> u32 \<Rightarrow> u32 \<Rightarrow> u8 \<Rightarrow> vga_t \<Rightarrow> vga_t" where
  "vga_initialize_framebuffer ptr width height pitch bpp s =
     s\<lparr>fb := \<lparr>fb_vram = ptr, fb_width = width, fb_height = height, fb_pitch = pitch, fb_bpp = bpp\<rparr>\<rparr>"

definition fb_draw_pixel :: "int \<Rightarrow> int \<Rightarrow> u32 \<Rightarrow> vga_t \<Rightarrow> vga_t option" where
  "fb_draw_pixel x y rgb s =
     (if x < 0 \<or> x \<ge> sint (fb_width (fb s)) \<or> y < 0 \<or> y \<ge> sint (fb_height (fb s)) then Some s
      else
        let index = sint (of_int y * fb_width (fb s) + of_int x) in
        if 0 \<le> index \<and> index < int BACKBUFFER then Some (s\<lparr>backbuffer := (backbuffer s)[nat index := rgb]\<rparr>) else None)"

definition fb_clear :: "u32 \<Rightarrow> vga_t \<Rightarrow> vga_t option" where
  "fb_clear rgb s =
     (let n = unat (fb_width (fb s) * fb_height (fb s)) in
      if n \<le> BACKBUFFER then Some (s\<lparr>backbuffer := replicate n rgb @ drop n (backbuffer s)\<rparr>) else None)"

text \<open>The pixels that are copied to the video memory; \<open>None\<close> when the copy reads past the back buffer.\<close>

definition fb_swap_buffers :: "vga_t \<Rightarrow> u32 list option" where
  "fb_swap_buffers s =
     (if fb_vram (fb s) = 0 then Some []
      else
        let qword_count = unat ((fb_width (fb s) * fb_height (fb s) * 4) div 8) in
        if 2 * qword_count \<le> BACKBUFFER then Some (take (2 * qword_count) (backbuffer s)) else None)"

text \<open>
  The result of an arithmetic operation on C \<^verbatim>\<open>int\<close>s: an overflow is undefined. The increments of the loops below cannot overflow when the
  bounds do not: the bound of a rectangle is one more than the last value, and \<^verbatim>\<open>r * r\<close> is evaluated in the first round.
\<close>

definition is_int32 :: "int \<Rightarrow> bool" where
  "is_int32 v \<longleftrightarrow> - (2 ^ 31) \<le> v \<and> v < 2 ^ 31"

definition int32 :: "int \<Rightarrow> int option" where
  "int32 v = (if is_int32 v then Some v else None)"

definition fb_draw_rectangle :: "int \<Rightarrow> int \<Rightarrow> int \<Rightarrow> int \<Rightarrow> u32 \<Rightarrow> vga_t \<Rightarrow> vga_t option" where
  "fb_draw_rectangle x y w h rgb s = do {
     bottom \<leftarrow> int32 (y + h);
     ofold (\<lambda>py s. do {
       right \<leftarrow> int32 (x + w);
       ofold (\<lambda>px. fb_draw_pixel px py rgb) [x..right - 1] s
     }) [y..bottom - 1] s
   }"

definition fb_draw_circle :: "int \<Rightarrow> int \<Rightarrow> int \<Rightarrow> u32 \<Rightarrow> vga_t \<Rightarrow> vga_t option" where
  "fb_draw_circle cx cy r rgb s = do {
     first \<leftarrow> int32 (- r);
     ofold (\<lambda>y. ofold (\<lambda>x s. do {
       xx \<leftarrow> int32 (x * x);
       yy \<leftarrow> int32 (y * y);
       d \<leftarrow> int32 (xx + yy);
       rr \<leftarrow> int32 (r * r);
       if d \<le> rr then do { px \<leftarrow> int32 (cx + x); py \<leftarrow> int32 (cy + y); fb_draw_pixel px py rgb s } else Some s
     }) [first..r]) [first..r] s
   }"

subsection \<open>The text screen\<close>

text \<open>What a client of the display relies on: \<open>put\<close> changes one cell, and none when it is off the screen.\<close>

type_synonym plot = "int \<times> int \<times> u8 \<times> u8"

definition on_screen :: "int \<Rightarrow> int \<Rightarrow> bool" where
  "on_screen x y \<longleftrightarrow> 0 \<le> x \<and> x < int VGA_WIDTH \<and> 0 \<le> y \<and> y < int VGA_HEIGHT"

fun plot_at :: "int \<Rightarrow> int \<Rightarrow> plot \<Rightarrow> bool" where
  "plot_at x y (px, py, c, color) \<longleftrightarrow> px = x \<and> py = y"

fun plot_entry :: "plot \<Rightarrow> u16" where
  "plot_entry (px, py, c, color) = vga_entry c color"

locale display =
  fixes put :: "plot \<Rightarrow> 'd \<Rightarrow> 'd" and cell :: "'d \<Rightarrow> int \<Rightarrow> int \<Rightarrow> u16" and invar :: "'d \<Rightarrow> bool"
  assumes put_cell: "invar d \<Longrightarrow> on_screen x y \<Longrightarrow> cell (put p d) x y = (if plot_at x y p then plot_entry p else cell d x y)"
    and put_invar: "invar d \<Longrightarrow> invar (put p d)"
begin

lemma puts_invar: "invar d \<Longrightarrow> invar (fold put ps d)"
  by (induction ps arbitrary: d) (auto simp: put_invar)

text \<open>A cell shows the last plot at its place, or is as it was.\<close>

lemma puts_cell:
  assumes "invar d" "on_screen x y"
  shows "cell (fold put ps d) x y =
           (case List.find (plot_at x y) (rev ps) of None \<Rightarrow> cell d x y | Some p \<Rightarrow> plot_entry p)"
  using assms(1)
proof (induction ps rule: rev_induct)
  case (snoc p ps)
  then show ?case using put_cell [OF puts_invar [OF snoc.prems] assms(2)] by simp
qed simp

lemma puts_other:
  assumes "invar d" "on_screen x y" "\<And>p. p \<in> set ps \<Longrightarrow> \<not> plot_at x y p"
  shows "cell (fold put ps d) x y = cell d x y"
proof -
  have "List.find (plot_at x y) (rev ps) = None" using assms(3) unfolding find_None_iff set_rev by blast
  then show ?thesis using puts_cell [OF assms(1,2)] by simp
qed

end

definition plot_char :: "plot \<Rightarrow> vga_t \<Rightarrow> vga_t" where
  "plot_char = (\<lambda>(x, y, c, color). vga_write_char x y c color)"

definition vga_cell :: "vga_t \<Rightarrow> int \<Rightarrow> int \<Rightarrow> u16" where
  "vga_cell s x y = vram s ! nat (y * int VGA_WIDTH + x)"

definition vga_inv :: "vga_t \<Rightarrow> bool" where
  "vga_inv s \<longleftrightarrow> length (vram s) = VGA_HEIGHT * VGA_WIDTH \<and> length (backbuffer s) = BACKBUFFER"

lemma cell_index:
  assumes "on_screen x y" "on_screen x' y'"
  shows "nat (y * int VGA_WIDTH + x) = nat (y' * int VGA_WIDTH + x') \<longleftrightarrow> x = x' \<and> y = y'"
    "nat (y * int VGA_WIDTH + x) < VGA_HEIGHT * VGA_WIDTH"
proof -
  have b: "0 \<le> x" "x < 80" "0 \<le> y" "y < 25" "0 \<le> x'" "x' < 80" "0 \<le> y'" "y' < 25"
    using assms by (auto simp: on_screen_def)
  have "nat (y * 80 + x) = nat (y' * 80 + x') \<longleftrightarrow> y * 80 + x = y' * 80 + x'" using b by (simp add: eq_nat_nat_iff)
  also have "\<dots> \<longleftrightarrow> x = x' \<and> y = y'"
  proof -
    have "(y * 80 + x) div 80 = y" "(y' * 80 + x') div 80 = y'" using b by simp_all
    then show ?thesis by (metis add_left_cancel)
  qed
  finally show "nat (y * int VGA_WIDTH + x) = nat (y' * int VGA_WIDTH + x') \<longleftrightarrow> x = x' \<and> y = y'" by simp
  show "nat (y * int VGA_WIDTH + x) < VGA_HEIGHT * VGA_WIDTH" using b by (simp add: nat_less_iff)
qed

interpretation screen: display plot_char vga_cell vga_inv
proof
  fix d x y and p :: plot assume inv: "vga_inv d" and on: "on_screen x y"
  obtain px py c color where p: "p = (px, py, c, color)" by (cases p)
  show "vga_cell (plot_char p d) x y = (if plot_at x y p then plot_entry p else vga_cell d x y)"
  proof (cases "on_screen px py")
    case True
    then show ?thesis
      using cell_index [OF True on] cell_index(2) [OF on] inv
      by (auto simp: p plot_char_def vga_write_char_def vga_cell_def vga_inv_def on_screen_def Let_def nth_list_update)
  next
    case False
    then have "plot_char p d = d" by (auto simp: p plot_char_def vga_write_char_def on_screen_def)
    then show ?thesis using False on p by auto
  qed
next
  fix d p assume "vga_inv d"
  then show "vga_inv (plot_char p d)" by (cases p) (simp add: plot_char_def vga_write_char_def vga_inv_def Let_def)
qed

text \<open>
  Drawing through \<open>vga_write_char\<close> changes only the addressed cell and only when it is on the screen: after any
  sequence of writes each of the 80 by 25 cells holds the last character and colour written to it, or what it held before,
  and no write leaves the video memory.
\<close>

theorem vga_write_char_cells:
  assumes "vga_inv s" and "on_screen x y"
  shows "vga_cell (fold plot_char ps s) x y =
           (case List.find (plot_at x y) (rev ps) of None \<Rightarrow> vga_cell s x y | Some p \<Rightarrow> plot_entry p) \<and>
         vga_inv (fold plot_char ps s)"
  using screen.puts_cell [OF assms] screen.puts_invar [OF assms(1)] by simp

lemma vga_scroll_cell:
  "on_screen x y \<Longrightarrow> vga_cell (vga_scroll_down s) x y =
     (if y < 24 then vga_cell s x (y + 1) else vga_entry 0x20 (vga_current_color s))"
proof -
  assume on: "on_screen x y"
  then have i: "nat (y * 80 + x) < 2000" "nat ((y + 1) * 80 + x) = nat (y * 80 + x) + 80" "nat (y * 80 + x) < 1920 \<longleftrightarrow> y < 24"
    using cell_index(2) [OF on on] by (auto simp: on_screen_def nat_add_distrib nat_less_iff algebra_simps)
  then show ?thesis by (simp add: vga_scroll_down_def vga_cell_def Let_def nth_append del: upt_rec_numeral)
qed

subsection \<open>Text and boxes\<close>

text \<open>
  The desktop writes text with loops \<^verbatim>\<open>for (p = str; *p && tx < lim; p++, tx++)\<close> and draws frames with the loops of
  \<^verbatim>\<open>draw_box\<close> in \<^verbatim>\<open>app_launcher.c\<close>, which the control center and the window manager repeat.
  A C string is the list of its characters before the terminator.
\<close>

definition text_plots :: "int \<Rightarrow> int \<Rightarrow> int \<Rightarrow> u8 \<Rightarrow> string \<Rightarrow> plot list" where
  "text_plots tx lim y color str =
     map (\<lambda>(i, c). (tx + int i, y, of_char c, color)) (enumerate 0 (take (nat (lim - tx)) str))"

definition box_plots :: "int \<Rightarrow> int \<Rightarrow> int \<Rightarrow> int \<Rightarrow> u8 \<Rightarrow> plot list" where
  "box_plots x y w h color =
     [(x, y, of_char CHR ''+'', color), (x + w - 1, y, of_char CHR ''+'', color),
      (x, y + h - 1, of_char CHR ''+'', color), (x + w - 1, y + h - 1, of_char CHR ''+'', color)] @
     concat (map (\<lambda>i. [(x + i, y, of_char CHR ''-'', color), (x + i, y + h - 1, of_char CHR ''-'', color)]) [1..w - 2]) @
     concat (map (\<lambda>i. [(x, y + i, of_char CHR ''|'', color), (x + w - 1, y + i, of_char CHR ''|'', color)]) [1..h - 2])"

fun plot_in :: "int \<Rightarrow> int \<Rightarrow> int \<Rightarrow> int \<Rightarrow> plot \<Rightarrow> bool" where
  "plot_in x0 y0 x1 y1 (x, y, c, color) \<longleftrightarrow> x0 \<le> x \<and> x < x1 \<and> y0 \<le> y \<and> y < y1"

definition plots_within :: "int \<Rightarrow> int \<Rightarrow> int \<Rightarrow> int \<Rightarrow> plot list \<Rightarrow> bool" where
  "plots_within x0 y0 x1 y1 ps \<longleftrightarrow> (\<forall>p \<in> set ps. plot_in x0 y0 x1 y1 p)"

lemma plots_within_Nil [simp]: "plots_within a b c d []"
  by (simp add: plots_within_def)

lemma plots_within_Cons [simp]:
  "plots_within x0 y0 x1 y1 ((x, y, c, color) # ps) \<longleftrightarrow>
     x0 \<le> x \<and> x < x1 \<and> y0 \<le> y \<and> y < y1 \<and> plots_within x0 y0 x1 y1 ps"
  by (auto simp: plots_within_def)

lemma plots_within_append [simp]:
  "plots_within a b c d (ps @ qs) \<longleftrightarrow> plots_within a b c d ps \<and> plots_within a b c d qs"
  by (auto simp: plots_within_def)

lemma plots_within_concat [simp]:
  "plots_within a b c d (concat pss) \<longleftrightarrow> (\<forall>ps \<in> set pss. plots_within a b c d ps)"
  by (auto simp: plots_within_def)

lemma text_plots_within:
  "x0 \<le> tx \<Longrightarrow> lim \<le> x1 \<Longrightarrow> y0 \<le> y \<Longrightarrow> y < y1 \<Longrightarrow> plots_within x0 y0 x1 y1 (text_plots tx lim y color str)"
  by (auto simp: plots_within_def text_plots_def in_set_enumerate_eq)

lemma box_plots_within: "0 < w \<Longrightarrow> 0 < h \<Longrightarrow> plots_within x y (x + w) (y + h) (box_plots x y w h color)"
  by (auto simp: box_plots_def)

lemma plots_within_other:
  assumes "plots_within x0 y0 x1 y1 ps" "vga_inv s" "on_screen x y" "\<not> (x0 \<le> x \<and> x < x1 \<and> y0 \<le> y \<and> y < y1)"
  shows "vga_cell (fold plot_char ps s) x y = vga_cell s x y"
proof (rule screen.puts_other [OF assms(2,3)])
  fix p assume "p \<in> set ps"
  then have "plot_in x0 y0 x1 y1 p" using assms(1) unfolding plots_within_def by blast
  then show "\<not> plot_at x y p" using assms(4) by (cases p) auto
qed

subsection \<open>The framebuffer\<close>

text \<open>A framebuffer that fits the back buffer, which is what \<^verbatim>\<open>fb_draw_pixel\<close> needs to stay inside it.\<close>

definition fb_fits :: "vga_t \<Rightarrow> bool" where
  "fb_fits s \<longleftrightarrow> vga_inv s \<and> 0 < unat (fb_width (fb s)) \<and> 0 < unat (fb_height (fb s)) \<and>
     unat (fb_width (fb s)) * unat (fb_height (fb s)) \<le> BACKBUFFER"

definition in_frame :: "vga_t \<Rightarrow> int \<Rightarrow> int \<Rightarrow> bool" where
  "in_frame s x y \<longleftrightarrow> 0 \<le> x \<and> x < uint (fb_width (fb s)) \<and> 0 \<le> y \<and> y < uint (fb_height (fb s))"

definition pixel :: "vga_t \<Rightarrow> int \<Rightarrow> int \<Rightarrow> u32" where
  "pixel s x y = backbuffer s ! nat (y * uint (fb_width (fb s)) + x)"

definition set_pixel :: "u32 \<Rightarrow> int \<times> int \<Rightarrow> vga_t \<Rightarrow> vga_t" where
  "set_pixel rgb = (\<lambda>(x, y) s. if in_frame s x y
     then s\<lparr>backbuffer := (backbuffer s)[nat (y * uint (fb_width (fb s)) + x) := rgb]\<rparr> else s)"

lemma fb_fits_dims:
  assumes "fb_fits s"
  shows "sint (fb_width (fb s)) = uint (fb_width (fb s))" "sint (fb_height (fb s)) = uint (fb_height (fb s))"
    "uint (fb_width (fb s)) * uint (fb_height (fb s)) \<le> int BACKBUFFER"
proof -
  let ?w = "unat (fb_width (fb s))" and ?h = "unat (fb_height (fb s))"
  have p: "0 < ?w" "0 < ?h" "?w * ?h \<le> BACKBUFFER" using assms unfolding fb_fits_def by blast+
  have "?w * 1 \<le> ?w * ?h" "1 * ?h \<le> ?w * ?h" using p by (intro mult_le_mono; simp)+
  then have "?w \<le> BACKBUFFER" "?h \<le> BACKBUFFER" using p(3) by linarith+
  moreover have "int n < 2 ^ 31" if "n \<le> BACKBUFFER" for n using that by simp
  ultimately have small: "uint (fb_width (fb s)) < 2 ^ 31" "uint (fb_height (fb s)) < 2 ^ 31"
    unfolding uint_nat by blast+
  have sint: "sint v = uint v" if "uint v < 2 ^ 31" for v :: u32
  proof -
    have "- (2 ^ 31) \<le> uint v" by (rule order_trans [of _ 0]) simp_all
    then show ?thesis using that signed_take_bit_int_eq_self [of 31 "uint v"] by (simp add: sint_uint)
  qed
  show "sint (fb_width (fb s)) = uint (fb_width (fb s))" "sint (fb_height (fb s)) = uint (fb_height (fb s))"
    using sint small by blast+
  show "uint (fb_width (fb s)) * uint (fb_height (fb s)) \<le> int BACKBUFFER"
    using p(3) unfolding uint_nat of_nat_mult [symmetric] of_nat_le_iff .
qed

text \<open>In a framebuffer that fits, the 32-bit index of a pixel is its exact position and lies inside the back buffer.\<close>

lemma fb_index:
  assumes "fb_fits s" "in_frame s x y"
  shows "sint (of_int y * fb_width (fb s) + of_int x) = y * uint (fb_width (fb s)) + x"
    "0 \<le> y * uint (fb_width (fb s)) + x" "y * uint (fb_width (fb s)) + x < int BACKBUFFER"
proof -
  let ?w = "uint (fb_width (fb s))" and ?h = "uint (fb_height (fb s))"
  have b: "0 \<le> x" "x < ?w" "0 \<le> y" "y < ?h" using assms(2) by (auto simp: in_frame_def)
  show pos: "0 \<le> y * ?w + x" using b by simp
  have "y * ?w + x < (y + 1) * ?w" using b by (simp add: algebra_simps)
  also have "\<dots> \<le> ?h * ?w" using b by (intro mult_right_mono) auto
  also have "\<dots> \<le> int BACKBUFFER" using fb_fits_dims(3) [OF assms(1)] by (simp add: mult.commute)
  finally show less: "y * ?w + x < int BACKBUFFER" .
  have "of_int y * fb_width (fb s) + of_int x = (of_int (y * ?w + x) :: u32)" by simp
  then have "sint (of_int y * fb_width (fb s) + of_int x) = signed_take_bit 31 (y * ?w + x)"
    by (simp only: signed_of_int) simp
  also have "\<dots> = y * ?w + x" using pos less by (intro signed_take_bit_int_eq_self) auto
  finally show "sint (of_int y * fb_width (fb s) + of_int x) = y * ?w + x" .
qed

lemma fb_draw_pixel_set:
  assumes "fb_fits s"
  shows "fb_draw_pixel x y rgb s = Some (set_pixel rgb (x, y) s)" "fb_fits (set_pixel rgb (x, y) s)"
proof -
  show "fb_draw_pixel x y rgb s = Some (set_pixel rgb (x, y) s)"
  proof (cases "in_frame s x y")
    case True
    then show ?thesis using fb_index [OF assms True] fb_fits_dims [OF assms]
      by (simp add: fb_draw_pixel_def set_pixel_def Let_def) (simp add: in_frame_def)
  next
    case False
    then show ?thesis using fb_fits_dims [OF assms]
      by (auto simp: fb_draw_pixel_def set_pixel_def in_frame_def)
  qed
  show "fb_fits (set_pixel rgb (x, y) s)" using assms by (simp add: fb_fits_def set_pixel_def vga_inv_def)
qed

lemma set_pixel_frame [simp]: "fb (set_pixel rgb p s) = fb s" "in_frame (set_pixel rgb p s) = in_frame s"
  by (cases p; simp add: set_pixel_def in_frame_def fun_eq_iff)+

lemma pixel_index_inj:
  assumes "in_frame s x y" "in_frame s x' y'"
  shows "nat (y * uint (fb_width (fb s)) + x) = nat (y' * uint (fb_width (fb s)) + x') \<longleftrightarrow> x = x' \<and> y = y'"
proof -
  let ?w = "uint (fb_width (fb s))"
  have b: "0 \<le> x" "x < ?w" "0 \<le> y" "0 \<le> x'" "x' < ?w" "0 \<le> y'" using assms by (auto simp: in_frame_def)
  then have "nat (y * ?w + x) = nat (y' * ?w + x') \<longleftrightarrow> y * ?w + x = y' * ?w + x'" by (simp add: eq_nat_nat_iff)
  moreover have "(y * ?w + x) div ?w = y" "(y' * ?w + x') div ?w = y'" using b by simp_all
  ultimately show ?thesis by (metis add_left_cancel)
qed

lemma set_pixel_pixel:
  assumes "fb_fits s" "in_frame s x y"
  shows "pixel (set_pixel rgb p s) x y = (if p = (x, y) then rgb else pixel s x y)"
proof (cases p)
  case (Pair a b)
  show ?thesis
  proof (cases "in_frame s a b")
    case True
    have "nat (y * uint (fb_width (fb s)) + x) < length (backbuffer s)"
      using fb_index(2,3) [OF assms] assms(1) by (simp add: fb_fits_def vga_inv_def nat_less_iff)
    then show ?thesis
      using pixel_index_inj [OF True assms(2)] True Pair by (auto simp: pixel_def set_pixel_def nth_list_update)
  next
    case False
    then show ?thesis using assms(2) Pair by (auto simp: set_pixel_def)
  qed
qed

lemma set_pixels:
  assumes "fb_fits s"
  shows "fb_fits (fold (set_pixel rgb) ps s) \<and> fb (fold (set_pixel rgb) ps s) = fb s \<and>
    (\<forall>x y. in_frame s x y \<longrightarrow> pixel (fold (set_pixel rgb) ps s) x y = (if (x, y) \<in> set ps then rgb else pixel s x y))"
proof (induction ps rule: rev_induct)
  case (snoc p ps)
  let ?s = "fold (set_pixel rgb) ps s"
  have "in_frame ?s = in_frame s" using snoc by (simp add: in_frame_def fun_eq_iff)
  then show ?case using snoc set_pixel_pixel [of ?s _ _ rgb p] fb_draw_pixel_set(2) [of ?s rgb] by (cases p) auto
qed (use assms in simp)

lemma fold_concat_map: "fold (\<lambda>y. fold f (pts y)) ys s = fold f (concat (map pts ys)) s"
  by (induction ys arbitrary: s) simp_all

text \<open>Two nested loops that set the pixels \<open>pts y x\<close> in their innermost body.\<close>

lemma draw_loops:
  assumes "\<And>x y s. x \<in> set xs \<Longrightarrow> y \<in> set ys \<Longrightarrow> fb_fits s \<Longrightarrow> body y x s = Some (fold (set_pixel rgb) (pts y x) s)" "fb_fits s"
  shows "ofold (\<lambda>y. ofold (body y) xs) ys s =
    Some (fold (set_pixel rgb) (concat (map (\<lambda>y. concat (map (pts y) xs)) ys)) s)"
proof -
  have row: "ofold (body y) xs s = Some (fold (set_pixel rgb) (concat (map (pts y) xs)) s) \<and>
      fb_fits (fold (set_pixel rgb) (concat (map (pts y) xs)) s)" if "fb_fits s" "y \<in> set ys" for y s
    using ofold_Some [of xs fb_fits "body y" "\<lambda>x. fold (set_pixel rgb) (pts y x)" s] assms(1) set_pixels that
    by (simp add: fold_concat_map)
  then show ?thesis
    using ofold_Some [of ys fb_fits "\<lambda>y. ofold (body y) xs" "\<lambda>y. fold (set_pixel rgb) (concat (map (pts y) xs))" s] assms(2)
    by (simp add: fold_concat_map)
qed

lemma square_in_range: "\<bar>v\<bar> \<le> \<bar>r\<bar> \<Longrightarrow> v * v \<le> r * r" for v r :: int
  using abs_le_square_iff [of v r] by (simp add: power2_eq_square)

lemma draw_circle_loops:
  assumes "fb_fits s" "2 * r\<^sup>2 < 2 ^ 31 \<and> is_int32 (x - r) \<and> is_int32 (x + r) \<and> is_int32 (y - r) \<and> is_int32 (y + r)"
  shows "fb_draw_circle x y r rgb s = Some (fold (set_pixel rgb)
    (concat (map (\<lambda>dy. concat (map (\<lambda>dx. if dx * dx + dy * dy \<le> r * r then [(x + dx, y + dy)] else []) [- r..r])) [- r..r])) s)"
proof -
  have sq: "2 * (r * r) < 2 ^ 31" using assms(2) by (simp add: power2_eq_square)
  have r: "int32 (r * r) = Some (r * r)" "int32 (- r) = Some (- r)"
  proof -
    have "\<bar>r\<bar> \<le> r * r" using mult_left_mono [of 1 "\<bar>r\<bar>" "\<bar>r\<bar>"] by (cases "r = 0") (simp_all add: abs_mult_self_eq)
    then show "int32 (r * r) = Some (r * r)" "int32 (- r) = Some (- r)" using sq zero_le_square [of r] by (auto simp: int32_def is_int32_def)
  qed
  have loops: "int32 (v * v) = Some (v * v)" "int32 (v * v + u * u) = Some (v * v + u * u)" "int32 (x + v) = Some (x + v)" "int32 (y + v) = Some (y + v)"
    if "v \<in> set [- r..r]" "u \<in> set [- r..r]" for u v
  proof -
    have "v * v \<le> r * r" "u * u \<le> r * r" using that by (auto intro!: square_in_range)
    then have "is_int32 (v * v)" "is_int32 (v * v + u * u)"
      unfolding is_int32_def using sq zero_le_square [of u] zero_le_square [of v] by linarith+
    then show "int32 (v * v) = Some (v * v)" "int32 (v * v + u * u) = Some (v * v + u * u)" by (simp_all add: int32_def)
    show "int32 (x + v) = Some (x + v)" "int32 (y + v) = Some (y + v)" using that assms(2) by (auto simp: int32_def is_int32_def)
  qed
  show ?thesis
    unfolding fb_draw_circle_def r(2) Option.bind.simps
    by (rule draw_loops [OF _ assms(1)]) (simp add: loops r(1) fb_draw_pixel_set del: set_upto)
qed

text \<open>
  C39: In a framebuffer that fits the back buffer, and as long as the corners of the figure and the squares of its radius are in the range of an \<^verbatim>\<open>int\<close>, filling a
  rectangle or a disc never leaves the buffer and sets exactly the pixels of the figure that are on the screen; all others keep their colour.
\<close>

theorem fb_figures_correct:
  assumes "fb_fits s"
  shows "(is_int32 (x + w) \<and> is_int32 (y + h) \<longrightarrow>
          (\<exists>s'. fb_draw_rectangle x y w h rgb s = Some s' \<and>
           (\<forall>a b. in_frame s a b \<longrightarrow> pixel s' a b = (if x \<le> a \<and> a < x + w \<and> y \<le> b \<and> b < y + h then rgb else pixel s a b)))) \<and>
         (2 * r\<^sup>2 < 2 ^ 31 \<and> is_int32 (x - r) \<and> is_int32 (x + r) \<and> is_int32 (y - r) \<and> is_int32 (y + r) \<longrightarrow>
          (\<exists>s'. fb_draw_circle x y r rgb s = Some s' \<and>
           (\<forall>a b. in_frame s a b \<longrightarrow>
              pixel s' a b = (if (a - x)\<^sup>2 + (b - y)\<^sup>2 \<le> r\<^sup>2 \<and> \<bar>a - x\<bar> \<le> r then rgb else pixel s a b))))"
proof (intro conjI impI)
  assume range: "is_int32 (x + w) \<and> is_int32 (y + h)"
  let ?rect = "concat (map (\<lambda>py. concat (map (\<lambda>px. [(px, py)]) [x..x + w - 1])) [y..y + h - 1])"
  have "fb_draw_rectangle x y w h rgb s = Some (fold (set_pixel rgb) ?rect s)"
    using range draw_loops [where body = "\<lambda>py px. fb_draw_pixel px py rgb" and pts = "\<lambda>py px. [(px, py)]", OF _ assms]
    by (simp add: fb_draw_rectangle_def int32_def fb_draw_pixel_set)
  moreover have "(a, b) \<in> set ?rect \<longleftrightarrow> x \<le> a \<and> a < x + w \<and> y \<le> b \<and> b < y + h" for a b
    by (auto intro!: bexI [of _ b])
  ultimately show "\<exists>s'. fb_draw_rectangle x y w h rgb s = Some s' \<and>
      (\<forall>a b. in_frame s a b \<longrightarrow> pixel s' a b = (if x \<le> a \<and> a < x + w \<and> y \<le> b \<and> b < y + h then rgb else pixel s a b))"
    using set_pixels [OF assms, of rgb ?rect] by simp
next
  assume range: "2 * r\<^sup>2 < 2 ^ 31 \<and> is_int32 (x - r) \<and> is_int32 (x + r) \<and> is_int32 (y - r) \<and> is_int32 (y + r)"
  let ?disc = "concat (map (\<lambda>dy. concat (map (\<lambda>dx. if dx * dx + dy * dy \<le> r * r then [(x + dx, y + dy)] else []) [- r..r])) [- r..r])"
  have "fb_draw_circle x y r rgb s = Some (fold (set_pixel rgb) ?disc s)"
    by (rule draw_circle_loops [OF assms range])
  moreover have "(a, b) \<in> set ?disc \<longleftrightarrow> (a - x)\<^sup>2 + (b - y)\<^sup>2 \<le> r\<^sup>2 \<and> \<bar>a - x\<bar> \<le> r" for a b
  proof -
    have "(a, b) \<in> set ?disc \<longleftrightarrow>
        (\<exists>dy \<in> {- r..r}. \<exists>dx \<in> {- r..r}. dx * dx + dy * dy \<le> r * r \<and> a = x + dx \<and> b = y + dy)"
      by (auto split: if_splits)
    also have "\<dots> \<longleftrightarrow> (a - x)\<^sup>2 + (b - y)\<^sup>2 \<le> r\<^sup>2 \<and> - r \<le> a - x \<and> a - x \<le> r \<and> - r \<le> b - y \<and> b - y \<le> r"
      by (auto simp: power2_eq_square) (rule bexI [of _ "b - y"], rule bexI [of _ "a - x"], auto)
    finally have "(a, b) \<in> set ?disc \<longleftrightarrow>
        (a - x)\<^sup>2 + (b - y)\<^sup>2 \<le> r\<^sup>2 \<and> - r \<le> a - x \<and> a - x \<le> r \<and> - r \<le> b - y \<and> b - y \<le> r" .
    moreover have "- r \<le> b - y \<and> b - y \<le> r" if "(a - x)\<^sup>2 + (b - y)\<^sup>2 \<le> r\<^sup>2" "\<bar>a - x\<bar> \<le> r"
    proof -
      have "(b - y)\<^sup>2 \<le> r\<^sup>2" using that(1) zero_le_power2 [of "a - x"] by linarith
      then have "\<bar>b - y\<bar> \<le> \<bar>r\<bar>" by (simp add: abs_le_square_iff)
      then show ?thesis using that(2) by linarith
    qed
    ultimately show ?thesis by auto
  qed
  ultimately show "\<exists>s'. fb_draw_circle x y r rgb s = Some s' \<and>
      (\<forall>a b. in_frame s a b \<longrightarrow>
         pixel s' a b = (if (a - x)\<^sup>2 + (b - y)\<^sup>2 \<le> r\<^sup>2 \<and> \<bar>a - x\<bar> \<le> r then rgb else pixel s a b))"
    using set_pixels [OF assms, of rgb ?disc] by simp
qed

subsection \<open>Witnesses\<close>

definition vga_example :: vga_t where
  "vga_example = \<lparr>vram = replicate (VGA_HEIGHT * VGA_WIDTH) 0, vga_current_color = 7, vga_cursor_x = 0, vga_cursor_y = 0,
     fb = \<lparr>fb_vram = 0xE0000000, fb_width = 640, fb_height = 480, fb_pitch = 2560, fb_bpp = 32\<rparr>,
     backbuffer = replicate BACKBUFFER 0\<rparr>"

lemma vga_example_fits: "vga_inv vga_example" "fb_fits vga_example"
  by (simp_all add: vga_inv_def fb_fits_def vga_example_def)

theorem vga_write_char_cells_witness:
  "vga_cell (fold plot_char [(3, 4, 0x41, 0x0F), (90, 4, 0x42, 0x0F)] vga_example) 3 4 = 0x0F41"
  using vga_write_char_cells [OF vga_example_fits(1), of 3 4 "[(3, 4, 0x41, 0x0F), (90, 4, 0x42, 0x0F)]"]
  by (simp add: on_screen_def vga_entry_def)

theorem fb_figures_correct_witness:
  "\<exists>s'. fb_draw_rectangle 630 10 20 5 0xFF vga_example = Some s' \<and> pixel s' 635 12 = 0xFF"
proof -
  have "in_frame vga_example 635 12" by (simp add: in_frame_def vga_example_def)
  then show ?thesis using fb_figures_correct [OF vga_example_fits(2), of 630 20 10 5 "0xFF" 0] by (auto simp: is_int32_def)
qed

end
