(* ===== verification/Overlays.thy ===== *)
theory Overlays
  imports Vga
begin

text \<open>
  The two overlays of the desktop: the notification center of \<^verbatim>\<open>notifications.c\<close> and the control center of
  \<^verbatim>\<open>control_center.c\<close>. Both draw through the text screen only; a rendering function is the list of its writes.
\<close>

subsection \<open>Notifications\<close>

record notification_t =
  title :: string
  message :: string
  priority :: int
  timestamp :: u32
  active :: bool

abbreviation MAX_NOTIFICATIONS :: nat where "MAX_NOTIFICATIONS \<equiv> 16"

record notifications_t =
  notifications :: "notification_t list"
  notification_count :: nat
  display_y :: int
  notification_center_visible :: bool

definition notifications_static :: notifications_t where
  "notifications_static = \<lparr>notifications = replicate MAX_NOTIFICATIONS
     \<lparr>title = '''', message = '''', priority = 0, timestamp = 0, active = False\<rparr>,
     notification_count = 0, display_y = 2, notification_center_visible = False\<rparr>"

definition notification_center_initialize :: "notifications_t \<Rightarrow> notifications_t" where
  "notification_center_initialize s =
     s\<lparr>notifications := map (\<lambda>n. n\<lparr>active := False\<rparr>) (notifications s), notification_count := 0,
       notification_center_visible := False\<rparr>"

definition notification_center_toggle :: "notifications_t \<Rightarrow> notifications_t" where
  "notification_center_toggle s = s\<lparr>notification_center_visible := \<not> notification_center_visible s\<rparr>"

definition notification_post :: "string \<Rightarrow> string \<Rightarrow> int \<Rightarrow> notifications_t \<Rightarrow> notifications_t" where
  "notification_post t m p s =
     (if notification_count s \<ge> MAX_NOTIFICATIONS then s
      else s\<lparr>notifications := (notifications s)[notification_count s :=
               (notifications s ! notification_count s)\<lparr>title := t, message := m, priority := p, timestamp := 0, active := True\<rparr>],
             notification_count := notification_count s + 1\<rparr>)"

definition notification_plots :: "int \<Rightarrow> notification_t \<Rightarrow> plot list" where
  "notification_plots render_y n =
     (let color = (if priority n > 1 then 0x0C else 0x0F) in
      [(75, render_y, of_char CHR ''+'', color), (76, render_y, of_char CHR ''-'', color),
       (77, render_y, of_char CHR ''-'', color), (78, render_y, of_char CHR ''+'', color)] @
      text_plots 76 78 render_y color (title n) @
      [(75, render_y + 1, of_char CHR ''|'', color)] @ text_plots 76 78 (render_y + 1) 0x07 (message n) @
      [(78, render_y + 1, of_char CHR ''|'', color),
       (75, render_y + 2, of_char CHR ''+'', color), (76, render_y + 2, of_char CHR ''-'', color),
       (77, render_y + 2, of_char CHR ''-'', color), (78, render_y + 2, of_char CHR ''+'', color)])"

text \<open>The loop, on the notifications from index \<open>i\<close> on.\<close>

fun render_notifications :: "int \<Rightarrow> notification_t list \<Rightarrow> plot list" where
  "render_notifications render_y [] = []"
| "render_notifications render_y (n # ns) =
     (if render_y < 22
      then if \<not> active n then render_notifications render_y ns
           else notification_plots render_y n @ render_notifications (render_y + 4) ns
      else [])"

definition notification_center_render :: "notifications_t \<Rightarrow> vga_t \<Rightarrow> vga_t" where
  "notification_center_render s v =
     (if \<not> notification_center_visible s then v
      else fold plot_char (render_notifications (display_y s) (take (notification_count s) (notifications s))) v)"

subsection \<open>Control center\<close>

definition control_center_initialize :: "bool \<Rightarrow> bool" where
  "control_center_initialize visible = False"

definition control_center_toggle :: "bool \<Rightarrow> bool" where
  "control_center_toggle visible = (\<not> visible)"

definition control_center_items :: "string list" where
  "control_center_items = [''WiFi:     [ON]'', ''Bluetooth:[OFF]'', ''Airplane: [OFF]'', ''Brightness: 80%'',
     ''Volume:   65%'', ''Battery:  85%'']"

definition control_center_plots :: "plot list" where
  "control_center_plots =
     box_plots 50 2 28 14 0x0F @ text_plots 52 (50 + 28 - 2) 2 0x1F ''Control Center'' @
     concat (map (\<lambda>i. if int i + 4 < 2 + 14 - 1 then text_plots 52 (50 + 28 - 1) (int i + 4) 0x0F (control_center_items ! i) else []) [0..<6])"

definition control_center_render :: "bool \<Rightarrow> vga_t \<Rightarrow> vga_t" where
  "control_center_render visible v = (if \<not> visible then v else fold plot_char control_center_plots v)"

subsection \<open>Properties\<close>

definition notifications_inv :: "notifications_t \<Rightarrow> bool" where
  "notifications_inv s \<longleftrightarrow> length (notifications s) = MAX_NOTIFICATIONS \<and> notification_count s \<le> MAX_NOTIFICATIONS"

definition posted :: "notifications_t \<Rightarrow> (string \<times> string \<times> int) list" where
  "posted s = map (\<lambda>n. (title n, message n, priority n)) (take (notification_count s) (notifications s))"

lemma notification_post_step:
  assumes "notifications_inv s"
  shows "notifications_inv (notification_post t m p s) \<and>
    posted (notification_post t m p s) = (if length (posted s) < MAX_NOTIFICATIONS then posted s @ [(t, m, p)] else posted s)"
proof -
  have len: "length (posted s) = notification_count s" using assms by (simp add: posted_def notifications_inv_def)
  show ?thesis
  proof (cases "notification_count s < 16")
    case True
    then have "take (Suc (notification_count s)) (notifications (notification_post t m p s)) =
        take (notification_count s) (notifications s) @
          [(notifications s ! notification_count s)\<lparr>title := t, message := m, priority := p, timestamp := 0, active := True\<rparr>]"
      using assms by (simp add: notification_post_def notifications_inv_def take_Suc_conv_app_nth)
    then show ?thesis using assms True len
      by (simp add: posted_def) (simp add: notification_post_def notifications_inv_def)
  next
    case False
    then show ?thesis using assms len by (simp add: notification_post_def)
  qed
qed

text \<open>
  The notification center keeps the first 16 notifications ever posted, in order, and drops every later one: nothing
  but a new initialisation makes room.
\<close>

theorem notifications_keep_first:
  assumes "length (notifications s0) = MAX_NOTIFICATIONS"
  shows "posted (fold (\<lambda>(t, m, p). notification_post t m p) ns (notification_center_initialize s0)) = take MAX_NOTIFICATIONS ns"
proof -
  let ?s = "notification_center_initialize s0"
  have init: "notifications_inv ?s" "posted ?s = []"
    using assms by (simp_all add: notifications_inv_def notification_center_initialize_def posted_def)
  have "notifications_inv (fold (\<lambda>(t, m, p). notification_post t m p) ns ?s) \<and>
      posted (fold (\<lambda>(t, m, p). notification_post t m p) ns ?s) = take MAX_NOTIFICATIONS ns"
  proof (induction ns rule: rev_induct)
    case (snoc n ns)
    obtain t m p where n: "n = (t, m, p)" by (cases n)
    show ?case using notification_post_step [of _ t m p] snoc by (auto simp: n take_Suc_conv_app_nth not_less min_def)
  qed (use init in simp)
  then show ?thesis by simp
qed

lemma render_within: "2 \<le> y \<Longrightarrow> plots_within 75 2 79 24 (render_notifications y ns)"
proof (induction y ns rule: render_notifications.induct)
  case (2 y n ns)
  then show ?case by (auto simp: notification_plots_def Let_def intro!: text_plots_within)
qed simp

lemma control_center_within: "plots_within 50 2 78 16 control_center_plots"
proof -
  have "plots_within 50 2 78 16 (box_plots 50 2 28 14 0x0F)" using box_plots_within [of 28 14 50 2 "0x0F"] by simp
  then show ?thesis by (auto simp: control_center_plots_def intro!: text_plots_within)
qed

text \<open>
  The overlays stay in their places. The notification center changes only the columns 75 to 78 of the rows 2 to 23 and the
  control center only the 28 by 14 cells at column 50 and row 2; hidden, they change nothing.
\<close>

theorem overlays_stay_in_place:
  assumes "vga_inv v" and "on_screen x y" and "display_y s = 2"
  shows "(\<not> notification_center_visible s \<or> \<not> (75 \<le> x \<and> x < 79 \<and> 2 \<le> y \<and> y < 24) \<longrightarrow>
            vga_cell (notification_center_render s v) x y = vga_cell v x y) \<and>
         (\<not> visible \<or> \<not> (50 \<le> x \<and> x < 78 \<and> 2 \<le> y \<and> y < 16) \<longrightarrow>
            vga_cell (control_center_render visible v) x y = vga_cell v x y)"
  using plots_within_other [OF render_within assms(1,2)] plots_within_other [OF control_center_within assms(1,2)] assms(3)
  by (auto simp: notification_center_render_def control_center_render_def)

theorem notifications_keep_first_witness:
  "posted (fold (\<lambda>(t, m, p). notification_post t m p) (replicate 20 (''t'', ''m'', 0))
     (notification_center_initialize notifications_static)) = replicate 16 (''t'', ''m'', 0)"
  using notifications_keep_first [of notifications_static "replicate 20 (''t'', ''m'', 0)"] by (simp add: notifications_static_def)

theorem overlays_stay_in_place_witness:
  "vga_cell (control_center_render True vga_example) 10 10 = vga_cell vga_example 10 10"
  using overlays_stay_in_place [OF vga_example_fits(1), of 10 10 notifications_static True]
  by (simp add: on_screen_def notifications_static_def)

end
