(* ===== verification/Clipboard.thy ===== *)
theory Clipboard
  imports Prelude
begin

text \<open>
  The clipboard of \<^verbatim>\<open>clipboard.c\<close>: a buffer of 512 bytes and the number in use. Its reader in \<^verbatim>\<open>services.c\<close> gets a pointer
  to the buffer and reads a C string from it.
\<close>

subsection \<open>State and operations\<close>

abbreviation CLIPBOARD_SIZE :: nat where "CLIPBOARD_SIZE \<equiv> 512"

record clipboard_t =
  clipboard_buffer :: "u8 list"
  clipboard_used :: nat

definition clipboard_static :: clipboard_t where
  "clipboard_static = \<lparr>clipboard_buffer = replicate CLIPBOARD_SIZE 0, clipboard_used = 0\<rparr>"

definition clipboard_initialize :: "clipboard_t \<Rightarrow> clipboard_t" where
  "clipboard_initialize s = s\<lparr>clipboard_used := 0\<rparr>"

text \<open>\<open>data\<close> is \<open>None\<close> for \<^verbatim>\<open>NULL\<close>; the result is \<open>None\<close> when the loop reads past the end of the caller's data.\<close>

definition clipboard_copy :: "u8 list option \<Rightarrow> nat \<Rightarrow> clipboard_t \<Rightarrow> clipboard_t option" where
  "clipboard_copy data sz s =
     (case data of
        None \<Rightarrow> Some s
      | Some bytes \<Rightarrow>
          if sz = 0 \<or> sz > CLIPBOARD_SIZE then Some s
          else map_option (\<lambda>s'. s'\<lparr>clipboard_used := sz\<rparr>)
                 (ofold (\<lambda>i s. if i < length bytes
                               then Some (s\<lparr>clipboard_buffer := (clipboard_buffer s)[i := bytes ! i]\<rparr>) else None)
                    [0..<sz] s))"

definition clipboard_paste :: "clipboard_t \<Rightarrow> u8 list option" where
  "clipboard_paste s = (if clipboard_used s = 0 then None else Some (clipboard_buffer s))"

definition clipboard_clear :: "clipboard_t \<Rightarrow> clipboard_t" where
  "clipboard_clear s = s\<lparr>clipboard_used := 0\<rparr>"

subsection \<open>Properties\<close>

definition clipboard_inv :: "clipboard_t \<Rightarrow> bool" where
  "clipboard_inv s \<longleftrightarrow> length (clipboard_buffer s) = CLIPBOARD_SIZE \<and> clipboard_used s \<le> CLIPBOARD_SIZE"

lemma copy_loop:
  assumes "n \<le> length bytes" "n \<le> length (clipboard_buffer s)"
  shows "ofold (\<lambda>i s. if i < length bytes
                      then Some (s\<lparr>clipboard_buffer := (clipboard_buffer s)[i := bytes ! i]\<rparr>) else None) [0..<n] s =
    Some (s\<lparr>clipboard_buffer := take n bytes @ drop n (clipboard_buffer s)\<rparr>)"
  using assms
proof (induction n)
  case (Suc n)
  then have "(take n bytes @ drop n (clipboard_buffer s))[n := bytes ! n] =
      take (Suc n) bytes @ drop (Suc n) (clipboard_buffer s)"
    by (simp add: list_update_append take_Suc_conv_app_nth upd_conv_take_nth_drop Cons_nth_drop_Suc [symmetric])
  then show ?case using Suc by (simp add: ofold_append)
qed simp

text \<open>The bytes a reader of the returned pointer sees as a C string.\<close>

definition c_string :: "u8 list \<Rightarrow> u8 list" where
  "c_string b = takeWhile (\<lambda>c. c \<noteq> 0) b"

lemma c_string_append: "0 \<notin> set xs \<Longrightarrow> c_string (xs @ ys) = xs @ c_string ys"
  unfolding c_string_def by (induction xs) auto

text \<open>
  Copying up to 512 bytes of the caller's data stores exactly those bytes at the front of the buffer and records their number;
  the rest of the buffer keeps its old contents and no terminator is written, so what a reader gets as a string is the new
  data followed by the tail of older, longer data. A copy of nothing or of too much changes nothing.
\<close>

theorem clipboard_copy_paste:
  assumes "clipboard_inv s" and "sz \<le> length bytes"
  shows "\<exists>s'. clipboard_copy (Some bytes) sz s = Some s' \<and> clipboard_inv s' \<and>
    (if 0 < sz \<and> sz \<le> CLIPBOARD_SIZE
     then clipboard_paste s' = Some (take sz bytes @ drop sz (clipboard_buffer s)) \<and>
          (0 \<notin> set (take sz bytes) \<longrightarrow>
             c_string (the (clipboard_paste s')) = take sz bytes @ c_string (drop sz (clipboard_buffer s)))
     else s' = s)"
proof (cases "0 < sz \<and> sz \<le> CLIPBOARD_SIZE")
  case True
  have "sz \<le> length (clipboard_buffer s)" using True assms(1) by (simp add: clipboard_inv_def)
  from copy_loop [OF assms(2) this] show ?thesis
    using True assms
    by (auto simp: clipboard_copy_def clipboard_paste_def clipboard_inv_def c_string_append)
next
  case False
  then have "clipboard_copy (Some bytes) sz s = Some s" by (auto simp: clipboard_copy_def)
  then show ?thesis using assms False by auto
qed

lemma clipboard_clear_paste: "clipboard_paste (clipboard_clear s) = None" "clipboard_paste (clipboard_initialize s) = None"
  by (simp_all add: clipboard_paste_def clipboard_clear_def clipboard_initialize_def)

lemma clipboard_null: "clipboard_copy None sz s = Some s"
  by (simp add: clipboard_copy_def)

theorem clipboard_copy_paste_witness:
  "\<exists>s'. clipboard_copy (Some (map of_char ''hi'')) 2
          (clipboard_static\<lparr>clipboard_buffer := map of_char ''hello'' @ replicate 507 0, clipboard_used := 5\<rparr>) = Some s' \<and>
        c_string (the (clipboard_paste s')) = map of_char ''hillo''"
proof -
  let ?s = "clipboard_static\<lparr>clipboard_buffer := map of_char ''hello'' @ replicate 507 0, clipboard_used := 5\<rparr>"
  have "clipboard_inv ?s" by (simp add: clipboard_inv_def)
  from clipboard_copy_paste [OF this, of 2 "map of_char ''hi''"] show ?thesis by (auto simp: c_string_def)
qed

end
