(* ===== verification/Window_Manager.thy ===== *)
theory Window_Manager
  imports Vga "HOL-Library.Multiset"
begin

text \<open>
  The window manager of \<^verbatim>\<open>window_manager.c\<close>: up to eight windows with a z-order, the raise, lower and focus operations, and
  rendering by the painter's algorithm. A title is \<open>None\<close> for \<^verbatim>\<open>NULL\<close>.
\<close>

subsection \<open>State and operations\<close>

abbreviation MAX_WINDOWS :: nat where "MAX_WINDOWS \<equiv> 8"

record window_t =
  win_id :: int
  win_x :: int
  win_y :: int
  win_width :: int
  win_height :: int
  win_title :: "string option"
  z_order :: int
  win_active :: bool
  minimized :: bool
  focused :: bool

record wm_t =
  windows :: "window_t list"
  window_count :: nat
  next_window_id :: int
  focused_window :: int

definition wm_static :: wm_t where
  "wm_static = \<lparr>windows = replicate MAX_WINDOWS \<lparr>win_id = 0, win_x = 0, win_y = 0, win_width = 0, win_height = 0,
       win_title = None, z_order = 0, win_active = False, minimized = False, focused = False\<rparr>,
     window_count = 0, next_window_id = 1, focused_window = - 1\<rparr>"

definition window_manager_initialize :: "wm_t \<Rightarrow> wm_t" where
  "window_manager_initialize s = s\<lparr>window_count := 0, next_window_id := 1, focused_window := - 1\<rparr>"

definition window_manager_create_window :: "int \<Rightarrow> int \<Rightarrow> int \<Rightarrow> int \<Rightarrow> string option \<Rightarrow> wm_t \<Rightarrow> wm_t" where
  "window_manager_create_window x y width height ttl s =
     (if window_count s \<ge> MAX_WINDOWS then s
      else s\<lparr>windows := (windows s)[window_count s :=
               \<lparr>win_id = next_window_id s, win_x = x, win_y = y, win_width = width, win_height = height, win_title = ttl,
                z_order = int (window_count s), win_active = True, minimized = False, focused = (focused_window s = - 1)\<rparr>],
             next_window_id := next_window_id s + 1,
             focused_window := (if focused_window s = - 1 then int (window_count s) else focused_window s),
             window_count := window_count s + 1\<rparr>)"

text \<open>The search by id that the three operations below start with.\<close>

definition find_window :: "int \<Rightarrow> wm_t \<Rightarrow> nat option" where
  "find_window window_id s = first_idx (\<lambda>w. win_id w = window_id) (take (window_count s) (windows s))"

definition window_manager_set_focus :: "int \<Rightarrow> wm_t \<Rightarrow> wm_t" where
  "window_manager_set_focus window_id s =
     (case find_window window_id s of
        None \<Rightarrow> s
      | Some i \<Rightarrow> s\<lparr>focused_window := int i,
          windows := (windows s)[i := (windows s ! i)\<lparr>focused := True, z_order := int (window_count s) - 1\<rparr>]\<rparr>)"

text \<open>The loop over all windows; it never changes window \<open>i\<close> itself, so the z-order it compares with is fixed.\<close>

definition map_windows :: "(window_t \<Rightarrow> window_t) \<Rightarrow> wm_t \<Rightarrow> wm_t" where
  "map_windows f s = s\<lparr>windows := map f (take (window_count s) (windows s)) @ drop (window_count s) (windows s)\<rparr>"

definition window_manager_raise_window :: "int \<Rightarrow> wm_t \<Rightarrow> wm_t" where
  "window_manager_raise_window window_id s =
     (case find_window window_id s of
        None \<Rightarrow> s
      | Some i \<Rightarrow>
          let z = z_order (windows s ! i);
              s1 = map_windows (\<lambda>w. if z_order w > z then w\<lparr>z_order := z_order w - 1\<rparr> else w) s
          in s1\<lparr>windows := (windows s1)[i := (windows s1 ! i)\<lparr>z_order := int (window_count s) - 1\<rparr>], focused_window := int i\<rparr>)"

definition window_manager_lower_window :: "int \<Rightarrow> wm_t \<Rightarrow> wm_t" where
  "window_manager_lower_window window_id s =
     (case find_window window_id s of
        None \<Rightarrow> s
      | Some i \<Rightarrow>
          let z = z_order (windows s ! i);
              s1 = map_windows (\<lambda>w. if z_order w < z then w\<lparr>z_order := z_order w + 1\<rparr> else w) s
          in s1\<lparr>windows := (windows s1)[i := (windows s1 ! i)\<lparr>z_order := 0\<rparr>]\<rparr>)"

text \<open>
  The exchange sort of \<^verbatim>\<open>window_manager_render\<close>. \<open>exchange_pass w vs\<close> is the inner loop: \<open>w\<close> is the element at the outer index and \<open>vs\<close>
  those at the inner ones; each that is lower is exchanged with the element at the outer index.
\<close>

fun exchange_pass :: "window_t \<Rightarrow> window_t list \<Rightarrow> window_t \<times> window_t list" where
  "exchange_pass w [] = (w, [])"
| "exchange_pass w (v # vs) =
     (if z_order w > z_order v
      then let (m, rest) = exchange_pass v vs in (m, w # rest)
      else let (m, rest) = exchange_pass w vs in (m, v # rest))"

lemma exchange_pass_length [simp]: "length (snd (exchange_pass w vs)) = length vs"
  by (induction w vs rule: exchange_pass.induct) (auto split: prod.splits)

function exchange_sort :: "window_t list \<Rightarrow> window_t list" where
  "exchange_sort [] = []"
| "exchange_sort (w # vs) = (let (m, rest) = exchange_pass w vs in m # exchange_sort rest)"
  by pat_completeness auto

termination
proof (relation "measure length")
  fix w vs x m rest assume "x = exchange_pass w vs" "(m, rest) = x"
  then have "rest = snd (exchange_pass w vs)" by (metis snd_conv)
  then show "(rest, w # vs) \<in> measure length" by simp
qed simp

definition window_plots :: "window_t \<Rightarrow> plot list" where
  "window_plots w =
     (if \<not> win_active w \<or> minimized w then []
      else
        let frame_color = (if focused w then 0x1F else 0x0F) in
        box_plots (win_x w) (win_y w) (win_width w) (win_height w) frame_color @
        (case win_title w of None \<Rightarrow> []
         | Some t \<Rightarrow> text_plots (win_x w + 2) (win_x w + win_width w - 2) (win_y w) 0x1F t) @
        concat (map (\<lambda>row. map (\<lambda>col. (col, row, 0x20, 0x07)) [win_x w + 1..win_x w + win_width w - 2])
                 [win_y w + 1..win_y w + win_height w - 2]))"

definition window_manager_render :: "wm_t \<Rightarrow> vga_t \<Rightarrow> vga_t" where
  "window_manager_render s v =
     fold (\<lambda>w v. fold plot_char (window_plots w) v) (exchange_sort (take (window_count s) (windows s))) v"

subsection \<open>The z-order is a permutation\<close>

abbreviation live_windows :: "wm_t \<Rightarrow> window_t list" where
  "live_windows s \<equiv> take (window_count s) (windows s)"

definition z_orders :: "wm_t \<Rightarrow> int list" where
  "z_orders s = map z_order (live_windows s)"

definition wm_inv :: "wm_t \<Rightarrow> bool" where
  "wm_inv s \<longleftrightarrow> length (windows s) = MAX_WINDOWS \<and> window_count s \<le> MAX_WINDOWS \<and>
     next_window_id s = int (window_count s) + 1 \<and> (\<forall>i < window_count s. win_id (windows s ! i) = int i + 1) \<and>
     set (z_orders s) = {0..<int (window_count s)}"

lemma wm_inv_length: "wm_inv s \<Longrightarrow> length (live_windows s) = window_count s"
  by (simp add: wm_inv_def)

lemma wm_inv_distinct: "wm_inv s \<Longrightarrow> distinct (z_orders s)"
  by (rule card_distinct) (simp add: wm_inv_def z_orders_def)

lemma find_window_iff:
  assumes "wm_inv s"
  shows "find_window wid s = (if 1 \<le> wid \<and> wid \<le> int (window_count s) then Some (nat (wid - 1)) else None)"
proof (cases "1 \<le> wid \<and> wid \<le> int (window_count s)")
  case True
  have id: "win_id (live_windows s ! j) = int j + 1" if "j < window_count s" for j
    using assms that by (simp add: wm_inv_def)
  have "find_window wid s = Some (nat (wid - 1))" unfolding find_window_def
  proof (rule first_idx_SomeI)
    fix j assume "j < nat (wid - 1)"
    then have "j < window_count s" "int j + 1 \<noteq> wid" using True by linarith+
    then show "\<not> win_id (live_windows s ! j) = wid" using id [of j] by simp
  qed (use True id [of "nat (wid - 1)"] assms in \<open>auto simp: wm_inv_def\<close>)
  then show ?thesis using True by simp
next
  case False
  have "find_window wid s = None" unfolding find_window_def first_idx_None_iff
  proof (rule ballI)
    fix w assume "w \<in> set (live_windows s)"
    then obtain i where "i < window_count s" "w = windows s ! i" by (auto simp: in_set_conv_nth)
    then show "\<not> win_id w = wid" using assms False by (auto simp: wm_inv_def)
  qed
  then show ?thesis using False by simp
qed

text \<open>An injective map of the z-orders into themselves keeps them a permutation.\<close>

lemma permuted_inv:
  assumes inv: "wm_inv s"
    and same: "window_count s' = window_count s" "length (windows s') = length (windows s)" "next_window_id s' = next_window_id s"
      "\<And>j. j < window_count s \<Longrightarrow> win_id (windows s' ! j) = win_id (windows s ! j)"
    and z: "\<And>j. j < window_count s \<Longrightarrow> z_order (windows s' ! j) = g (z_order (windows s ! j))"
    and g: "\<And>a. 0 \<le> a \<Longrightarrow> a < int (window_count s) \<Longrightarrow> 0 \<le> g a \<and> g a < int (window_count s)"
    and inj: "inj_on g {0..<int (window_count s)}"
  shows "wm_inv s'"
proof -
  have "z_orders s' = map g (z_orders s)"
    using z same inv by (intro nth_equalityI) (auto simp: z_orders_def wm_inv_def)
  then have "set (z_orders s') = g ` {0..<int (window_count s)}" using inv by (simp add: wm_inv_def)
  also have "\<dots> = {0..<int (window_count s)}" using g inj by (intro endo_inj_surj) auto
  finally show ?thesis using inv same by (simp add: wm_inv_def)
qed

lemma map_windows_sel [simp]:
  "window_count (map_windows f s) = window_count s" "next_window_id (map_windows f s) = next_window_id s"
  "focused_window (map_windows f s) = focused_window s" "length (windows (map_windows f s)) = length (windows s)"
  by (simp_all add: map_windows_def)

lemma map_windows_nth: "wm_inv s \<Longrightarrow> j < window_count s \<Longrightarrow> windows (map_windows f s) ! j = f (windows s ! j)"
  by (simp add: map_windows_def nth_append wm_inv_def)

lemma z_order_range:
  assumes "wm_inv s" "j < window_count s"
  shows "0 \<le> z_order (windows s ! j) \<and> z_order (windows s ! j) < int (window_count s)"
proof -
  have "z_order (windows s ! j) \<in> set (z_orders s)"
    using assms nth_mem [of j "z_orders s"] by (simp add: z_orders_def wm_inv_def)
  then show ?thesis using assms(1) by (simp add: wm_inv_def)
qed

lemma z_order_inj:
  assumes "wm_inv s" "i < window_count s" "j < window_count s" "z_order (windows s ! i) = z_order (windows s ! j)"
  shows "i = j"
proof -
  have "z_orders s ! i = z_orders s ! j" "length (z_orders s) = window_count s"
    using assms by (simp_all add: z_orders_def wm_inv_def)
  then show ?thesis using wm_inv_distinct [OF assms(1)] assms(2,3) by (simp add: nth_eq_iff_index_eq)
qed

lemma create_window_inv:
  assumes "wm_inv s"
  shows "wm_inv (window_manager_create_window x y w h t s)"
proof (cases "window_count s < 8")
  case True
  let ?s' = "window_manager_create_window x y w h t s"
  have "z_orders ?s' = z_orders s @ [int (window_count s)]"
    using True assms by (simp add: z_orders_def window_manager_create_window_def take_Suc_conv_app_nth wm_inv_def)
  then have "set (z_orders ?s') = {0..<int (window_count s) + 1}" using assms by (auto simp: wm_inv_def)
  then show ?thesis using True assms
    by (auto simp: wm_inv_def window_manager_create_window_def nth_list_update less_Suc_eq)
next
  case False
  then show ?thesis using assms by (simp add: window_manager_create_window_def)
qed

text \<open>The z-orders after raising or lowering the window at \<open>i\<close>.\<close>

lemma raise_window_eq:
  assumes "wm_inv s" "i < window_count s"
  defines "s' \<equiv> window_manager_raise_window (int i + 1) s"
  shows "wm_inv s'" "window_count s' = window_count s" "j < window_count s \<Longrightarrow>
      windows s' ! j = (windows s ! j)\<lparr>z_order := (if j = i then int (window_count s) - 1
        else if z_order (windows s ! j) > z_order (windows s ! i) then z_order (windows s ! j) - 1 else z_order (windows s ! j))\<rparr>"
proof -
  have find: "find_window (int i + 1) s = Some i" using assms(2) by (simp add: find_window_iff [OF assms(1)])
  have len: "length (windows s) = 8" "window_count s \<le> 8" using assms(1) by (simp_all add: wm_inv_def)
  show nth: "windows s' ! j = (windows s ! j)\<lparr>z_order := (if j = i then int (window_count s) - 1
      else if z_order (windows s ! j) > z_order (windows s ! i) then z_order (windows s ! j) - 1 else z_order (windows s ! j))\<rparr>"
    if "j < window_count s" for j
    using that len assms(2) map_windows_nth [OF assms(1) that] map_windows_nth [OF assms(1,2)]
    by (auto simp: s'_def window_manager_raise_window_def find Let_def nth_list_update)
  show count: "window_count s' = window_count s" by (simp add: s'_def window_manager_raise_window_def find Let_def)
  let ?zi = "z_order (windows s ! i)" and ?n = "int (window_count s)"
  let ?g = "\<lambda>a. if a = ?zi then ?n - 1 else if a > ?zi then a - 1 else a"
  show "wm_inv s'"
  proof (rule permuted_inv [OF assms(1) count, where g = ?g])
    show "inj_on ?g {0..<?n}" using z_order_range [OF assms(1,2)] by (auto simp: inj_on_def split: if_splits)
    show "z_order (windows s' ! j) = ?g (z_order (windows s ! j))" if "j < window_count s" for j
      using nth [OF that] z_order_inj [OF assms(1,2) that] by auto
    show "0 \<le> ?g a \<and> ?g a < ?n" if "0 \<le> a" "a < ?n" for a
      using that z_order_range [OF assms(1,2)] by auto
  qed (use nth in \<open>auto simp: s'_def window_manager_raise_window_def find Let_def\<close>)
qed

lemma lower_window_eq:
  assumes "wm_inv s" "i < window_count s"
  defines "s' \<equiv> window_manager_lower_window (int i + 1) s"
  shows "wm_inv s'" "window_count s' = window_count s" "j < window_count s \<Longrightarrow>
      windows s' ! j = (windows s ! j)\<lparr>z_order := (if j = i then 0
        else if z_order (windows s ! j) < z_order (windows s ! i) then z_order (windows s ! j) + 1 else z_order (windows s ! j))\<rparr>"
proof -
  have find: "find_window (int i + 1) s = Some i" using assms(2) by (simp add: find_window_iff [OF assms(1)])
  have len: "length (windows s) = 8" "window_count s \<le> 8" using assms(1) by (simp_all add: wm_inv_def)
  show nth: "windows s' ! j = (windows s ! j)\<lparr>z_order := (if j = i then 0
      else if z_order (windows s ! j) < z_order (windows s ! i) then z_order (windows s ! j) + 1 else z_order (windows s ! j))\<rparr>"
    if "j < window_count s" for j
    using that len assms(2) map_windows_nth [OF assms(1) that] map_windows_nth [OF assms(1,2)]
    by (auto simp: s'_def window_manager_lower_window_def find Let_def nth_list_update)
  show count: "window_count s' = window_count s" by (simp add: s'_def window_manager_lower_window_def find Let_def)
  let ?zi = "z_order (windows s ! i)" and ?n = "int (window_count s)"
  let ?g = "\<lambda>a. if a = ?zi then 0 else if a < ?zi then a + 1 else a"
  show "wm_inv s'"
  proof (rule permuted_inv [OF assms(1) count, where g = ?g])
    show "inj_on ?g {0..<?n}" using z_order_range [OF assms(1,2)] by (auto simp: inj_on_def split: if_splits)
    show "z_order (windows s' ! j) = ?g (z_order (windows s ! j))" if "j < window_count s" for j
      using nth [OF that] z_order_inj [OF assms(1,2) that] by auto
    show "0 \<le> ?g a \<and> ?g a < ?n" if "0 \<le> a" "a < ?n" for a
      using that z_order_range [OF assms(1,2)] by auto
  qed (use nth in \<open>auto simp: s'_def window_manager_lower_window_def find Let_def\<close>)
qed

subsection \<open>Sorting and painting\<close>

lemma exchange_pass_spec:
  "exchange_pass w vs = (m, rest) \<Longrightarrow>
     add_mset m (mset rest) = add_mset w (mset vs) \<and> (\<forall>v \<in> set (w # vs). z_order m \<le> z_order v)"
proof (induction w vs arbitrary: m rest rule: exchange_pass.induct)
  case (2 w v vs)
  show ?case
  proof (cases "z_order w > z_order v")
    case True
    obtain rest' where r: "exchange_pass v vs = (m, rest')" "rest = w # rest'"
      using 2(3) True by (auto split: prod.splits)
    show ?thesis using 2(1) [OF True r(1)] r(2) True by (auto simp: add_mset_commute)
  next
    case False
    obtain rest' where r: "exchange_pass w vs = (m, rest')" "rest = v # rest'"
      using 2(3) False by (auto split: prod.splits)
    show ?thesis using 2(2) [OF False r(1)] r(2) False by (auto simp: add_mset_commute)
  qed
qed simp

lemma exchange_sort_spec: "mset (exchange_sort ws) = mset ws \<and> sorted (map z_order (exchange_sort ws))"
proof (induction ws rule: exchange_sort.induct)
  case (2 w vs)
  obtain m rest where p: "exchange_pass w vs = (m, rest)" by (cases "exchange_pass w vs")
  note spec = exchange_pass_spec [OF p]
  have IH: "mset (exchange_sort rest) = mset rest" "sorted (map z_order (exchange_sort rest))"
    using 2 [OF p [symmetric] refl] by auto
  have "set (exchange_sort rest) = set rest" using IH(1) by (rule mset_eq_setD)
  moreover have "set rest \<subseteq> set (w # vs)" using spec by (metis list.set_intros(2) mset.simps(2) set_mset_mset subsetI)
  ultimately show ?case using spec IH p by auto
qed simp

text \<open>
  C33: Raising and lowering a window keep the z-orders a permutation of 0 to n - 1. The raised window is on top, the lowered one at the
  bottom, and any two other windows keep their order. An unknown id changes nothing.
\<close>

theorem raise_lower_windows:
  assumes "wm_inv s"
  shows "wm_inv (window_manager_raise_window wid s) \<and> wm_inv (window_manager_lower_window wid s) \<and>
    (if 1 \<le> wid \<and> wid \<le> int (window_count s)
     then (let up = windows (window_manager_raise_window wid s); down = windows (window_manager_lower_window wid s) in
       z_order (up ! nat (wid - 1)) = int (window_count s) - 1 \<and> z_order (down ! nat (wid - 1)) = 0 \<and>
       (\<forall>j < window_count s. \<forall>k < window_count s. j \<noteq> nat (wid - 1) \<and> k \<noteq> nat (wid - 1) \<longrightarrow>
          (z_order (up ! j) < z_order (up ! k) \<longleftrightarrow> z_order (windows s ! j) < z_order (windows s ! k)) \<and>
          (z_order (down ! j) < z_order (down ! k) \<longleftrightarrow> z_order (windows s ! j) < z_order (windows s ! k))))
     else window_manager_raise_window wid s = s \<and> window_manager_lower_window wid s = s)"
proof (cases "1 \<le> wid \<and> wid \<le> int (window_count s)")
  case True
  then obtain i where i: "i < window_count s" "wid = int i + 1" "nat (wid - 1) = i"
    by (intro that [of "nat (wid - 1)"]) auto
  note up = raise_window_eq [OF assms i(1), folded i(2)] and down = lower_window_eq [OF assms i(1), folded i(2)]
  have "z_order (windows s ! j) \<noteq> z_order (windows s ! i)" if "j < window_count s" "j \<noteq> i" for j
    using z_order_inj [OF assms that(1) i(1)] that(2) by blast
  then have ne: "z_order (windows s ! j) < z_order (windows s ! i) \<or> z_order (windows s ! j) > z_order (windows s ! i)"
    if "j < window_count s" "j \<noteq> i" for j using that by (metis linorder_neqE)
  have "(z_order (windows (window_manager_raise_window wid s) ! j) < z_order (windows (window_manager_raise_window wid s) ! k) \<longleftrightarrow>
       z_order (windows s ! j) < z_order (windows s ! k)) \<and>
      (z_order (windows (window_manager_lower_window wid s) ! j) < z_order (windows (window_manager_lower_window wid s) ! k) \<longleftrightarrow>
       z_order (windows s ! j) < z_order (windows s ! k))"
    if "j < window_count s" "k < window_count s" "j \<noteq> i" "k \<noteq> i" for j k
    using ne [OF that(1,3)] ne [OF that(2,4)] up(3) [OF that(1)] up(3) [OF that(2)] down(3) [OF that(1)] down(3) [OF that(2)] that(3,4)
    by auto
  then show ?thesis using up down True i(1,3) by (simp add: Let_def)
next
  case False
  then have "find_window wid s = None" by (auto simp: find_window_iff [OF assms])
  then show ?thesis using assms False
    by (auto simp: window_manager_raise_window_def window_manager_lower_window_def)
qed

text \<open>
  Focusing a window damages the window state. \<open>window_manager_set_focus\<close> gives the window the top z-order without moving the others,
  so when another window was on top two windows share it (raising keeps it unique); and it never clears the mark of the window that had the focus, so both
  are drawn as focused.
\<close>

theorem set_focus_breaks_order:
  assumes "wm_inv s" and "i < window_count s" and "z_order (windows s ! i) \<noteq> int (window_count s) - 1"
  shows "\<not> wm_inv (window_manager_set_focus (int i + 1) s) \<and>
         (\<exists>j < window_count s. j \<noteq> i \<and>
            z_order (windows (window_manager_set_focus (int i + 1) s) ! j) = z_order (windows (window_manager_set_focus (int i + 1) s) ! i)) \<and>
         (\<forall>j. j \<noteq> i \<longrightarrow> focused (windows (window_manager_set_focus (int i + 1) s) ! j) = focused (windows s ! j))"
proof -
  let ?s' = "window_manager_set_focus (int i + 1) s"
  have find: "find_window (int i + 1) s = Some i" using assms(2) by (simp add: find_window_iff [OF assms(1)])
  have nth: "windows ?s' ! j = (if j = i then (windows s ! i)\<lparr>focused := True, z_order := int (window_count s) - 1\<rparr> else windows s ! j)" for j
    using assms(1,2) by (simp add: window_manager_set_focus_def find wm_inv_def nth_list_update)
  have "int (window_count s) - 1 \<in> set (z_orders s)" using assms(1,2) by (simp add: wm_inv_def)
  then obtain j where "j < length (z_orders s)" "z_orders s ! j = int (window_count s) - 1"
    unfolding in_set_conv_nth by blast
  then have j: "j < window_count s" "z_order (windows s ! j) = int (window_count s) - 1"
    using assms(1) by (simp_all add: z_orders_def wm_inv_def)
  then have ne: "j \<noteq> i" using assms(3) by auto
  have same: "z_order (windows ?s' ! j) = z_order (windows ?s' ! i)" using j ne by (simp add: nth)
  have count: "window_count ?s' = window_count s" by (simp add: window_manager_set_focus_def find)
  have "\<not> wm_inv ?s'" using z_order_inj [of ?s' j i] j(1) assms(2) same ne count by auto
  then show ?thesis using j(1) ne same by (auto simp: nth)
qed

definition covers :: "window_t \<Rightarrow> int \<Rightarrow> int \<Rightarrow> bool" where
  "covers w x y \<longleftrightarrow> win_active w \<and> \<not> minimized w \<and> win_x w \<le> x \<and> x < win_x w + win_width w \<and> win_y w \<le> y \<and> y < win_y w + win_height w"

lemma window_plots_within:
  assumes "0 < win_width w" "0 < win_height w"
  shows "plots_within (win_x w) (win_y w) (win_x w + win_width w) (win_y w + win_height w) (window_plots w)"
proof -
  have "plots_within (win_x w) (win_y w) (win_x w + win_width w) (win_y w + win_height w)
      (text_plots (win_x w + 2) (win_x w + win_width w - 2) (win_y w) 0x1F t)" for t
    using assms by (intro text_plots_within) auto
  moreover have "plots_within (win_x w) (win_y w) (win_x w + win_width w) (win_y w + win_height w)
      (concat (map (\<lambda>row. map (\<lambda>col. (col, row, 0x20, 0x07)) [win_x w + 1..win_x w + win_width w - 2])
                 [win_y w + 1..win_y w + win_height w - 2]))"
    by (auto simp: plots_within_def)
  ultimately show ?thesis
    using box_plots_within [OF assms] by (simp add: window_plots_def Let_def split: option.split)
qed

text \<open>Drawing a window writes every cell it covers.\<close>

lemma window_plots_cover:
  assumes "covers w x y"
  shows "\<exists>p \<in> set (window_plots w). plot_at x y p"
proof -
  let ?c = "if focused w then 0x1F else 0x0F :: u8"
  let ?box = "set (box_plots (win_x w) (win_y w) (win_width w) (win_height w) ?c)"
  have sub: "?box \<subseteq> set (window_plots w)" using assms by (auto simp: covers_def window_plots_def Let_def)
  have b: "win_x w \<le> x" "x < win_x w + win_width w" "win_y w \<le> y" "y < win_y w + win_height w"
    using assms by (auto simp: covers_def)
  consider (corner) "x = win_x w \<or> x = win_x w + win_width w - 1" "y = win_y w \<or> y = win_y w + win_height w - 1"
    | (vert) "x = win_x w \<or> x = win_x w + win_width w - 1" "win_y w < y" "y < win_y w + win_height w - 1"
    | (horiz) "win_x w < x" "x < win_x w + win_width w - 1" "y = win_y w \<or> y = win_y w + win_height w - 1"
    | (inner) "win_x w < x" "x < win_x w + win_width w - 1" "win_y w < y" "y < win_y w + win_height w - 1"
    using b by linarith
  then show ?thesis
  proof cases
    case corner
    then have "(x, y, of_char CHR ''+'', ?c) \<in> ?box" by (auto simp: box_plots_def)
    then show ?thesis using sub by (intro bexI [of _ "(x, y, of_char CHR ''+'', ?c)"]) auto
  next
    case vert
    then have "(x, y, of_char CHR ''|'', ?c) \<in> ?box" unfolding box_plots_def
      by (auto intro!: bexI [of _ "y - win_y w"])
    then show ?thesis using sub by (intro bexI [of _ "(x, y, of_char CHR ''|'', ?c)"]) auto
  next
    case horiz
    then have "(x, y, of_char CHR ''-'', ?c) \<in> ?box" unfolding box_plots_def
      by (auto intro!: bexI [of _ "x - win_x w"])
    then show ?thesis using sub by (intro bexI [of _ "(x, y, of_char CHR ''-'', ?c)"]) auto
  next
    case inner
    then have "(x, y, 0x20, 0x07) \<in> set (window_plots w)"
      using assms unfolding window_plots_def Let_def covers_def by (auto intro!: bexI [of _ y])
    then show ?thesis by (intro bexI [of _ "(x, y, 0x20, 0x07)"]) auto
  qed
qed

text \<open>What a window shows at a cell it covers.\<close>

definition window_cell :: "window_t \<Rightarrow> int \<Rightarrow> int \<Rightarrow> u16" where
  "window_cell w x y = plot_entry (the (List.find (plot_at x y) (rev (window_plots w))))"

lemma render_concat: "window_manager_render s v = fold plot_char (concat (map window_plots (exchange_sort (live_windows s)))) v"
  unfolding window_manager_render_def by (rule fold_concat_map)

lemma window_not_covering:
  assumes "0 < win_width w" "0 < win_height w" "\<not> covers w x y"
  shows "List.find (plot_at x y) (rev (window_plots w)) = None"
proof (cases "win_active w \<and> \<not> minimized w")
  case True
  have "\<not> plot_at x y p" if "p \<in> set (window_plots w)" for p
  proof -
    have "plot_in (win_x w) (win_y w) (win_x w + win_width w) (win_y w + win_height w) p"
      using window_plots_within [OF assms(1,2)] that unfolding plots_within_def by blast
    then show ?thesis using assms(3) True by (cases p) (auto simp: covers_def)
  qed
  then show ?thesis unfolding find_None_iff set_rev by blast
next
  case False
  then have "window_plots w = []" by (auto simp: window_plots_def)
  then show ?thesis by simp
qed

text \<open>
  C27: Rendering shows the topmost window. A cell of the screen that some window covers shows what the covering window with the highest
  z-order draws there; a cell that no window covers is unchanged.
\<close>

theorem window_manager_render_topmost:
  assumes "wm_inv s" and "vga_inv v" and "on_screen x y"
    and "\<forall>w \<in> set (live_windows s). 0 < win_width w \<and> 0 < win_height w"
  shows "((\<forall>u \<in> set (live_windows s). \<not> covers u x y) \<longrightarrow> vga_cell (window_manager_render s v) x y = vga_cell v x y) \<and>
         (\<forall>w \<in> set (live_windows s). covers w x y \<and> (\<forall>u \<in> set (live_windows s). covers u x y \<longrightarrow> z_order u \<le> z_order w) \<longrightarrow>
            vga_cell (window_manager_render s v) x y = window_cell w x y)"
proof (intro conjI ballI impI)
  let ?sorted = "exchange_sort (live_windows s)"
  have set: "set ?sorted = set (live_windows s)" using exchange_sort_spec [of "live_windows s"] mset_eq_setD by blast
  have none: "List.find (plot_at x y) (rev (concat (map window_plots us))) = None"
    if "\<forall>u \<in> set us. u \<in> set (live_windows s) \<and> \<not> covers u x y" for us
    using that by (induction us rule: rev_induct) (auto simp: find_append window_not_covering assms(4))
  show "vga_cell (window_manager_render s v) x y = vga_cell v x y" if "\<forall>u \<in> set (live_windows s). \<not> covers u x y"
    using screen.puts_cell [OF assms(2,3)] none [of ?sorted] set that by (simp add: render_concat)
  fix w assume w: "w \<in> set (live_windows s)"
    and top: "covers w x y \<and> (\<forall>u \<in> set (live_windows s). covers u x y \<longrightarrow> z_order u \<le> z_order w)"
  have "w \<in> set ?sorted" using w set by simp
  then obtain us ws where sp: "?sorted = us @ w # ws" using split_list by fast
  have dz: "distinct (map z_order ?sorted)"
  proof -
    have "mset (map z_order ?sorted) = mset (z_orders s)"
      using exchange_sort_spec [of "live_windows s"] by (simp add: z_orders_def)
    then show ?thesis using wm_inv_distinct [OF assms(1)] mset_eq_imp_distinct_iff by blast
  qed
  have "\<not> covers u x y" if "u \<in> set ws" for u
  proof
    assume "covers u x y"
    moreover have "u \<in> set (live_windows s)" using that sp set by auto
    moreover have "z_order w \<le> z_order u" using exchange_sort_spec [of "live_windows s"] sp that by (auto simp: sorted_append)
    moreover have "z_order u \<noteq> z_order w" using dz sp that by (auto simp: image_iff)
    ultimately show False using top by fastforce
  qed
  then have none_ws: "List.find (plot_at x y) (rev (concat (map window_plots ws))) = None"
    using sp set by (intro none) auto
  obtain p where "p \<in> set (window_plots w)" "plot_at x y p" using window_plots_cover top by blast
  then have "List.find (plot_at x y) (rev (window_plots w)) \<noteq> None" unfolding find_None_iff set_rev by blast
  then obtain q where q: "List.find (plot_at x y) (rev (window_plots w)) = Some q" by blast
  then have "List.find (plot_at x y) (rev (concat (map window_plots ?sorted))) = Some q"
    using sp none_ws by (simp add: find_append)
  then show "vga_cell (window_manager_render s v) x y = window_cell w x y"
    using screen.puts_cell [OF assms(2,3)] q by (simp add: render_concat window_cell_def)
qed

subsection \<open>Witnesses\<close>

text \<open>Two windows, the second on top.\<close>

definition wm2 :: wm_t where
  "wm2 = window_manager_create_window 10 5 20 10 (Some ''B'')
           (window_manager_create_window 5 3 20 10 (Some ''A'') (window_manager_initialize wm_static))"

lemma wm2_inv: "wm_inv wm2"
proof -
  have "wm_inv (window_manager_initialize wm_static)" by (simp add: wm_inv_def window_manager_initialize_def wm_static_def z_orders_def)
  then show ?thesis unfolding wm2_def by (intro create_window_inv)
qed

lemma wm2_windows:
  "window_count wm2 = 2" "z_order (windows wm2 ! 0) = 0" "z_order (windows wm2 ! 1) = 1"
  "live_windows wm2 =
     [\<lparr>win_id = 1, win_x = 5, win_y = 3, win_width = 20, win_height = 10, win_title = Some ''A'', z_order = 0,
       win_active = True, minimized = False, focused = True\<rparr>,
      \<lparr>win_id = 2, win_x = 10, win_y = 5, win_width = 20, win_height = 10, win_title = Some ''B'', z_order = 1,
       win_active = True, minimized = False, focused = False\<rparr>]"
  by (simp_all add: wm2_def window_manager_create_window_def window_manager_initialize_def wm_static_def numeral_eq_Suc)

theorem raise_lower_windows_witness: "z_order (windows (window_manager_raise_window 1 wm2) ! 0) = 1"
  using raise_lower_windows [OF wm2_inv, of 1] by (simp add: wm2_windows Let_def)

theorem set_focus_breaks_order_witness: "\<not> wm_inv (window_manager_set_focus 1 wm2)"
  using set_focus_breaks_order [OF wm2_inv, of 0] by (simp add: wm2_windows)

theorem window_manager_render_topmost_witness:
  "vga_cell (window_manager_render wm2 vga_example) 12 6 = window_cell (windows wm2 ! 1) 12 6"
proof -
  have nth: "live_windows wm2 ! 1 = windows wm2 ! 1" by (simp add: wm2_windows(1))
  show ?thesis
    using window_manager_render_topmost [OF wm2_inv vga_example_fits(1), of 12 6] nth
    unfolding wm2_windows(4) by (simp add: on_screen_def covers_def)
qed

end
