(* ===== verification/File_Ops.thy ===== *)
theory File_Ops
  imports Prelude
begin

text \<open>
  The file table of \<^verbatim>\<open>file_ops.c\<close>: 64 slots that are filled in order and marked when a file is deleted. A path is a C string, \<open>None\<close>
  for \<^verbatim>\<open>NULL\<close>; the functions return 0 or -1.
\<close>

subsection \<open>State and operations\<close>

abbreviation MAX_FILES :: nat where "MAX_FILES \<equiv> 64"

record vfs_file_t =
  path :: "string option"
  is_directory :: bool
  file_size :: u32
  exists :: bool

record file_ops_t =
  file_table :: "vfs_file_t list"
  file_count :: nat

definition file_ops_static :: file_ops_t where
  "file_ops_static = \<lparr>file_table = replicate MAX_FILES \<lparr>path = None, is_directory = False, file_size = 0, exists = False\<rparr>,
     file_count = 0\<rparr>"

text \<open>The comparison loop; the strings are the characters before the terminator, which both loops reach last.\<close>

fun strings_equal_loop :: "string \<Rightarrow> string \<Rightarrow> bool" where
  "strings_equal_loop (a # as) (b # bs) = (if a \<noteq> b then False else strings_equal_loop as bs)"
| "strings_equal_loop [] [] = True"
| "strings_equal_loop _ _ = False"

definition strings_equal :: "string option \<Rightarrow> string option \<Rightarrow> bool" where
  "strings_equal a b = (case (a, b) of (Some x, Some y) \<Rightarrow> strings_equal_loop x y | _ \<Rightarrow> False)"

definition file_ops_initialize :: "file_ops_t \<Rightarrow> file_ops_t" where
  "file_ops_initialize s = s\<lparr>file_count := 0\<rparr>"

text \<open>The search loop of delete, copy and move.\<close>

definition find_file :: "string option \<Rightarrow> file_ops_t \<Rightarrow> nat option" where
  "find_file p s = first_idx (\<lambda>f. strings_equal (path f) p \<and> exists f) (take (file_count s) (file_table s))"

definition file_op_delete :: "string option \<Rightarrow> file_ops_t \<Rightarrow> int \<times> file_ops_t" where
  "file_op_delete p s =
     (if p = None then (- 1, s)
      else case find_file p s of
             Some i \<Rightarrow> (0, s\<lparr>file_table := (file_table s)[i := (file_table s ! i)\<lparr>exists := False\<rparr>]\<rparr>)
           | None \<Rightarrow> (- 1, s))"

definition add_file :: "vfs_file_t \<Rightarrow> file_ops_t \<Rightarrow> file_ops_t" where
  "add_file f s = s\<lparr>file_table := (file_table s)[file_count s := f], file_count := file_count s + 1\<rparr>"

definition file_op_copy :: "string option \<Rightarrow> string option \<Rightarrow> file_ops_t \<Rightarrow> int \<times> file_ops_t" where
  "file_op_copy src dst s =
     (if src = None \<or> dst = None then (- 1, s)
      else case find_file src s of
             Some i \<Rightarrow>
               if file_count s \<ge> MAX_FILES then (- 1, s)
               else (0, add_file \<lparr>path = dst, is_directory = is_directory (file_table s ! i),
                                  file_size = file_size (file_table s ! i), exists = True\<rparr> s)
           | None \<Rightarrow> (- 1, s))"

definition file_op_mkdir :: "string option \<Rightarrow> file_ops_t \<Rightarrow> int \<times> file_ops_t" where
  "file_op_mkdir p s =
     (if p = None \<or> file_count s \<ge> MAX_FILES then (- 1, s)
      else (0, add_file \<lparr>path = p, is_directory = True, file_size = 0, exists = True\<rparr> s))"

definition file_op_move :: "string option \<Rightarrow> string option \<Rightarrow> file_ops_t \<Rightarrow> int \<times> file_ops_t" where
  "file_op_move src dst s =
     (if src = None \<or> dst = None then (- 1, s)
      else case find_file src s of
             Some i \<Rightarrow> (0, s\<lparr>file_table := (file_table s)[i := (file_table s ! i)\<lparr>path := dst\<rparr>]\<rparr>)
           | None \<Rightarrow> (- 1, s))"

subsection \<open>The files of the table\<close>

lemma strings_equal_loop_iff: "strings_equal_loop a b \<longleftrightarrow> a = b"
  by (induction a b rule: strings_equal_loop.induct) auto

lemma strings_equal_iff [simp]: "strings_equal a (Some p) \<longleftrightarrow> a = Some p" "\<not> strings_equal a None"
  by (auto simp: strings_equal_def strings_equal_loop_iff split: option.splits)

definition file_inv :: "file_ops_t \<Rightarrow> bool" where
  "file_inv s \<longleftrightarrow> length (file_table s) = MAX_FILES \<and> file_count s \<le> MAX_FILES \<and>
     (\<forall>f \<in> set (take (file_count s) (file_table s)). path f \<noteq> None)"

text \<open>The abstract contents: path, kind and size of the existing files, in slot order.\<close>

definition file_entry :: "vfs_file_t \<Rightarrow> string \<times> bool \<times> u32" where
  "file_entry f = (the (path f), is_directory f, file_size f)"

definition files :: "file_ops_t \<Rightarrow> (string \<times> bool \<times> u32) list" where
  "files s = map file_entry (filter exists (take (file_count s) (file_table s)))"

text \<open>Splitting the table at the file an operation finds.\<close>

lemma find_file_split:
  assumes "file_inv s" "find_file (Some p) s = Some i"
  obtains xs ys where "take (file_count s) (file_table s) = xs @ file_table s ! i # ys" "length xs = i" "i < file_count s"
    "path (file_table s ! i) = Some p" "exists (file_table s ! i)"
    "\<And>f. f \<in> set xs \<Longrightarrow> \<not> (path f = Some p \<and> exists f)"
proof -
  let ?t = "take (file_count s) (file_table s)"
  have i: "i < length ?t" "path (?t ! i) = Some p" "exists (?t ! i)" "\<forall>j < i. \<not> (path (?t ! j) = Some p \<and> exists (?t ! j))"
    using first_idx_SomeD [OF assms(2) [unfolded find_file_def]] by auto
  have nth: "?t ! i = file_table s ! i" using i(1) by simp
  show thesis
  proof (rule that [of "take i ?t" "drop (Suc i) ?t"])
    show "?t = take i ?t @ file_table s ! i # drop (Suc i) ?t" using id_take_nth_drop [OF i(1)] nth by simp
    show "\<not> (path f = Some p \<and> exists f)" if "f \<in> set (take i ?t)" for f
      using that i(1,4) by (auto simp: in_set_conv_nth)
  qed (use i nth in auto)
qed

lemma find_file_None:
  "find_file (Some p) s = None \<longleftrightarrow> p \<notin> fst ` set (files s)" if "file_inv s"
proof -
  have "find_file (Some p) s = None \<longleftrightarrow> (\<forall>f \<in> set (take (file_count s) (file_table s)). \<not> (path f = Some p \<and> exists f))"
    by (simp add: find_file_def first_idx_None_iff)
  also have "\<dots> \<longleftrightarrow> p \<notin> fst ` set (files s)"
    using that by (auto simp: files_def file_entry_def file_inv_def image_iff)
  finally show ?thesis .
qed

lemma update_split:
  assumes "take n t = xs @ t ! i # ys" "length xs = i"
  shows "take n (t[i := f]) = xs @ f # ys"
proof -
  have "take n (t[i := f]) = (take n t)[i := f]" by (simp add: take_update_swap)
  then show ?thesis using assms by (simp add: list_update_append)
qed

lemma add_file_files:
  assumes "file_inv s" "file_count s < MAX_FILES" "exists f" "path f \<noteq> None"
  shows "files (add_file f s) = files s @ [file_entry f] \<and> file_inv (add_file f s)"
proof -
  have "take (Suc (file_count s)) ((file_table s)[file_count s := f]) = take (file_count s) (file_table s) @ [f]"
    using assms(1,2) by (simp add: file_inv_def take_Suc_conv_app_nth)
  then show ?thesis using assms by (auto simp: files_def add_file_def file_inv_def)
qed

subsection \<open>Refinement\<close>

text \<open>The operations on the list of existing files: all three act on the first file with the path.\<close>

fun delete_first :: "string \<Rightarrow> (string \<times> bool \<times> u32) list \<Rightarrow> (string \<times> bool \<times> u32) list" where
  "delete_first p [] = []"
| "delete_first p (e # es) = (if fst e = p then es else e # delete_first p es)"

fun rename_first :: "string \<Rightarrow> string \<Rightarrow> (string \<times> bool \<times> u32) list \<Rightarrow> (string \<times> bool \<times> u32) list" where
  "rename_first p q [] = []"
| "rename_first p q (e # es) = (if fst e = p then (q, snd e) # es else e # rename_first p q es)"

lemma first_append:
  assumes "p \<notin> fst ` set xs"
  shows "delete_first p (xs @ ys) = xs @ delete_first p ys" "rename_first p q (xs @ ys) = xs @ rename_first p q ys"
    "List.find (\<lambda>e. fst e = p) (xs @ ys) = List.find (\<lambda>e. fst e = p) ys"
  using assms by (induction xs) auto

text \<open>What replacing the found slot does to the list of files.\<close>

lemma find_file_files:
  assumes "file_inv s" "find_file (Some p) s = Some i"
  obtains es fs where "files s = es @ file_entry (file_table s ! i) # fs" "p \<notin> fst ` set es" "path (file_table s ! i) = Some p"
    "\<And>f. path f \<noteq> None \<Longrightarrow>
       file_inv (s\<lparr>file_table := (file_table s)[i := f]\<rparr>) \<and>
       files (s\<lparr>file_table := (file_table s)[i := f]\<rparr>) = es @ (if exists f then [file_entry f] else []) @ fs"
proof -
  obtain xs ys where t: "take (file_count s) (file_table s) = xs @ file_table s ! i # ys" "length xs = i" "i < file_count s"
      "path (file_table s ! i) = Some p" "exists (file_table s ! i)" "\<And>f. f \<in> set xs \<Longrightarrow> \<not> (path f = Some p \<and> exists f)"
    using find_file_split [OF assms] by blast
  have some: "path f \<noteq> None" if "f \<in> set xs \<union> set ys" for f
    using assms(1) that unfolding file_inv_def t(1) by auto
  show thesis
  proof (rule that [of "map file_entry (filter exists xs)" "map file_entry (filter exists ys)"])
    show "files s = map file_entry (filter exists xs) @ file_entry (file_table s ! i) # map file_entry (filter exists ys)"
      using t(1,5) by (simp add: files_def)
    show "p \<notin> fst ` set (map file_entry (filter exists xs))"
      using t(6) some by (auto simp: file_entry_def)
    show "path (file_table s ! i) = Some p" by (rule t(4))
    fix f :: vfs_file_t assume f: "path f \<noteq> None"
    have "take (file_count s) ((file_table s)[i := f]) = xs @ f # ys" by (rule update_split [OF t(1,2)])
    then show "file_inv (s\<lparr>file_table := (file_table s)[i := f]\<rparr>) \<and>
        files (s\<lparr>file_table := (file_table s)[i := f]\<rparr>) =
          map file_entry (filter exists xs) @ (if exists f then [file_entry f] else []) @ map file_entry (filter exists ys)"
      using assms(1) f some by (auto simp: file_inv_def files_def)
  qed
qed

lemma found_or_absent:
  assumes "file_inv s"
  obtains (absent) "find_file (Some p) s = None" "p \<notin> fst ` set (files s)"
  | (found) i es fs where "find_file (Some p) s = Some i" "p \<in> fst ` set (files s)"
      "files s = es @ file_entry (file_table s ! i) # fs" "p \<notin> fst ` set es" "path (file_table s ! i) = Some p"
      "\<And>f. path f \<noteq> None \<Longrightarrow> file_inv (s\<lparr>file_table := (file_table s)[i := f]\<rparr>) \<and>
         files (s\<lparr>file_table := (file_table s)[i := f]\<rparr>) = es @ (if exists f then [file_entry f] else []) @ fs"
proof (cases "find_file (Some p) s")
  case None
  then show thesis using absent find_file_None [OF assms, of p] by simp
next
  case (Some i)
  then have "p \<in> fst ` set (files s)" using find_file_None [OF assms, of p] by auto
  then show thesis using find_file_files [OF assms Some] found [OF Some] by metis
qed

lemma delete_refine:
  assumes "file_inv s" "file_op_delete (Some p) s = (r, s')"
  shows "file_inv s' \<and> (if p \<in> fst ` set (files s) then r = 0 \<and> files s' = delete_first p (files s) else r = - 1 \<and> s' = s)"
  using assms(1)
proof (cases rule: found_or_absent [where p = p])
  case absent
  then show ?thesis using assms by (simp add: file_op_delete_def)
next
  case (found i es fs)
  have "delete_first p (files s) = es @ fs"
    using found(3,5) first_append(1) [OF found(4)] by (simp add: file_entry_def)
  then show ?thesis
    using found(1,2,5) found(6) [of "(file_table s ! i)\<lparr>exists := False\<rparr>"] assms(2) by (auto simp: file_op_delete_def)
qed

lemma move_refine:
  assumes "file_inv s" "file_op_move (Some p) (Some q) s = (r, s')"
  shows "file_inv s' \<and> (if p \<in> fst ` set (files s) then r = 0 \<and> files s' = rename_first p q (files s) else r = - 1 \<and> s' = s)"
  using assms(1)
proof (cases rule: found_or_absent [where p = p])
  case absent
  then show ?thesis using assms by (simp add: file_op_move_def)
next
  case (found i es fs)
  have ex: "exists (file_table s ! i)"
    using first_idx_SomeD [OF found(1) [unfolded find_file_def]] by auto
  have "rename_first p q (files s) = es @ file_entry ((file_table s ! i)\<lparr>path := Some q\<rparr>) # fs"
    using found(3,5) first_append(2) [OF found(4)] by (simp add: file_entry_def)
  then show ?thesis
    using found(1,2,5) found(6) [of "(file_table s ! i)\<lparr>path := Some q\<rparr>"] assms(2) ex by (auto simp: file_op_move_def)
qed

lemma copy_refine:
  assumes "file_inv s" "file_op_copy (Some p) (Some q) s = (r, s')"
  shows "file_inv s' \<and> (if p \<in> fst ` set (files s) \<and> file_count s < MAX_FILES
     then r = 0 \<and> (\<exists>e. List.find (\<lambda>e. fst e = p) (files s) = Some e \<and> files s' = files s @ [(q, snd e)]) else r = - 1 \<and> s' = s)"
  using assms(1)
proof (cases rule: found_or_absent [where p = p])
  case absent
  then show ?thesis using assms by (simp add: file_op_copy_def)
next
  case (found i es fs)
  let ?f = "\<lparr>path = Some q, is_directory = is_directory (file_table s ! i), file_size = file_size (file_table s ! i), exists = True\<rparr>"
  have "List.find (\<lambda>e. fst e = p) (files s) = Some (file_entry (file_table s ! i))"
    using found(3,5) first_append(3) [OF found(4)] by (simp add: file_entry_def)
  then show ?thesis
    using found(1,2) assms add_file_files [OF assms(1), of ?f]
    by (cases "file_count s < 64") (auto simp: file_op_copy_def file_entry_def)
qed

lemma mkdir_refine:
  assumes "file_inv s" "file_op_mkdir (Some q) s = (r, s')"
  shows "file_inv s' \<and> (if file_count s < MAX_FILES then r = 0 \<and> files s' = files s @ [(q, True, 0)] else r = - 1 \<and> s' = s)"
  using assms add_file_files [OF assms(1), of "\<lparr>path = Some q, is_directory = True, file_size = 0, exists = True\<rparr>"]
  by (cases "file_count s < 64") (auto simp: file_op_mkdir_def file_entry_def)

text \<open>
  C35: The file operations implement a list of files. Delete and move change the first file with the given path, copy appends a file of the
  same kind and size, mkdir appends an empty directory; each returns 0 exactly when it did so and otherwise returns -1 and changes
  nothing: for a path that names no file, and for copy and mkdir when all 64 slots have been used.
\<close>

theorem file_ops_refine:
  assumes "file_inv s"
  shows "(case file_op_delete (Some p) s of (r, s') \<Rightarrow> file_inv s' \<and>
            (if p \<in> fst ` set (files s) then r = 0 \<and> files s' = delete_first p (files s) else r = - 1 \<and> s' = s)) \<and>
         (case file_op_move (Some p) (Some q) s of (r, s') \<Rightarrow> file_inv s' \<and>
            (if p \<in> fst ` set (files s) then r = 0 \<and> files s' = rename_first p q (files s) else r = - 1 \<and> s' = s)) \<and>
         (case file_op_copy (Some p) (Some q) s of (r, s') \<Rightarrow> file_inv s' \<and>
            (if p \<in> fst ` set (files s) \<and> file_count s < MAX_FILES
             then r = 0 \<and> (\<exists>e. List.find (\<lambda>e. fst e = p) (files s) = Some e \<and> files s' = files s @ [(q, snd e)])
             else r = - 1 \<and> s' = s)) \<and>
         (case file_op_mkdir (Some q) s of (r, s') \<Rightarrow> file_inv s' \<and>
            (if file_count s < MAX_FILES then r = 0 \<and> files s' = files s @ [(q, True, 0)] else r = - 1 \<and> s' = s))"
proof (intro conjI)
qed (split prod.split, intro allI impI, erule delete_refine [OF assms] move_refine [OF assms] copy_refine [OF assms] mkdir_refine [OF assms])+

datatype file_op = Delete "string option" | Copy "string option" "string option" | Mkdir "string option" | Move "string option" "string option"

fun file_step :: "file_op \<Rightarrow> file_ops_t \<Rightarrow> file_ops_t" where
  "file_step (Delete p) s = snd (file_op_delete p s)"
| "file_step (Copy p q) s = snd (file_op_copy p q s)"
| "file_step (Mkdir p) s = snd (file_op_mkdir p s)"
| "file_step (Move p q) s = snd (file_op_move p q s)"

lemma file_step_full: "file_count s = MAX_FILES \<Longrightarrow> file_count (file_step op s) = MAX_FILES"
  by (cases op) (simp_all add: file_op_delete_def file_op_copy_def file_op_mkdir_def file_op_move_def split: option.split)

text \<open>
  A deleted file's slot is never used again. Once 64 entries have been created, every later mkdir and copy fails, however many files
  are deleted in between.
\<close>

theorem file_slots_not_reused:
  assumes "file_count s = MAX_FILES"
  shows "fst (file_op_mkdir p (fold file_step ops s)) = - 1 \<and> fst (file_op_copy p q (fold file_step ops s)) = - 1"
proof -
  have "file_count (fold file_step ops s) = MAX_FILES"
    using assms by (induction ops arbitrary: s) (simp_all add: file_step_full)
  then show ?thesis by (auto simp: file_op_mkdir_def file_op_copy_def split: option.split)
qed

lemma file_ops_static_inv: "file_inv file_ops_static"
  by (simp add: file_inv_def file_ops_static_def)

theorem file_ops_refine_witness:
  "fst (file_op_mkdir (Some ''/tmp'') file_ops_static) = 0 \<and> files (snd (file_op_mkdir (Some ''/tmp'') file_ops_static)) = [(''/tmp'', True, 0)]"
  using file_ops_refine [OF file_ops_static_inv, of "''x''" "''/tmp''"]
  by (auto simp: files_def file_ops_static_def split: prod.splits)

theorem file_slots_not_reused_witness:
  "fst (file_op_mkdir (Some ''/new'')
     (fold file_step [Delete (Some ''/tmp'')] (file_ops_static\<lparr>file_count := MAX_FILES\<rparr>))) = - 1"
  using file_slots_not_reused [of "file_ops_static\<lparr>file_count := MAX_FILES\<rparr>" "Some ''/new''" "[Delete (Some ''/tmp'')]"] by simp

end
