(* ===== verification/App_Launcher.thy ===== *)
theory App_Launcher
  imports Scheduler Vga File_Ops
begin

text \<open>
  The application launcher of \<^verbatim>\<open>app_launcher.c\<close>: a registry of three applications that are started as tasks. The addresses of the
  entry functions are parameters; the string comparison is the one of \<^verbatim>\<open>file_ops.c\<close>, which the file repeats.
\<close>

subsection \<open>State and operations\<close>

abbreviation MAX_APPS :: nat where "MAX_APPS \<equiv> 16"

record app_t =
  app_name :: "string option"
  app_entry :: u64
  running :: bool
  app_pid :: u32

record launcher_t =
  app_registry :: "app_t list"
  app_count :: nat

definition launcher_static :: launcher_t where
  "launcher_static = \<lparr>app_registry = replicate MAX_APPS \<lparr>app_name = None, app_entry = 0, running = False, app_pid = 0\<rparr>, app_count = 0\<rparr>"

definition register_app :: "string \<Rightarrow> u64 \<Rightarrow> launcher_t \<Rightarrow> launcher_t" where
  "register_app name entry l =
     l\<lparr>app_registry := (app_registry l)[app_count l := \<lparr>app_name = Some name, app_entry = entry, running = False, app_pid = 0\<rparr>],
       app_count := app_count l + 1\<rparr>"

definition app_launcher_initialize :: "u64 \<Rightarrow> u64 \<Rightarrow> u64 \<Rightarrow> launcher_t \<Rightarrow> launcher_t" where
  "app_launcher_initialize file_manager_app terminal_app settings_app l =
     register_app ''Settings'' settings_app (register_app ''Terminal'' terminal_app
       (register_app ''Files'' file_manager_app (l\<lparr>app_count := 0\<rparr>)))"

text \<open>
  The loop of \<^verbatim>\<open>app_launch\<close>: when \<^verbatim>\<open>create_task\<close> fails it goes on to the next entry. The outer \<open>None\<close> is a task queue without end, which the
  scheduler's invariant excludes.
\<close>

fun launch_loop :: "u64 \<Rightarrow> u64 \<Rightarrow> string \<Rightarrow> nat list \<Rightarrow> launcher_t \<times> sched_t \<Rightarrow> (int \<times> launcher_t \<times> sched_t) option" where
  "launch_loop w ts name [] (l, s) = Some (- 1, l, s)"
| "launch_loop w ts name (i # is) (l, s) =
     (let app = app_registry l ! i in
      if strings_equal (app_name app) (Some name)
      then if running app then Some (uint (app_pid app), l, s)
           else (case create_task w ts name (app_entry app) 1 s of
                   None \<Rightarrow> None
                 | Some (Some task, s') \<Rightarrow>
                     let pid = tcb_pid (task_table s' ! task) in
                     Some (uint pid, l\<lparr>app_registry := (app_registry l)[i := app\<lparr>running := True, app_pid := pid\<rparr>]\<rparr>, s')
                 | Some (None, s') \<Rightarrow> launch_loop w ts name is (l, s'))
      else launch_loop w ts name is (l, s))"

definition app_launch :: "u64 \<Rightarrow> u64 \<Rightarrow> string option \<Rightarrow> launcher_t \<times> sched_t \<Rightarrow> (int \<times> launcher_t \<times> sched_t) option" where
  "app_launch w ts name = (\<lambda>(l, s).
     case name of None \<Rightarrow> Some (- 1, l, s) | Some n \<Rightarrow> launch_loop w ts n [0..<app_count l] (l, s))"

definition draw_box :: "int \<Rightarrow> int \<Rightarrow> int \<Rightarrow> int \<Rightarrow> vga_t \<Rightarrow> vga_t" where
  "draw_box x y width height = fold plot_char (box_plots x y width height 0x0F)"

definition app_launcher_render :: "launcher_t \<Rightarrow> vga_t \<Rightarrow> vga_t" where
  "app_launcher_render l v =
     fold plot_char
       (text_plots (4 + 2) (4 + 28 - 2) 16 0x1F ''App Launcher'' @
        concat (map (\<lambda>i. case app_name (app_registry l ! i) of None \<Rightarrow> []
                         | Some name \<Rightarrow> text_plots (4 + 2) (4 + 28 - 2) (16 + 1 + int i) 0x0F name)
                 [0..<min (app_count l) (8 - 2)]))
       (draw_box 4 16 28 8 v)"

subsection \<open>Properties\<close>

text \<open>The registry: distinct names, and a running application has the process id of a task that was created for it.\<close>

definition launcher_inv :: "launcher_t \<Rightarrow> bool" where
  "launcher_inv l \<longleftrightarrow> length (app_registry l) = MAX_APPS \<and> app_count l \<le> MAX_APPS \<and>
     (\<forall>i < app_count l. app_name (app_registry l ! i) \<noteq> None) \<and>
     (\<forall>i < app_count l. \<forall>j < app_count l. app_name (app_registry l ! i) = app_name (app_registry l ! j) \<longrightarrow> i = j)"

lemma app_launcher_initialize_inv:
  "length (app_registry l) = MAX_APPS \<Longrightarrow> launcher_inv (app_launcher_initialize f t g l) \<and> app_count (app_launcher_initialize f t g l) = 3"
  by (auto simp: launcher_inv_def app_launcher_initialize_def register_app_def less_Suc_eq numeral_3_eq_3)

lemma launch_loop_skip:
  assumes "\<And>i. i \<in> set is \<Longrightarrow> app_name (app_registry l ! i) \<noteq> Some name"
  shows "launch_loop w ts name (is @ js) (l, s) = launch_loop w ts name js (l, s)"
  using assms by (induction "is") (auto simp: Let_def)

lemma launcher_inv_update:
  assumes "launcher_inv l" "app_name a = app_name (app_registry l ! i)"
  shows "launcher_inv (l\<lparr>app_registry := (app_registry l)[i := a]\<rparr>)"
proof -
  have "app_name ((app_registry l)[i := a] ! j) = app_name (app_registry l ! j)" for j
    using assms(2) by (cases "i < length (app_registry l)"; cases "j = i") (simp_all add: list_update_beyond)
  then show ?thesis using assms(1) by (simp add: launcher_inv_def)
qed

lemma app_launch_at:
  assumes "launcher_inv l" "i < app_count l" "app_name (app_registry l ! i) = Some name"
  shows "app_launch w ts (Some name) (l, s) = launch_loop w ts name (i # [Suc i..<app_count l]) (l, s)"
proof -
  have "[0..<app_count l] = [0..<i] @ i # [Suc i..<app_count l]"
    using assms(2) upt_add_eq_append [of 0 i "app_count l - i"] by (simp add: upt_conv_Cons)
  moreover have "app_name (app_registry l ! j) \<noteq> Some name" if "j \<in> set [0..<i]" for j
    using assms that unfolding launcher_inv_def by (metis atLeastLessThan_iff less_trans nat_neq_iff set_upt)
  ultimately show ?thesis using launch_loop_skip [of "[0..<i]" l name] by (simp add: app_launch_def)
qed

text \<open>
  Launching an application that is not running creates its task at the end of the queue and returns and records its process id;
  launching it again returns the same id and creates nothing; an unknown name gives -1 and changes nothing.
\<close>

theorem app_launch_correct:
  assumes "launcher_inv l" and "sched_inv s q" and "unat (task_count s) < MAX_TASKS"
  shows "(\<forall>i < app_count l. app_name (app_registry l ! i) = Some name \<and> \<not> running (app_registry l ! i) \<longrightarrow>
      (\<exists>l' s'. app_launch w ts (Some name) (l, s) = Some (int (unat (task_count s)) + 1, l', s') \<and>
         sched_inv s' (q @ [unat (task_count s)]) \<and> launcher_inv l' \<and>
         tcb_entry (task_table s' ! unat (task_count s)) = app_entry (app_registry l ! i) \<and>
         app_launch w ts (Some name) (l', s') = Some (int (unat (task_count s)) + 1, l', s'))) \<and>
    ((\<forall>i < app_count l. app_name (app_registry l ! i) \<noteq> Some name) \<longrightarrow> app_launch w ts (Some name) (l, s) = Some (- 1, l, s))"
proof (intro conjI allI impI)
  fix i assume i: "i < app_count l" and app: "app_name (app_registry l ! i) = Some name \<and> \<not> running (app_registry l ! i)"
  let ?n = "unat (task_count s)"
  obtain s' where s': "create_task w ts name (app_entry (app_registry l ! i)) 1 s = Some (Some ?n, s')" "sched_inv s' (q @ [?n])"
      "tcb_entry (task_table s' ! ?n) = app_entry (app_registry l ! i)" "task_count s' = task_count s + 1"
    using create_task_inv [OF assms(2,3), of w ts name "app_entry (app_registry l ! i)" 1] by blast
  have "tcb_pid (task_table s' ! ?n) = of_nat ?n + 1"
    using sched_invD(6,7) [OF s'(2), of ?n] by simp
  then have pid: "uint (tcb_pid (task_table s' ! ?n)) = int ?n + 1"
    using task_count_suc [OF assms(3)] unfolding uint_nat by simp
  let ?l' = "l\<lparr>app_registry := (app_registry l)[i := (app_registry l ! i)\<lparr>running := True, app_pid := tcb_pid (task_table s' ! ?n)\<rparr>]\<rparr>"
  have first: "app_launch w ts (Some name) (l, s) = Some (int ?n + 1, ?l', s')"
    unfolding app_launch_at [OF assms(1) i app [THEN conjunct1]] using app s'(1) pid by (simp add: Let_def)
  have len: "i < length (app_registry l)" using assms(1) i by (simp add: launcher_inv_def)
  have inv': "launcher_inv ?l'" by (rule launcher_inv_update [OF assms(1)]) simp
  have "app_launch w ts (Some name) (?l', s') = Some (int ?n + 1, ?l', s')"
    using app_launch_at [OF inv', of i name w ts s'] i app len pid by (simp add: Let_def)
  then show "\<exists>l' s'. app_launch w ts (Some name) (l, s) = Some (int ?n + 1, l', s') \<and>
         sched_inv s' (q @ [?n]) \<and> launcher_inv l' \<and>
         tcb_entry (task_table s' ! ?n) = app_entry (app_registry l ! i) \<and>
         app_launch w ts (Some name) (l', s') = Some (int ?n + 1, l', s')"
    using first s' inv' by blast
next
  assume "\<forall>i < app_count l. app_name (app_registry l ! i) \<noteq> Some name"
  then show "app_launch w ts (Some name) (l, s) = Some (- 1, l, s)"
    using launch_loop_skip [of "[0..<app_count l]" l name w ts "[]" s] by (simp add: app_launch_def)
qed

text \<open>
  An application can be started only once. Its entry stays marked as running when its task ends, so a later launch
  returns the old process id, even with the task killed, and starts nothing.
\<close>

theorem app_launch_after_exit:
  assumes "launcher_inv l" and "i < app_count l" and "app_name (app_registry l ! i) = Some name" and "running (app_registry l ! i)"
    and "kill_task (app_pid (app_registry l ! i)) s = Some s'"
  shows "app_launch w ts (Some name) (l, s') = Some (uint (app_pid (app_registry l ! i)), l, s')"
  using app_launch_at [OF assms(1-3), of w ts s'] assms(3,4) by (simp add: Let_def)

definition launcher3 :: launcher_t where
  "launcher3 = app_launcher_initialize 0x5000 0x6000 0x7000 launcher_static"

lemma launcher3_inv: "launcher_inv launcher3" "app_count launcher3 = 3"
  using app_launcher_initialize_inv [of launcher_static] by (simp_all add: launcher3_def launcher_static_def)

theorem app_launch_correct_witness:
  "\<exists>l' s'. app_launch 0x1000 0x800000 (Some ''Terminal'') (launcher3, sched2) = Some (3, l', s') \<and> sched_inv s' [0, 1, 2]"
proof -
  have "app_name (app_registry launcher3 ! 1) = Some ''Terminal'' \<and> \<not> running (app_registry launcher3 ! 1)"
    by (simp add: launcher3_def app_launcher_initialize_def register_app_def launcher_static_def)
  then show ?thesis
    using app_launch_correct [OF launcher3_inv(1) sched2_inv(1), of "''Terminal''" "0x1000" "0x800000", THEN conjunct1, THEN spec, of 1]
      sched2_inv(3) launcher3_inv(2) by auto
qed

theorem app_launch_after_exit_witness:
  "app_launch 0x1000 0x800000 (Some ''Files'')
     (launcher3\<lparr>app_registry := (app_registry launcher3)[0 := (app_registry launcher3 ! 0)\<lparr>running := True, app_pid := 9\<rparr>]\<rparr>, sched2) =
   Some (9, launcher3\<lparr>app_registry := (app_registry launcher3)[0 := (app_registry launcher3 ! 0)\<lparr>running := True, app_pid := 9\<rparr>]\<rparr>, sched2)"
proof -
  let ?l = "launcher3\<lparr>app_registry := (app_registry launcher3)[0 := (app_registry launcher3 ! 0)\<lparr>running := True, app_pid := 9\<rparr>]\<rparr>"
  have reg: "length (app_registry launcher3) = 16" "app_name (app_registry launcher3 ! 0) = Some ''Files''"
    by (simp_all add: launcher3_def app_launcher_initialize_def register_app_def launcher_static_def)
  have inv: "launcher_inv ?l" by (rule launcher_inv_update [OF launcher3_inv(1)]) simp
  have "kill_task 9 sched2 = Some sched2"
  proof (rule kill_task_absent [OF sched2_inv(1)])
    fix i assume "i \<in> set [0 :: nat, 1]"
    then show "tcb_pid (task_table sched2 ! i) \<noteq> 9" using sched_invD(7) [OF sched2_inv(1), of i] sched2_inv(3) by auto
  qed
  then show ?thesis using app_launch_after_exit [OF inv, of 0 "''Files''" sched2 sched2] launcher3_inv(2) reg by simp
qed

end
