(* ===== verification/Bytes.thy ===== *)
theory Bytes
  imports Prelude "HOL-Library.Monad_Syntax"
begin

text \<open>
  Memory buffers as lists of bytes: the loads and stores of 16- and 32-bit integers through a cast
  pointer (little endian on this processor), the big-endian fields of the network headers, and the copy
  of a block into a buffer. A store or a copy that leaves the buffer is \<open>None\<close>.
\<close>

definition load_le16 :: "u8 list \<Rightarrow> nat \<Rightarrow> u16" where
  "load_le16 b i = ucast (b ! i) OR push_bit 8 (ucast (b ! (i + 1)))"

definition load_le32 :: "u8 list \<Rightarrow> nat \<Rightarrow> u32" where
  "load_le32 b i = ucast (b ! i) OR push_bit 8 (ucast (b ! (i + 1))) OR
     push_bit 16 (ucast (b ! (i + 2))) OR push_bit 24 (ucast (b ! (i + 3)))"

definition le32_bytes :: "u32 \<Rightarrow> u8 list" where
  "le32_bytes v = [ucast v, ucast (drop_bit 8 v), ucast (drop_bit 16 v), ucast (drop_bit 24 v)]"

definition le16_bytes :: "u16 \<Rightarrow> u8 list" where
  "le16_bytes v = [ucast v, ucast (drop_bit 8 v)]"

text \<open>\<open>blit b i s\<close> is \<open>b\<close> with \<open>s\<close> copied to it from index \<open>i\<close> on.\<close>

definition blit :: "'a list \<Rightarrow> nat \<Rightarrow> 'a list \<Rightarrow> 'a list" where
  "blit b i s = take i b @ s @ drop (i + length s) b"

definition blit_checked :: "'a list \<Rightarrow> nat \<Rightarrow> 'a list \<Rightarrow> 'a list option" where
  "blit_checked b i s = (if i + length s \<le> length b then Some (blit b i s) else None)"

text \<open>Reads through a pointer into a buffer: \<open>None\<close> when a byte behind the end would be read or the pointer moved past the end.\<close>

definition byte_at :: "u8 list \<Rightarrow> nat \<Rightarrow> u8 option" where
  "byte_at b i = (if i < length b then Some (b ! i) else None)"

definition be16_at :: "u8 list \<Rightarrow> nat \<Rightarrow> u16 option" where
  "be16_at b i = do { hi \<leftarrow> byte_at b i; lo \<leftarrow> byte_at b (i + 1); Some (push_bit 8 (ucast hi) OR ucast lo) }"

definition bytes_at :: "u8 list \<Rightarrow> nat \<Rightarrow> nat \<Rightarrow> u8 list option" where
  "bytes_at b i n = (if i + n \<le> length b then Some (take n (drop i b)) else None)"

definition tail_at :: "u8 list \<Rightarrow> nat \<Rightarrow> u8 list option" where
  "tail_at b i = (if i \<le> length b then Some (drop i b) else None)"

lemma read_in_bounds [simp]:
  "i < length b \<Longrightarrow> byte_at b i = Some (b ! i)"
  "i + 1 < length b \<Longrightarrow> be16_at b i = Some (push_bit 8 (ucast (b ! i)) OR ucast (b ! (i + 1)))"
  "i + n \<le> length b \<Longrightarrow> bytes_at b i n = Some (take n (drop i b))"
  "i \<le> length b \<Longrightarrow> tail_at b i = Some (drop i b)"
  by (simp_all add: byte_at_def be16_at_def bytes_at_def tail_at_def)

subsection \<open>Copies\<close>

lemma length_blit [simp]: "i + length s \<le> length b \<Longrightarrow> length (blit b i s) = length b"
  by (simp add: blit_def)

lemma take_blit_end [simp]: "i \<le> length b \<Longrightarrow> take (i + length s) (blit b i s) = take i b @ s"
  by (simp add: blit_def)

lemma take_blit_before [simp]: "j \<le> i \<Longrightarrow> i \<le> length b \<Longrightarrow> take j (blit b i s) = take j b"
  by (simp add: blit_def)

lemma drop_blit_after [simp]:
  "i + length s \<le> j \<Longrightarrow> i \<le> length b \<Longrightarrow> drop j (blit b i s) = drop j b"
  by (simp add: blit_def add.commute)

lemma blit_Nil [simp]: "blit b i [] = b"
  by (simp add: blit_def)

lemma blit_blit:
  "i + length s + length t \<le> length b \<Longrightarrow> blit (blit b i s) (i + length s) t = blit b i (s @ t)"
  by (simp add: blit_def ac_simps)

subsection \<open>Loads and stores\<close>

lemma load_le32_bytes [simp]: "load_le32 (xs @ le32_bytes v @ ys) (length xs) = v"
proof (rule bit_word_eqI)
  fix n assume "n < LENGTH(32)"
  then show "bit (load_le32 (xs @ le32_bytes v @ ys) (length xs)) n = bit v n"
    by (cases "n < 8"; cases "n < 16"; cases "n < 24")
       (auto simp: load_le32_def le32_bytes_def nth_append bit_simps)
qed

lemma nth_blit:
  "i + length s \<le> length b \<Longrightarrow> j < length b \<Longrightarrow>
   blit b i s ! j = (if i \<le> j \<and> j < i + length s then s ! (j - i) else b ! j)"
  by (auto simp: blit_def nth_append)

lemma load_le32_nth:
  assumes "b ! i = ucast v" "b ! (i + 1) = ucast (drop_bit 8 v)" "b ! (i + 2) = ucast (drop_bit 16 v)" "b ! (i + 3) = ucast (drop_bit 24 v)"
  shows "load_le32 b i = v"
  using load_le32_bytes [of "[]" v "[]"] assms by (simp add: load_le32_def le32_bytes_def)

lemma load_le16_nth:
  assumes "b ! i = ucast v" "b ! (i + 1) = ucast (drop_bit 8 v)"
  shows "load_le16 b i = v"
proof (rule bit_word_eqI)
  fix n assume "n < LENGTH(16)"
  then show "bit (load_le16 b i) n = bit v n"
    by (cases "n < 8") (auto simp: load_le16_def assms(1) assms(2) [simplified] bit_simps)
qed

text \<open>A field stored in a buffer is read back; fields beside it keep their values.\<close>

lemma load_le32_blit:
  assumes "i + 4 \<le> length b"
  shows "load_le32 (blit b i (le32_bytes v)) i = v"
  by (rule load_le32_nth) (use assms in \<open>simp_all add: nth_blit le32_bytes_def numeral_3_eq_3\<close>)

lemma load_le16_blit:
  assumes "i + 2 \<le> length b"
  shows "load_le16 (blit b i (le16_bytes v)) i = v"
  by (rule load_le16_nth) (use assms in \<open>simp_all add: nth_blit le16_bytes_def\<close>)

lemma load_le32_blit_other:
  assumes "i + length s \<le> length b" "j + 4 \<le> length b" "j + 4 \<le> i \<or> i + length s \<le> j"
  shows "load_le32 (blit b i s) j = load_le32 b j"
  using assms by (auto simp: load_le32_def nth_blit)

lemma load_le16_blit_other:
  assumes "i + length s \<le> length b" "j + 2 \<le> length b" "j + 2 \<le> i \<or> i + length s \<le> j"
  shows "load_le16 (blit b i s) j = load_le16 b j"
  using assms by (auto simp: load_le16_def nth_blit)

lemma length_le_bytes [simp]: "length (le16_bytes w) = 2" "length (le32_bytes v) = 4"
  by (simp_all add: le16_bytes_def le32_bytes_def)

end
