(* ===== verification/Fat32.thy ===== *)
theory Fat32
  imports Bytes Kheap
begin

text \<open>
  The FAT32 file system of \<^verbatim>\<open>fat32.c\<close>. The disk is a parameter, \<open>rd lba\<close>: the 512 bytes that
  \<^verbatim>\<open>ahci_read_sector\<close> stores for a sector, or \<open>None\<close> when it reports an error. The local arrays
  \<^verbatim>\<open>cluster_buffer\<close> and \<^verbatim>\<open>sector\<close> are not initialised by the code: their first contents are a
  parameter, \<open>junk\<close>. The result \<open>None\<close> of an operation stands for an access outside an array, a division
  by zero or, for the two walks along a directory, a loop that does not end.

  The theorems show that reading a handle returns the right slice of the data along the cluster chain,
  that names are normalised and printed back consistently, that a walk along an acyclic directory ends,
  and where the code leaves its buffers.
\<close>

type_synonym disk = "u32 \<Rightarrow> u8 list option"

abbreviation FAT32_SECTOR_SIZE :: nat where "FAT32_SECTOR_SIZE \<equiv> 512"
abbreviation FAT32_CLUSTER_SIZE :: nat where "FAT32_CLUSTER_SIZE \<equiv> 4096"
abbreviation FAT32_EOC :: u32 where "FAT32_EOC \<equiv> 0x0FFFFFF8"
abbreviation FAT32_ATTR_VOLUME_ID :: u8 where "FAT32_ATTR_VOLUME_ID \<equiv> 0x08"
abbreviation FAT32_ATTR_LFN :: u8 where "FAT32_ATTR_LFN \<equiv> 0x0F"
abbreviation FAT32_MAX_FILES :: nat where "FAT32_MAX_FILES \<equiv> 32"

record fat32_bpb_t =
  boot_jump :: "u8 list"
  oem_name :: "u8 list"
  bytes_per_sector :: u16
  bpb_sectors_per_cluster :: u8
  reserved_sectors :: u16
  num_fats :: u8
  root_entries :: u16
  total_sectors_16 :: u16
  media_type :: u8
  fat_size_16 :: u16
  sectors_per_track :: u16
  num_heads :: u16
  hidden_sectors :: u32
  total_sectors_32 :: u32
  fat_size_32 :: u32
  ext_flags :: u16
  fs_version :: u16
  root_cluster :: u32
  fs_info_sector :: u16
  backup_boot_sector :: u16
  bpb_reserved :: "u8 list"
  drive_number :: u8
  reserved2 :: u8
  boot_signature :: u8
  volume_id :: u32
  volume_label :: "u8 list"
  fs_type :: "u8 list"

record fat32_direntry_t =
  de_name :: "u8 list"
  de_ext :: "u8 list"
  attributes :: u8
  de_reserved :: u8
  creation_time_tenths :: u8
  creation_time :: u16
  creation_date :: u16
  last_access_date :: u16
  first_cluster_high :: u16
  write_time :: u16
  write_date :: u16
  first_cluster_low :: u16
  de_file_size :: u32

text \<open>The pointer \<^verbatim>\<open>fat_table\<close> is \<open>None\<close> for \<^verbatim>\<open>NULL\<close> and else the bytes of its block.\<close>

record fat32_fs_t =
  bpb :: fat32_bpb_t
  partition_lba :: u32
  fat_offset :: u32
  data_offset :: u32
  sectors_per_cluster :: u32
  root_dir_cluster :: u32
  fat_size_bytes :: u64
  fat_table :: "u8 list option"

record fat32_file_t =
  first_cluster :: u32
  file_size :: u32
  current_position :: u32
  file_open :: bool

record fat32_t =
  fat32_fs :: fat32_fs_t
  fat32_files :: "fat32_file_t list"

definition slice :: "nat \<Rightarrow> nat \<Rightarrow> 'a list \<Rightarrow> 'a list" where
  "slice i n xs = take n (drop i xs)"

definition bpb_of :: "u8 list \<Rightarrow> fat32_bpb_t" where
  "bpb_of s = \<lparr>boot_jump = slice 0 3 s, oem_name = slice 3 8 s, bytes_per_sector = load_le16 s 11,
     bpb_sectors_per_cluster = s ! 13, reserved_sectors = load_le16 s 14, num_fats = s ! 16,
     root_entries = load_le16 s 17, total_sectors_16 = load_le16 s 19, media_type = s ! 21,
     fat_size_16 = load_le16 s 22, sectors_per_track = load_le16 s 24, num_heads = load_le16 s 26,
     hidden_sectors = load_le32 s 28, total_sectors_32 = load_le32 s 32, fat_size_32 = load_le32 s 36,
     ext_flags = load_le16 s 40, fs_version = load_le16 s 42, root_cluster = load_le32 s 44,
     fs_info_sector = load_le16 s 48, backup_boot_sector = load_le16 s 50, bpb_reserved = slice 52 12 s,
     drive_number = s ! 64, reserved2 = s ! 65, boot_signature = s ! 66, volume_id = load_le32 s 67,
     volume_label = slice 71 11 s, fs_type = slice 82 8 s\<rparr>"

definition direntry_of :: "u8 list \<Rightarrow> nat \<Rightarrow> fat32_direntry_t" where
  "direntry_of b i = \<lparr>de_name = slice i 8 b, de_ext = slice (i + 8) 3 b, attributes = b ! (i + 11),
     de_reserved = b ! (i + 12), creation_time_tenths = b ! (i + 13), creation_time = load_le16 b (i + 14),
     creation_date = load_le16 b (i + 16), last_access_date = load_le16 b (i + 18),
     first_cluster_high = load_le16 b (i + 20), write_time = load_le16 b (i + 22),
     write_date = load_le16 b (i + 24), first_cluster_low = load_le16 b (i + 26),
     de_file_size = load_le32 b (i + 28)\<rparr>"

subsection \<open>Sectors, clusters and the table\<close>

text \<open>The loop of \<^verbatim>\<open>fat32_read_sectors\<close> over its index; the byte offset is a 32-bit product.\<close>

fun read_sectors_loop :: "disk \<Rightarrow> u32 \<Rightarrow> nat list \<Rightarrow> u8 list \<Rightarrow> (bool \<times> u8 list) option" where
  "read_sectors_loop rd lba [] buffer = Some (True, buffer)"
| "read_sectors_loop rd lba (i # is) buffer =
     (case rd (lba + of_nat i) of
        None \<Rightarrow> Some (False, buffer)
      | Some sector \<Rightarrow>
          (case blit_checked buffer (unat (of_nat i * 512 :: u32)) sector of
             None \<Rightarrow> None
           | Some buffer' \<Rightarrow> read_sectors_loop rd lba is buffer'))"

definition fat32_read_sectors :: "disk \<Rightarrow> u32 \<Rightarrow> u32 \<Rightarrow> u8 list \<Rightarrow> (bool \<times> u8 list) option" where
  "fat32_read_sectors rd lba count buffer = read_sectors_loop rd lba [0..<unat count] buffer"

definition fat32_cluster_lba :: "fat32_fs_t \<Rightarrow> u32 \<Rightarrow> u32" where
  "fat32_cluster_lba fs cluster = data_offset fs + (cluster - 2) * sectors_per_cluster fs"

definition fat32_get_fat_entry :: "fat32_fs_t \<Rightarrow> u32 \<Rightarrow> u32 option" where
  "fat32_get_fat_entry fs cluster =
     (case fat_table fs of
        None \<Rightarrow> Some FAT32_EOC
      | Some table \<Rightarrow>
          (let index = unat (cluster * 4) in
           if index + 4 \<le> length table then Some (load_le32 table index AND 0x0FFFFFFF) else None))"

definition fat32_is_eoc :: "u32 \<Rightarrow> bool" where
  "fat32_is_eoc cluster \<longleftrightarrow> cluster \<ge> FAT32_EOC"

definition fat32_follow_cluster_chain :: "fat32_fs_t \<Rightarrow> u32 \<Rightarrow> u32 option" where
  "fat32_follow_cluster_chain fs cluster =
     (case fat32_get_fat_entry fs cluster of
        None \<Rightarrow> None
      | Some succ \<Rightarrow> Some (if fat32_is_eoc succ then 0 else succ))"

subsection \<open>Names\<close>

definition fat_upper :: "char \<Rightarrow> char" where
  "fat_upper c = (if 97 \<le> (of_char c :: nat) \<and> (of_char c :: nat) \<le> 122 then char_of (of_char c - 32 :: nat) else c)"

text \<open>
  The two loops of \<^verbatim>\<open>fat32_normalize_name\<close>: \<open>stop\<close> is the extra exit test (the dot, in the first loop), \<open>limit\<close>
  the bound on the index; the result is the output array and what is left of the name.
\<close>

fun normalize_loop :: "(char \<Rightarrow> bool) \<Rightarrow> nat \<Rightarrow> nat \<Rightarrow> string \<Rightarrow> string \<Rightarrow> string \<times> string" where
  "normalize_loop stop limit index [] output = (output, [])"
| "normalize_loop stop limit index (c # name) output =
     (if stop c \<or> \<not> index < limit then (output, c # name)
      else normalize_loop stop limit (Suc index) name (output[index := fat_upper c]))"

definition fat32_normalize_name :: "string \<Rightarrow> string" where
  "fat32_normalize_name name =
     (let output = replicate 11 CHR '' '';
          (output, rest) = normalize_loop (\<lambda>c. c = CHR ''.'') 8 0 name output;
          rest = (if rest \<noteq> [] \<and> hd rest = CHR ''.'' then tl rest else rest)
      in fst (normalize_loop (\<lambda>_. False) 11 8 rest output))"

text \<open>
  A \<^verbatim>\<open>char\<close> is signed on this target, so a byte above 127 of the name is negative in the comparison
  with the unsigned byte of the entry. \<^verbatim>\<open>entry->name[i]\<close> runs over the extension from index 8 on.
\<close>

definition char_value :: "char \<Rightarrow> int" where
  "char_value c = (if (of_char c :: int) < 128 then of_char c else of_char c - 256)"

definition fat32_compare_entry_name :: "fat32_direntry_t \<Rightarrow> string \<Rightarrow> bool" where
  "fat32_compare_entry_name entry target =
     (\<forall>i \<in> set [0..<11]. uint ((de_name entry @ de_ext entry) ! i) = char_value (fat32_normalize_name target ! i))"

text \<open>\<open>entry_chars\<close> is the loop that copies characters until a blank or a NUL.\<close>

definition entry_chars :: "u8 list \<Rightarrow> string" where
  "entry_chars bs = map (\<lambda>b. char_of (unat b)) (takeWhile (\<lambda>b. b \<noteq> 0x20 \<and> b \<noteq> 0) bs)"

definition fat32_extract_entry_name :: "fat32_direntry_t \<Rightarrow> string" where
  "fat32_extract_entry_name entry =
     entry_chars (de_name entry) @
     (if de_ext entry ! 0 \<noteq> 0x20 \<and> de_ext entry ! 0 \<noteq> 0 then ''.'' @ entry_chars (de_ext entry) else [])"

subsection \<open>Directories\<close>

datatype dir_scan = Dir_end | Dir_found fat32_direntry_t | Dir_more

definition entry_skipped :: "fat32_direntry_t \<Rightarrow> bool" where
  "entry_skipped entry \<longleftrightarrow> de_name entry ! 0 = 0xE5 \<or> attributes entry = FAT32_ATTR_LFN \<or>
     attributes entry AND FAT32_ATTR_VOLUME_ID \<noteq> 0"

fun scan_cluster :: "string \<Rightarrow> u8 list \<Rightarrow> nat list \<Rightarrow> dir_scan" where
  "scan_cluster filename buffer [] = Dir_more"
| "scan_cluster filename buffer (offset # rest) =
     (let entry = direntry_of buffer offset in
      if de_name entry ! 0 = 0 then Dir_end
      else if entry_skipped entry then scan_cluster filename buffer rest
      else if fat32_compare_entry_name entry filename then Dir_found entry
      else scan_cluster filename buffer rest)"

text \<open>The offsets of the entries in the buffer, 0, 32, ..., 4064.\<close>

definition entry_offsets :: "nat list" where
  "entry_offsets = map (\<lambda>i. 32 * i) [0..<FAT32_CLUSTER_SIZE div 32]"

text \<open>The outer loop follows the cluster chain with no bound on its length.\<close>

partial_function (option) find_loop ::
    "disk \<Rightarrow> fat32_fs_t \<Rightarrow> string \<Rightarrow> u32 \<Rightarrow> u8 list \<Rightarrow> fat32_direntry_t option option" where
  "find_loop rd fs filename current cluster_buffer =
     (if current < 2 \<or> fat32_is_eoc current then Some None
      else Option.bind (fat32_read_sectors rd (fat32_cluster_lba fs current) (sectors_per_cluster fs) cluster_buffer)
        (\<lambda>(ok, buffer).
           if \<not> ok then Some None
           else case scan_cluster filename buffer entry_offsets of
                  Dir_end \<Rightarrow> Some None
                | Dir_found entry \<Rightarrow> Some (Some entry)
                | Dir_more \<Rightarrow>
                    Option.bind (fat32_follow_cluster_chain fs current)
                      (\<lambda>succ. find_loop rd fs filename succ buffer)))"

definition fat32_find_in_directory ::
    "disk \<Rightarrow> u8 list \<Rightarrow> fat32_fs_t \<Rightarrow> u32 \<Rightarrow> string \<Rightarrow> fat32_direntry_t option option" where
  "fat32_find_in_directory rd junk fs cluster filename = find_loop rd fs filename cluster junk"

definition fat32_make_cluster :: "fat32_direntry_t \<Rightarrow> u32" where
  "fat32_make_cluster entry = push_bit 16 (ucast (first_cluster_high entry)) OR ucast (first_cluster_low entry)"

text \<open>The entries of one cluster that the callback gets, and whether the end mark was met.\<close>

fun list_cluster :: "u8 list \<Rightarrow> nat list \<Rightarrow> (string \<times> u32) list \<times> bool" where
  "list_cluster buffer [] = ([], False)"
| "list_cluster buffer (offset # rest) =
     (let entry = direntry_of buffer offset in
      if de_name entry ! 0 = 0 then ([], True)
      else if entry_skipped entry then list_cluster buffer rest
      else let (calls, ended) = list_cluster buffer rest
           in ((fat32_extract_entry_name entry, de_file_size entry) # calls, ended))"

partial_function (option) enumerate_loop ::
    "disk \<Rightarrow> fat32_fs_t \<Rightarrow> u32 \<Rightarrow> u8 list \<Rightarrow> (string \<times> u32) list \<Rightarrow> (bool \<times> (string \<times> u32) list) option" where
  "enumerate_loop rd fs current cluster_buffer calls =
     (if current < 2 \<or> fat32_is_eoc current then Some (True, calls)
      else Option.bind (fat32_read_sectors rd (fat32_cluster_lba fs current) (sectors_per_cluster fs) cluster_buffer)
        (\<lambda>(ok, buffer).
           if \<not> ok then Some (False, calls)
           else let (more, ended) = list_cluster buffer entry_offsets in
                if ended then Some (True, calls @ more)
                else Option.bind (fat32_follow_cluster_chain fs current)
                       (\<lambda>succ. enumerate_loop rd fs succ buffer (calls @ more))))"

text \<open>
  \<^verbatim>\<open>fat32_enumerate_root\<close> with a callback that is not \<^verbatim>\<open>NULL\<close>: its result and the calls of the callback, in order.
\<close>

definition fat32_enumerate_root :: "disk \<Rightarrow> u8 list \<Rightarrow> fat32_fs_t \<Rightarrow> (bool \<times> (string \<times> u32) list) option" where
  "fat32_enumerate_root rd junk fs =
     (if root_dir_cluster fs < 2 then Some (False, [])
      else enumerate_loop rd fs (root_dir_cluster fs) junk [])"

subsection \<open>Mounting\<close>

text \<open>The result is the return value and the boot parameter block, which a failed check leaves overwritten.\<close>

definition fat32_read_boot_sector ::
    "disk \<Rightarrow> u8 list \<Rightarrow> u32 \<Rightarrow> fat32_bpb_t \<Rightarrow> (bool \<times> fat32_bpb_t) option" where
  "fat32_read_boot_sector rd junk base_lba b =
     (case fat32_read_sectors rd base_lba 1 (take FAT32_SECTOR_SIZE junk) of
        None \<Rightarrow> None
      | Some (False, _) \<Rightarrow> Some (False, b)
      | Some (True, sector) \<Rightarrow>
          (let b' = bpb_of sector in
           Some (\<not> (bytes_per_sector b' \<noteq> of_nat FAT32_SECTOR_SIZE \<or> bpb_sectors_per_cluster b' = 0 \<or>
                    fat_size_32 b' = 0), b')))"

text \<open>
  \<open>fresh\<close> stands for the contents of the heap memory that the allocation returns, of which the table gets
  as many bytes as were asked for.
\<close>

definition fat32_load_fat ::
    "disk \<Rightarrow> (u64 \<Rightarrow> u8 list) \<Rightarrow> heap_t \<Rightarrow> fat32_fs_t \<Rightarrow> (bool \<times> heap_t \<times> fat32_fs_t) option" where
  "fat32_load_fat rd fresh heap fs =
     (let sz = ucast (fat_size_32 (bpb fs)) * of_nat FAT32_SECTOR_SIZE :: u64;
          (address, heap) = kmalloc sz ''fat32'' heap
      in if address = 0 then Some (False, heap, fs\<lparr>fat_table := None\<rparr>)
         else case fat32_read_sectors rd (fat_offset fs) (fat_size_32 (bpb fs)) (take (unat sz) (fresh address)) of
                None \<Rightarrow> None
              | Some (False, table) \<Rightarrow> Some (False, heap, fs\<lparr>fat_table := Some table\<rparr>)
              | Some (True, table) \<Rightarrow> Some (True, heap, fs\<lparr>fat_table := Some table, fat_size_bytes := sz\<rparr>))"

text \<open>The loop over the four partition entries of the master boot record.\<close>

fun partition_scan :: "disk \<Rightarrow> u8 list \<Rightarrow> u8 list \<Rightarrow> nat list \<Rightarrow> fat32_fs_t \<Rightarrow> fat32_fs_t option" where
  "partition_scan rd junk sector [] fs = Some fs"
| "partition_scan rd junk sector (i # rest) fs =
     (let entry = 0x1BE + i * 16; type = sector ! (entry + 4) in
      if type = 0x0B \<or> type = 0x0C then
        let start = load_le32 sector (entry + 8) in
        (case fat32_read_boot_sector rd junk start (bpb fs) of
           None \<Rightarrow> None
         | Some (True, b) \<Rightarrow> Some (fs\<lparr>bpb := b, partition_lba := start\<rparr>)
         | Some (False, b) \<Rightarrow> partition_scan rd junk sector rest (fs\<lparr>bpb := b\<rparr>))
      else partition_scan rd junk sector rest fs)"

text \<open>
  The part of \<^verbatim>\<open>fat32_initialize\<close> up to the check of the geometry: the boot sector at sector 0, else that of a
  partition. The flag is false when the master boot record cannot be read.
\<close>

definition fat32_locate :: "disk \<Rightarrow> u8 list \<Rightarrow> fat32_fs_t \<Rightarrow> (bool \<times> fat32_fs_t) option" where
  "fat32_locate rd junk fs =
     (let fs = fs\<lparr>partition_lba := 0\<rparr> in
      case fat32_read_boot_sector rd junk 0 (bpb fs) of
        None \<Rightarrow> None
      | Some (True, b) \<Rightarrow> Some (True, fs\<lparr>bpb := b\<rparr>)
      | Some (False, b) \<Rightarrow>
          (let fs = fs\<lparr>bpb := b\<rparr> in
           case fat32_read_sectors rd 0 1 (take FAT32_SECTOR_SIZE junk) of
             None \<Rightarrow> None
           | Some (False, _) \<Rightarrow> Some (False, fs)
           | Some (True, sector) \<Rightarrow> map_option (\<lambda>fs. (True, fs)) (partition_scan rd junk sector [0..<4] fs)))"

definition fat32_set_geometry :: "fat32_fs_t \<Rightarrow> fat32_fs_t" where
  "fat32_set_geometry fs =
     (let offset = partition_lba fs + ucast (reserved_sectors (bpb fs)) in
      fs\<lparr>fat_offset := offset,
         data_offset := offset + ucast (num_fats (bpb fs)) * fat_size_32 (bpb fs),
         sectors_per_cluster := ucast (bpb_sectors_per_cluster (bpb fs)),
         root_dir_cluster := root_cluster (bpb fs)\<rparr>)"

text \<open>The final log line divides by the number of sectors per cluster.\<close>

definition fat32_initialize ::
    "disk \<Rightarrow> u8 list \<Rightarrow> (u64 \<Rightarrow> u8 list) \<Rightarrow> heap_t \<Rightarrow> fat32_t \<Rightarrow> (heap_t \<times> fat32_t) option" where
  "fat32_initialize rd junk fresh heap s =
     (let s = s\<lparr>fat32_files := map (\<lambda>f. f\<lparr>file_open := False\<rparr>) (fat32_files s)\<rparr> in
      case fat32_locate rd junk (fat32_fs s) of
        None \<Rightarrow> None
      | Some (False, fs) \<Rightarrow> Some (heap, s\<lparr>fat32_fs := fs\<rparr>)
      | Some (True, fs) \<Rightarrow>
          (if bytes_per_sector (bpb fs) \<noteq> of_nat FAT32_SECTOR_SIZE \<or> fat_size_32 (bpb fs) = 0
           then Some (heap, s\<lparr>fat32_fs := fs\<rparr>)
           else case fat32_load_fat rd fresh heap (fat32_set_geometry fs) of
                  None \<Rightarrow> None
                | Some (False, heap, fs) \<Rightarrow> Some (heap, s\<lparr>fat32_fs := fs\<rparr>)
                | Some (True, heap, fs) \<Rightarrow>
                    if sectors_per_cluster fs = 0 then None else Some (heap, s\<lparr>fat32_fs := fs\<rparr>)))"

subsection \<open>Handles\<close>

definition fat32_open :: "disk \<Rightarrow> u8 list \<Rightarrow> string option \<Rightarrow> fat32_t \<Rightarrow> (int \<times> fat32_t) option" where
  "fat32_open rd junk filename s =
     (case filename of
        None \<Rightarrow> Some (-1, s)
      | Some filename \<Rightarrow>
          (case first_idx (\<lambda>f. \<not> file_open f) (fat32_files s) of
             None \<Rightarrow> Some (-1, s)
           | Some i \<Rightarrow>
               (case fat32_find_in_directory rd junk (fat32_fs s) (root_dir_cluster (fat32_fs s)) filename of
                  None \<Rightarrow> None
                | Some None \<Rightarrow> Some (-1, s)
                | Some (Some entry) \<Rightarrow>
                    Some (int i, s\<lparr>fat32_files := (fat32_files s)[i :=
                      \<lparr>first_cluster = fat32_make_cluster entry, file_size = de_file_size entry,
                       current_position = 0, file_open = True\<rparr>]\<rparr>))))"

text \<open>The loop that skips the clusters before the position.\<close>

fun skip_clusters :: "fat32_fs_t \<Rightarrow> nat \<Rightarrow> u32 \<Rightarrow> u32 option" where
  "skip_clusters fs 0 cluster = Some cluster"
| "skip_clusters fs (Suc n) cluster =
     (if fat32_is_eoc cluster then Some cluster
      else case fat32_follow_cluster_chain fs cluster of
             None \<Rightarrow> None
           | Some cluster' \<Rightarrow> skip_clusters fs n cluster')"

text \<open>
  The copying loop of \<^verbatim>\<open>fat32_read\<close>. Its result is the return value, the buffer and the handle, whose position
  has moved even when a later cluster cannot be read.
\<close>

function read_loop :: "disk \<Rightarrow> fat32_fs_t \<Rightarrow> u32 \<Rightarrow> u32 \<Rightarrow> u32 \<Rightarrow> u32 \<Rightarrow> u8 list \<Rightarrow> u8 list \<Rightarrow> fat32_file_t \<Rightarrow>
    (int \<times> u8 list \<times> fat32_file_t) option" where
  "read_loop rd fs cluster count offset buffer_offset cluster_buffer buffer f =
     (let cluster_size = sectors_per_cluster fs * of_nat FAT32_SECTOR_SIZE;
          cluster_offset = offset mod cluster_size;
          read_bytes = min (cluster_size - cluster_offset) count
      in if count > 0 \<and> cluster \<ge> 2 \<and> \<not> fat32_is_eoc cluster then
           (case fat32_read_sectors rd (fat32_cluster_lba fs cluster) (sectors_per_cluster fs) cluster_buffer of
              None \<Rightarrow> None
            | Some (False, _) \<Rightarrow> Some (-1, buffer, f)
            | Some (True, cluster_buffer) \<Rightarrow>
                if cluster_size = 0 \<or> length cluster_buffer < unat cluster_offset + unat read_bytes then None
                else
                  case blit_checked buffer (unat buffer_offset)
                         (slice (unat cluster_offset) (unat read_bytes) cluster_buffer) of
                    None \<Rightarrow> None
                  | Some buffer \<Rightarrow>
                      (let f = f\<lparr>current_position := current_position f + read_bytes\<rparr> in
                       if (offset + read_bytes) mod cluster_size = 0
                       then case fat32_follow_cluster_chain fs cluster of
                              None \<Rightarrow> None
                            | Some cluster \<Rightarrow>
                                read_loop rd fs cluster (count - read_bytes) (offset + read_bytes)
                                  (buffer_offset + read_bytes) cluster_buffer buffer f
                       else read_loop rd fs cluster (count - read_bytes) (offset + read_bytes)
                              (buffer_offset + read_bytes) cluster_buffer buffer f))
         else Some (sint buffer_offset, buffer, f))"
  by pat_completeness auto

lemma unat_min: "unat (min a b) = min (unat a) (unat b)" for a b :: "'a::len word"
  by (simp add: min_def word_le_nat_alt)

lemma unat_sub_mod:
  "unat (n - a mod n) = unat n - unat a mod unat n" if "n \<noteq> 0" for a n :: "'a::len word"
proof -
  have "unat a mod unat n \<le> unat n" using that by (simp add: mod_le_divisor unat_gt_0)
  then have "a mod n \<le> n" by (simp add: word_le_nat_alt unat_mod)
  then show ?thesis by (simp add: unat_sub unat_mod)
qed

text \<open>The number of bytes that one round of the loop copies.\<close>

lemma read_bytes_nat:
  "unat (min (cs - offset mod cs) count) = min (unat cs - unat offset mod unat cs) (unat count)" if "cs \<noteq> 0"
  for cs :: u32
  by (simp add: unat_min unat_sub_mod [OF that])

lemma read_bytes_pos: "0 < unat (min (cs - offset mod cs) count)" if "cs \<noteq> 0" "count > 0" for cs :: u32
  using that by (simp add: read_bytes_nat unat_gt_0 word_gt_0)

lemma count_decreases: "unat (count - min (cs - offset mod cs) count) < unat count" if "cs \<noteq> 0" "count > 0"
  for cs :: u32
proof -
  have "unat (count - min (cs - offset mod cs) count) = unat count - unat (min (cs - offset mod cs) count)"
    by (rule unat_sub) simp
  then show ?thesis
    using read_bytes_pos [OF that, of offset] that(2) unfolding word_less_nat_alt by simp
qed

termination read_loop
  by (relation "measure (\<lambda>(rd, fs, cluster, count, _). unat count)") (simp_all add: count_decreases del: min_less_iff_conj)

declare read_loop.simps [simp del]

definition fat32_read :: "disk \<Rightarrow> u8 list \<Rightarrow> int \<Rightarrow> u8 list option \<Rightarrow> u64 \<Rightarrow> fat32_t \<Rightarrow>
    (int \<times> u8 list option \<times> fat32_t) option" where
  "fat32_read rd junk fd buffer sz s =
     (if fd < 0 \<or> fd \<ge> int FAT32_MAX_FILES \<or> \<not> file_open (fat32_files s ! nat fd) \<or> buffer = None
      then Some (-1, buffer, s)
      else
        let f = fat32_files s ! nat fd; fs = fat32_fs s in
        if current_position f \<ge> file_size f then Some (0, buffer, s)
        else
          let remaining = file_size f - current_position f;
              count = (if sz > ucast remaining then remaining else ucast sz);
              cluster_size = sectors_per_cluster fs * of_nat FAT32_SECTOR_SIZE
          in if cluster_size = 0 then None
             else case skip_clusters fs (unat (current_position f div cluster_size)) (first_cluster f) of
                    None \<Rightarrow> None
                  | Some cluster \<Rightarrow>
                      map_option (\<lambda>(r, buffer, f). (r, Some buffer, s\<lparr>fat32_files := (fat32_files s)[nat fd := f]\<rparr>))
                        (read_loop rd fs cluster count (current_position f) 0 junk (the buffer) f))"

definition fat32_write :: "int \<Rightarrow> u8 list \<Rightarrow> u64 \<Rightarrow> fat32_t \<Rightarrow> int \<times> fat32_t" where
  "fat32_write fd buffer sz s =
     (if fd < 0 \<or> fd \<ge> int FAT32_MAX_FILES \<or> \<not> file_open (fat32_files s ! nat fd) then (-1, s)
      else (sint (ucast sz :: u32), s))"

definition fat32_close :: "int \<Rightarrow> fat32_t \<Rightarrow> fat32_t" where
  "fat32_close fd s =
     (if fd \<ge> 0 \<and> fd < int FAT32_MAX_FILES
      then s\<lparr>fat32_files := (fat32_files s)[nat fd := (fat32_files s ! nat fd)\<lparr>file_open := False\<rparr>]\<rparr>
      else s)"

subsection \<open>Reading sectors\<close>

definition sectors_readable :: "disk \<Rightarrow> u32 \<Rightarrow> nat \<Rightarrow> bool" where
  "sectors_readable rd lba n \<longleftrightarrow>
     (\<forall>i < n. case rd (lba + of_nat i) of None \<Rightarrow> False | Some s \<Rightarrow> length s = FAT32_SECTOR_SIZE)"

definition sectors_data :: "disk \<Rightarrow> u32 \<Rightarrow> nat \<Rightarrow> u8 list" where
  "sectors_data rd lba n = concat (map (\<lambda>i. the (rd (lba + of_nat i))) [0..<n])"

lemma read_sectors_loop_append:
  "read_sectors_loop rd lba (xs @ ys) buffer =
     (case read_sectors_loop rd lba xs buffer of
        None \<Rightarrow> None
      | Some (ok, b) \<Rightarrow> if ok then read_sectors_loop rd lba ys b else Some (False, b))"
  by (induction xs arbitrary: buffer) (auto split: option.splits)

lemma sectors_readable_Suc:
  "sectors_readable rd lba (Suc n) \<longleftrightarrow> sectors_readable rd lba n \<and>
     (\<exists>s. rd (lba + of_nat n) = Some s \<and> length s = FAT32_SECTOR_SIZE)"
  unfolding sectors_readable_def by (auto simp: less_Suc_eq split: option.splits)

lemma sectors_data_Suc: "sectors_data rd lba (Suc n) = sectors_data rd lba n @ the (rd (lba + of_nat n))"
  by (simp add: sectors_data_def)

lemma length_sectors_data: "sectors_readable rd lba n \<Longrightarrow> length (sectors_data rd lba n) = 512 * n"
  by (induction n) (auto simp: sectors_readable_Suc sectors_data_Suc, simp add: sectors_data_def)

lemma read_sectors_loop_ok:
  "sectors_readable rd lba n \<Longrightarrow> 512 * n \<le> length buffer \<Longrightarrow> n < 2 ^ 23 \<Longrightarrow>
   read_sectors_loop rd lba [0..<n] buffer = Some (True, sectors_data rd lba n @ drop (512 * n) buffer)"
proof (induction n)
  case 0
  show ?case by (simp add: sectors_data_def)
next
  case (Suc n)
  then obtain s where s: "rd (lba + of_nat n) = Some s" "length s = 512"
    by (auto simp: sectors_readable_Suc)
  have len: "length (sectors_data rd lba n) = 512 * n"
    using Suc.prems by (simp add: sectors_readable_Suc length_sectors_data)
  have off: "unat (of_nat n * 512 :: u32) = 512 * n"
    using Suc.prems by (simp add: unat_word_ariths unat_of_nat take_bit_nat_eq_self)
  show ?case
    using Suc s len off
    by (simp add: sectors_readable_Suc sectors_data_Suc read_sectors_loop_append blit_checked_def blit_def)
qed

lemma fat32_read_sectors_ok:
  "sectors_readable rd lba (unat n) \<Longrightarrow> 512 * unat n \<le> length buffer \<Longrightarrow> unat n < 2 ^ 23 \<Longrightarrow>
   fat32_read_sectors rd lba n buffer =
     Some (True, sectors_data rd lba (unat n) @ drop (512 * unat n) buffer)"
  by (simp add: fat32_read_sectors_def read_sectors_loop_ok)

text \<open>
  \<^verbatim>\<open>fat32_read_sectors\<close> once more, on the driver itself: every read gets the address and the rest of the buffer from its own offset on, and the state the
  read before it has left. \<open>None\<close>: a read that does not return, or an offset behind the end of the buffer.
\<close>

type_synonym 's sector_read = "u32 \<Rightarrow> u64 \<times> u8 list \<Rightarrow> 's \<Rightarrow> (int \<times> u8 list \<times> 's) option"

fun driver_read_loop :: "'s sector_read \<Rightarrow> u32 \<Rightarrow> nat list \<Rightarrow> u64 \<Rightarrow> u8 list \<Rightarrow> 's \<Rightarrow> (bool \<times> u8 list \<times> 's) option" where
  "driver_read_loop read lba [] a buffer s = Some (True, buffer, s)"
| "driver_read_loop read lba (i # is) a buffer s =
     (let off = unat (of_nat i * 512 :: u32) in
      if length buffer < off then None
      else case read (lba + of_nat i) (a + of_nat off, drop off buffer) s of
        None \<Rightarrow> None
      | Some (r, rest, s) \<Rightarrow>
          if r \<noteq> 0 then Some (False, take off buffer @ rest, s)
          else driver_read_loop read lba is a (take off buffer @ rest) s)"

definition driver_read_sectors :: "'s sector_read \<Rightarrow> u32 \<Rightarrow> u32 \<Rightarrow> u64 \<Rightarrow> u8 list \<Rightarrow> 's \<Rightarrow> (bool \<times> u8 list \<times> 's) option" where
  "driver_read_sectors read lba count a buffer s = driver_read_loop read lba [0..<unat count] a buffer s"

text \<open>
  What the file system asks of a driver: in a state where it works, a read returns, fills the first 512 bytes with the contents of the
  sector, leaves the bytes behind them alone, and keeps the driver working. Then reading through the driver is reading from the disk with these contents.
\<close>

locale sector_driver =
  fixes read :: "'s sector_read" and works :: "'s \<Rightarrow> bool" and contents :: "u32 \<Rightarrow> u8 list"
  assumes sector_size: "works s \<Longrightarrow> length (contents lba) = FAT32_SECTOR_SIZE"
    and read_law: "works s \<Longrightarrow> 512 \<le> length b \<Longrightarrow>
      \<exists>s'. read lba (a, b) s = Some (0, contents lba @ drop 512 b, s') \<and> works s'"
begin

lemma read_loop_append:
  "driver_read_loop read lba (is @ js) a buffer s =
     (case driver_read_loop read lba is a buffer s of
        Some (True, b, s) \<Rightarrow> driver_read_loop read lba js a b s | r \<Rightarrow> r)"
  by (induction "is" arbitrary: buffer s) (auto simp: Let_def split: option.splits)

lemma all_readable: "works s \<Longrightarrow> sectors_readable (\<lambda>lba. Some (contents lba)) lba n"
  by (simp add: sectors_readable_def sector_size)

lemma read_loop_contents:
  assumes "works s" "512 * n \<le> length buffer" "n < 2 ^ 23"
  shows "\<exists>s'. driver_read_loop read lba [0..<n] a buffer s =
      Some (True, sectors_data (\<lambda>lba. Some (contents lba)) lba n @ drop (512 * n) buffer, s') \<and> works s'"
  using assms
proof (induction n)
  case 0
  then show ?case by (simp add: sectors_data_def)
next
  case (Suc n)
  let ?d = "sectors_data (\<lambda>lba. Some (contents lba)) lba n"
  obtain s1 where s1: "driver_read_loop read lba [0..<n] a buffer s = Some (True, ?d @ drop (512 * n) buffer, s1)" "works s1"
    using Suc by auto
  have len: "length ?d = 512 * n" by (rule length_sectors_data [OF all_readable [OF Suc.prems(1)]])
  have off: "unat (of_nat n * 512 :: u32) = 512 * n"
    using Suc.prems by (simp add: unat_word_ariths unat_of_nat take_bit_nat_eq_self)
  obtain s2 where "read (lba + of_nat n) (a + of_nat (512 * n), drop (512 * n) buffer) s1 =
      Some (0, contents (lba + of_nat n) @ drop 512 (drop (512 * n) buffer), s2)" "works s2"
    using read_law [OF s1(2), of "drop (512 * n) buffer" "lba + of_nat n" "a + of_nat (512 * n)"] Suc.prems(2) by fastforce
  then show ?case using s1(1) len off Suc.prems(2) by (simp add: read_loop_append sectors_data_Suc add.commute)
qed

lemma driver_refines_disk:
  assumes "works s" "512 * unat n \<le> length buffer" "unat n < 2 ^ 23"
  shows "\<exists>b s'. driver_read_sectors read lba n a buffer s = Some (True, b, s') \<and> works s' \<and>
    fat32_read_sectors (\<lambda>lba. Some (contents lba)) lba n buffer = Some (True, b) \<and>
    b = concat (map (\<lambda>i. contents (lba + of_nat i)) [0..<unat n]) @ drop (512 * unat n) buffer"
  using read_loop_contents [OF assms, of lba a] fat32_read_sectors_ok [OF all_readable [OF assms(1)] assms(2,3)]
  by (auto simp: driver_read_sectors_def sectors_data_def)

end

subsection \<open>Cluster chains\<close>

text \<open>\<open>chain fs c cs\<close>: following the table from \<open>c\<close> visits exactly the clusters \<open>cs\<close>.\<close>

fun chain :: "fat32_fs_t \<Rightarrow> u32 \<Rightarrow> u32 list \<Rightarrow> bool" where
  "chain fs c [] \<longleftrightarrow> c < 2 \<or> fat32_is_eoc c"
| "chain fs c (d # ds) \<longleftrightarrow> c = d \<and> 2 \<le> d \<and> \<not> fat32_is_eoc d \<and>
     (case fat32_follow_cluster_chain fs d of None \<Rightarrow> False | Some succ \<Rightarrow> chain fs succ ds)"

definition cluster_bytes :: "fat32_fs_t \<Rightarrow> nat" where
  "cluster_bytes fs = 512 * unat (sectors_per_cluster fs)"

definition cluster_readable :: "disk \<Rightarrow> fat32_fs_t \<Rightarrow> u32 \<Rightarrow> bool" where
  "cluster_readable rd fs c \<longleftrightarrow> sectors_readable rd (fat32_cluster_lba fs c) (unat (sectors_per_cluster fs))"

definition cluster_data :: "disk \<Rightarrow> fat32_fs_t \<Rightarrow> u32 \<Rightarrow> u8 list" where
  "cluster_data rd fs c = sectors_data rd (fat32_cluster_lba fs c) (unat (sectors_per_cluster fs))"

text \<open>A cluster has at least one sector and fits the buffer on the stack.\<close>

definition geometry_ok :: "fat32_fs_t \<Rightarrow> bool" where
  "geometry_ok fs \<longleftrightarrow> 0 < sectors_per_cluster fs \<and> sectors_per_cluster fs \<le> 8"

lemma geometry_okD:
  assumes "geometry_ok fs"
  shows "0 < cluster_bytes fs" "cluster_bytes fs \<le> FAT32_CLUSTER_SIZE"
    "unat (sectors_per_cluster fs * 512) = cluster_bytes fs" "sectors_per_cluster fs * 512 \<noteq> 0"
proof -
  have n: "0 < unat (sectors_per_cluster fs)" "unat (sectors_per_cluster fs) \<le> 8"
    using assms by (auto simp: geometry_ok_def word_less_nat_alt word_le_nat_alt)
  show "0 < cluster_bytes fs" "cluster_bytes fs \<le> FAT32_CLUSTER_SIZE"
    using n by (simp_all add: cluster_bytes_def)
  show u: "unat (sectors_per_cluster fs * 512) = cluster_bytes fs"
    using n by (simp add: unat_word_ariths cluster_bytes_def)
  then show "sectors_per_cluster fs * 512 \<noteq> 0"
    using \<open>0 < cluster_bytes fs\<close> by (metis less_irrefl unat_0)
qed

lemma length_cluster_data: "cluster_readable rd fs c \<Longrightarrow> length (cluster_data rd fs c) = cluster_bytes fs"
  by (simp add: cluster_readable_def cluster_data_def cluster_bytes_def length_sectors_data)

lemma read_cluster_ok:
  assumes "geometry_ok fs" "cluster_readable rd fs c" "length buffer = FAT32_CLUSTER_SIZE"
  shows "fat32_read_sectors rd (fat32_cluster_lba fs c) (sectors_per_cluster fs) buffer =
           Some (True, cluster_data rd fs c @ drop (cluster_bytes fs) buffer)"
  using assms geometry_okD(2) [OF assms(1)]
  by (simp add: fat32_read_sectors_ok cluster_readable_def cluster_data_def cluster_bytes_def)

lemma length_chain_data:
  "\<forall>c \<in> set cs. cluster_readable rd fs c \<Longrightarrow>
   length (concat (map (cluster_data rd fs) cs)) = cluster_bytes fs * length cs"
  by (induction cs) (auto simp: length_cluster_data)

lemma drop_chain_data:
  "\<forall>c \<in> set cs. cluster_readable rd fs c \<Longrightarrow>
   drop (cluster_bytes fs * k + j) (concat (map (cluster_data rd fs) cs)) =
   drop j (concat (map (cluster_data rd fs) (drop k cs)))"
proof (induction cs arbitrary: k)
  case (Cons c cs)
  then show ?case by (cases k) (auto simp: length_cluster_data algebra_simps)
qed simp

lemma skip_clusters_chain:
  "chain fs c cs \<Longrightarrow> k \<le> length cs \<Longrightarrow> \<exists>c'. skip_clusters fs k c = Some c' \<and> chain fs c' (drop k cs)"
proof (induction k arbitrary: c cs)
  case (Suc k)
  then obtain d ds where "cs = d # ds" by (cases cs) auto
  then show ?case using Suc by (auto split: option.splits)
qed simp

subsection \<open>Reading along a chain\<close>

lemma mod_add_less_or_zero:
  fixes x n r :: nat
  assumes "0 < n" "r \<le> n - x mod n"
  shows "(x + r) mod n = (if x mod n + r = n then 0 else x mod n + r)"
proof -
  have "(x + r) mod n = (x mod n + r) mod n" by (simp add: mod_simps)
  moreover have "x mod n < n" using assms(1) by simp
  ultimately show ?thesis using assms(2) by auto
qed

lemma read_loop_0: "read_loop rd fs c 0 offset bo cb buffer f = Some (sint bo, buffer, f)"
  by (subst read_loop.simps) simp

lemma read_loop_step:
  assumes geo: "geometry_ok fs" and rdb: "cluster_readable rd fs c" and cb: "length cb = FAT32_CLUSTER_SIZE"
    and c: "2 \<le> c" "\<not> fat32_is_eoc c" and count: "count > 0"
    and r: "r = min (sectors_per_cluster fs * 512 - offset mod (sectors_per_cluster fs * 512)) count"
    and room: "unat bo + unat count \<le> length buffer"
    and succ: "fat32_follow_cluster_chain fs c = Some d"
  shows "read_loop rd fs c count offset bo cb buffer f =
    read_loop rd fs (if (offset + r) mod (sectors_per_cluster fs * 512) = 0 then d else c)
      (count - r) (offset + r) (bo + r) (cluster_data rd fs c @ drop (cluster_bytes fs) cb)
      (blit buffer (unat bo) (slice (unat offset mod cluster_bytes fs) (unat r) (cluster_data rd fs c)))
      (f\<lparr>current_position := current_position f + r\<rparr>)"
proof -
  let ?cs = "sectors_per_cluster fs * 512 :: u32"
  note g = geometry_okD [OF geo]
  have r_nat: "unat r = min (cluster_bytes fs - unat offset mod cluster_bytes fs) (unat count)"
    using read_bytes_nat [OF g(4)] unfolding r g(3) .
  have o: "unat (offset mod ?cs) = unat offset mod cluster_bytes fs" by (simp add: unat_mod g(3))
  have lt: "unat offset mod cluster_bytes fs < cluster_bytes fs" using g(1) by simp
  have len: "length (cluster_data rd fs c) = cluster_bytes fs" by (rule length_cluster_data [OF rdb])
  have sl: "slice (unat offset mod cluster_bytes fs) (unat r) (cluster_data rd fs c @ drop (cluster_bytes fs) cb) =
            slice (unat offset mod cluster_bytes fs) (unat r) (cluster_data rd fs c)"
    using lt r_nat len by (simp add: slice_def)
  have "length (slice (unat offset mod cluster_bytes fs) (unat r) (cluster_data rd fs c)) = unat r"
    using lt r_nat len by (simp add: slice_def)
  then have "blit_checked buffer (unat bo) (slice (unat offset mod cluster_bytes fs) (unat r) (cluster_data rd fs c)) =
        Some (blit buffer (unat bo) (slice (unat offset mod cluster_bytes fs) (unat r) (cluster_data rd fs c)))"
    using room r_nat by (simp add: blit_checked_def)
  moreover have "\<not> length (cluster_data rd fs c @ drop (cluster_bytes fs) cb) < unat (offset mod ?cs) + unat r"
    using lt r_nat len g(2) cb by (simp add: o)
  ultimately show ?thesis
    using c count g(4) succ read_cluster_ok [OF geo rdb cb]
    by (subst read_loop.simps) (simp add: r [symmetric] o sl Let_def del: min_less_iff_conj)
qed

text \<open>The arithmetic of one round, read as natural numbers.\<close>

lemma read_round:
  assumes geo: "geometry_ok fs" and count: "count > 0"
    and r: "r = min (sectors_per_cluster fs * 512 - offset mod (sectors_per_cluster fs * 512)) count"
    and bounds: "unat offset + unat count < 2 ^ 32" "unat bo + unat count < 2 ^ 32"
  shows "unat r = min (cluster_bytes fs - unat offset mod cluster_bytes fs) (unat count)"
    and "unat r \<le> unat count" and "unat (count - r) = unat count - unat r" and "unat (count - r) < unat count"
    and "unat (offset + r) = unat offset + unat r" and "unat (bo + r) = unat bo + unat r"
    and "unat (offset + r) mod cluster_bytes fs =
           (if unat offset mod cluster_bytes fs + unat r = cluster_bytes fs then 0
            else unat offset mod cluster_bytes fs + unat r)"
    and "(offset + r) mod (sectors_per_cluster fs * 512) = 0 \<longleftrightarrow>
           unat offset mod cluster_bytes fs + unat r = cluster_bytes fs"
proof -
  note g = geometry_okD [OF geo]
  show r_nat: "unat r = min (cluster_bytes fs - unat offset mod cluster_bytes fs) (unat count)"
    using read_bytes_nat [OF g(4)] unfolding r g(3) .
  show r_le: "unat r \<le> unat count" using r_nat by simp
  show "unat (count - r) = unat count - unat r" by (rule unat_sub) (simp add: r)
  show "unat (count - r) < unat count" unfolding r by (rule count_decreases [OF g(4) count])
  show sum: "unat (offset + r) = unat offset + unat r" "unat (bo + r) = unat bo + unat r"
    using bounds r_le by (auto simp: unat_word_ariths)
  show o: "unat (offset + r) mod cluster_bytes fs =
     (if unat offset mod cluster_bytes fs + unat r = cluster_bytes fs then 0
      else unat offset mod cluster_bytes fs + unat r)"
    unfolding sum by (rule mod_add_less_or_zero) (use g(1) r_nat in auto)
  have "0 < unat r" unfolding r by (rule read_bytes_pos [OF g(4) count])
  then show "(offset + r) mod (sectors_per_cluster fs * 512) = 0 \<longleftrightarrow>
     unat offset mod cluster_bytes fs + unat r = cluster_bytes fs"
    using o g(1) by (simp add: unat_eq_zero [symmetric] unat_mod g(3))
qed

lemma blit_slices:
  assumes "o' + r = length D" "b + n \<le> length buffer" "r \<le> n"
  shows "blit (blit buffer b (slice o' r D)) (b + r) (slice 0 (n - r) E) = blit buffer b (slice o' n (D @ E))"
proof -
  have len: "length (slice o' r D) = r" using assms by (simp add: slice_def)
  have "blit (blit buffer b (slice o' r D)) (b + r) (slice 0 (n - r) E) =
        blit buffer b (slice o' r D @ slice 0 (n - r) E)"
    using assms(2,3) by (intro blit_blit [of b "slice o' r D", unfolded len]) (simp add: slice_def)
  moreover have "slice o' r D @ slice 0 (n - r) E = slice o' n (D @ E)"
    using assms(3) assms(1) [symmetric] by (simp add: slice_def)
  ultimately show ?thesis by simp
qed

lemma read_loop_correct:
  assumes "geometry_ok fs" "chain fs c ds" "\<forall>d \<in> set ds. cluster_readable rd fs d"
    and "length cb = FAT32_CLUSTER_SIZE" "unat bo + unat count \<le> length buffer"
    and "unat offset mod cluster_bytes fs + unat count \<le> cluster_bytes fs * length ds"
    and "unat offset + unat count < 2 ^ 32" "unat bo + unat count < 2 ^ 32"
  shows "read_loop rd fs c count offset bo cb buffer f =
    Some (sint (bo + count),
          blit buffer (unat bo) (slice (unat offset mod cluster_bytes fs) (unat count) (concat (map (cluster_data rd fs) ds))),
          f\<lparr>current_position := current_position f + count\<rparr>)"
  using assms
proof (induction "unat count" arbitrary: c ds cb bo buffer offset count f rule: less_induct)
  case less
  note geo = less.prems(1) and g = geometry_okD [OF less.prems(1)]
  let ?cs = "sectors_per_cluster fs * 512 :: u32" and ?n = "cluster_bytes fs"
  show ?case
  proof (cases "count = 0")
    case True
    then show ?thesis by (simp add: read_loop_0 slice_def)
  next
    case False
    then have pos: "count > 0" "0 < unat count" by (simp_all add: word_gt_0 unat_gt_0)
    with less.prems(6) obtain d ds' where ds: "ds = d # ds'" by (cases ds) auto
    with less.prems(2) obtain e where d: "c = d" "2 \<le> d" "\<not> fat32_is_eoc d"
      "fat32_follow_cluster_chain fs d = Some e" "chain fs e ds'" by (auto split: option.splits)
    have rdb: "cluster_readable rd fs d" using less.prems(3) ds by simp
    define r where "r = min (?cs - offset mod ?cs) count"
    note rr = read_round [OF geo pos(1) r_def less.prems(7,8)]
    note r_nat = rr(1) and r_le = rr(2) and rest = rr(3) and sums = rr(5,6) and o' = rr(7) and zero = rr(8)
    let ?o = "unat offset mod ?n" and ?D = "cluster_data rd fs d" and ?E = "concat (map (cluster_data rd fs) ds')"
    have lt: "?o < ?n" using g(1) by simp
    have len: "length ?D = ?n" by (rule length_cluster_data [OF rdb])
    let ?f = "f\<lparr>current_position := current_position f + r\<rparr>"
    let ?cb = "?D @ drop ?n cb" and ?buf = "blit buffer (unat bo) (slice ?o (unat r) ?D)"
    have lcb: "length ?cb = FAT32_CLUSTER_SIZE" using less.prems(4) len g(2) by simp
    have lsl: "length (slice ?o (unat r) ?D) = unat r" using r_nat lt len by (simp add: slice_def)
    have lbuf: "length ?buf = length buffer"
      by (rule length_blit, unfold lsl) (use less.prems(5) r_le in linarith)
    have step: "read_loop rd fs c count offset bo cb buffer f =
      read_loop rd fs (if ?o + unat r = ?n then e else d) (count - r) (offset + r) (bo + r) ?cb ?buf
        (f\<lparr>current_position := current_position f + r\<rparr>)"
      unfolding d(1) zero [symmetric]
      by (rule read_loop_step [OF geo rdb less.prems(4) d(2,3) pos(1) r_def less.prems(5) d(4)])
    show ?thesis
    proof (cases "?o + unat r = ?n")
      case True
      have "read_loop rd fs e (count - r) (offset + r) (bo + r) ?cb ?buf ?f =
        Some (sint (bo + r + (count - r)), blit ?buf (unat (bo + r)) (slice (unat (offset + r) mod ?n) (unat (count - r)) ?E),
          ?f\<lparr>current_position := current_position ?f + (count - r)\<rparr>)"
      proof (rule less.hyps [OF rr(4) geo d(5) _ lcb])
        show "\<forall>d \<in> set ds'. cluster_readable rd fs d" using less.prems(3) ds by simp
        show "unat (bo + r) + unat (count - r) \<le> length ?buf" "unat (bo + r) + unat (count - r) < 2 ^ 32"
          "unat (offset + r) + unat (count - r) < 2 ^ 32"
          unfolding sums rest lbuf using less.prems(5,7,8) r_le by simp_all
        have "unat count \<le> unat r + ?n * length ds'" using less.prems(6) ds True by simp
        then show "unat (offset + r) mod ?n + unat (count - r) \<le> ?n * length ds'"
          unfolding o' rest using True by simp
      qed
      moreover have "blit ?buf (unat bo + unat r) (slice 0 (unat count - unat r) ?E) =
          blit buffer (unat bo) (slice ?o (unat count) (?D @ ?E))"
        using True len less.prems(5) r_le by (intro blit_slices) simp_all
      ultimately show ?thesis
        unfolding step o' rest sums(2) ds using True by (simp add: add.assoc)
    next
      case False
      then have "unat r = unat count" using r_nat lt by linarith
      then have "r = count" by (simp add: word_unat_eq_iff)
      moreover have "slice ?o (unat count) ?D = slice ?o (unat count) (?D @ ?E)"
        using False r_nat len lt calculation by (simp add: slice_def)
      ultimately show ?thesis using step False ds by (simp add: read_loop_0)
    qed
  qed
qed

text \<open>
  The contract of a read: the bytes of the file from the position on, along its cluster chain, as many
  as were asked for and are left; the position moves by that number.
\<close>

definition file_bytes :: "disk \<Rightarrow> fat32_fs_t \<Rightarrow> u32 list \<Rightarrow> u8 list" where
  "file_bytes rd fs cs = concat (map (cluster_data rd fs) cs)"

lemma fat32_read_open:
  assumes "k < FAT32_MAX_FILES" "file_open (fat32_files s ! k)"
  shows "fat32_read rd junk (int k) (Some buffer) sz s =
    (let f = fat32_files s ! k; fs = fat32_fs s; cluster_size = sectors_per_cluster fs * 512 in
     if current_position f \<ge> file_size f then Some (0, Some buffer, s)
     else if cluster_size = 0 then None
     else case skip_clusters fs (unat (current_position f div cluster_size)) (first_cluster f) of
            None \<Rightarrow> None
          | Some cluster \<Rightarrow>
              map_option (\<lambda>(r, buffer, f). (r, Some buffer, s\<lparr>fat32_files := (fat32_files s)[k := f]\<rparr>))
                (read_loop rd fs cluster
                   (if sz > ucast (file_size f - current_position f) then file_size f - current_position f else ucast sz)
                   (current_position f) 0 junk buffer f))"
  using assms unfolding fat32_read_def Let_def nat_int option.sel by simp

lemma unat_read_count:
  fixes p q :: u32 and sz :: u64
  assumes "p \<le> q"
  shows "unat (if sz > ucast (q - p) then q - p else ucast sz) = min (unat sz) (unat q - unat p)"
proof -
  have sub: "unat (q - p) = unat q - unat p" by (rule unat_sub [OF assms])
  have small: "unat (q - p) < 2 ^ 32" using unsigned_less [of "q - p", where 'a = nat] by simp
  have up: "unat (ucast (q - p) :: u64) = unat (q - p)"
    using small by (simp add: unat_ucast_mod)
  then have "sz > ucast (q - p) \<longleftrightarrow> unat sz > unat (q - p)" by (simp add: word_less_nat_alt)
  moreover have "\<not> unat sz > unat (q - p) \<Longrightarrow> unat (ucast sz :: u32) = unat sz"
    using small by (simp add: unat_ucast_mod)
  ultimately show ?thesis using sub by auto
qed

text \<open>
  Reading an open handle whose clusters \<open>cs\<close> can be read from the disk, cover the file size and are no larger than the
  4096-byte buffer copies the next \<open>n\<close> bytes of the file to the front of the caller's buffer and moves the position.
\<close>

lemma fat32_read_chain:
  assumes "geometry_ok (fat32_fs s)" and "length (fat32_files s) = FAT32_MAX_FILES" and "k < FAT32_MAX_FILES"
    and f: "f = fat32_files s ! k" "file_open f" "current_position f \<le> file_size f"
    and chain: "chain (fat32_fs s) (first_cluster f) cs" "\<forall>c \<in> set cs. cluster_readable rd (fat32_fs s) c"
    and covered: "unat (file_size f) \<le> cluster_bytes (fat32_fs s) * length cs"
    and n: "n = min (unat sz) (unat (file_size f) - unat (current_position f))" "n \<le> length buffer"
    and junk: "length junk = FAT32_CLUSTER_SIZE"
  shows "fat32_read rd junk (int k) (Some buffer) sz s =
    Some (sint (of_nat n :: u32),
          Some (slice (unat (current_position f)) n (file_bytes rd (fat32_fs s) cs) @ drop n buffer),
          s\<lparr>fat32_files := (fat32_files s)[k := f\<lparr>current_position := current_position f + of_nat n\<rparr>]\<rparr>)"
proof (cases "current_position f = file_size f")
  case True
  then have "n = 0" using n by simp
  moreover have "(fat32_files s)[k := f\<lparr>current_position := file_size f\<rparr>] = fat32_files s"
    unfolding True [symmetric] by (simp add: f(1))
  ultimately show ?thesis
    using True f(2) assms(3) by (simp add: fat32_read_open f(1) [symmetric] slice_def)
next
  case False
  let ?fs = "fat32_fs s" let ?n = "cluster_bytes ?fs" and ?p = "unat (current_position f)"
  note g = geometry_okD [OF assms(1)]
  have lt: "?p < unat (file_size f)"
    using False f(3) by (simp add: word_le_nat_alt word_unat_eq_iff)
  define count where "count = (if sz > ucast (file_size f - current_position f)
    then file_size f - current_position f else ucast sz)"
  have count: "unat count = n" unfolding count_def n(1) by (rule unat_read_count [OF f(3)])
  have total: "?p + n \<le> unat (file_size f)" "unat (file_size f) < 2 ^ 32"
    using lt n(1) unsigned_less [of "file_size f", where 'a = nat] by auto
  have split_p: "?p = ?n * (?p div ?n) + ?p mod ?n" by simp
  have k_le: "?p div ?n \<le> length cs"
    using lt covered g(1) by (metis div_le_mono le_trans less_imp_le nonzero_mult_div_cancel_left less_not_refl)
  from skip_clusters_chain [OF chain(1) this] obtain c where
    c: "skip_clusters ?fs (?p div ?n) (first_cluster f) = Some c" "chain ?fs c (drop (?p div ?n) cs)" by blast
  have fits: "?p mod ?n + unat count \<le> ?n * length (drop (?p div ?n) cs)"
    using total(1) covered split_p unfolding count length_drop diff_mult_distrib2 by linarith
  have "read_loop rd ?fs c count (current_position f) 0 junk buffer f =
    Some (sint (0 + count), blit buffer (unat (0 :: u32))
            (slice (?p mod ?n) (unat count) (concat (map (cluster_data rd ?fs) (drop (?p div ?n) cs)))),
          f\<lparr>current_position := current_position f + count\<rparr>)"
    using chain(2) fits total n(2) junk count
    by (intro read_loop_correct [OF assms(1) c(2)]) (auto dest: in_set_dropD)
  moreover have "slice (?p mod ?n) n (concat (map (cluster_data rd ?fs) (drop (?p div ?n) cs))) =
      slice ?p n (file_bytes rd ?fs cs)"
    using drop_chain_data [OF chain(2), of "?p div ?n" "?p mod ?n"] by (simp add: slice_def file_bytes_def)
  moreover have "count = of_nat n" "unat (of_nat n :: u32) = n" unfolding count [symmetric] by simp_all
  moreover have "length (slice ?p n (file_bytes rd ?fs cs)) = n"
    using total covered length_chain_data [OF chain(2)] by (simp add: slice_def file_bytes_def)
  moreover have "unat (current_position f div (sectors_per_cluster ?fs * 512)) = ?p div ?n"
    by (simp add: unat_div g(3))
  ultimately show ?thesis
    using c(1) f(2) assms(3) g(4) lt
    by (simp add: fat32_read_open f(1) [symmetric] Let_def count_def [symmetric] word_le_nat_alt blit_def)
qed

subsection \<open>Names\<close>

definition pad :: "nat \<Rightarrow> string \<Rightarrow> string" where
  "pad n xs = xs @ replicate (n - length xs) CHR '' ''"

lemma length_pad: "length xs \<le> n \<Longrightarrow> length (pad n xs) = n"
  by (simp add: pad_def)

lemma normalize_loop_eq:
  "index \<le> limit \<Longrightarrow> limit \<le> length out \<Longrightarrow>
   normalize_loop stop limit index name out =
     (let t = take (limit - index) (takeWhile (\<lambda>c. \<not> stop c) name)
      in (blit out index (map fat_upper t), drop (length t) name))"
proof (induction name arbitrary: index out)
  case (Cons c name)
  show ?case
  proof (cases "stop c \<or> \<not> index < limit")
    case True
    then show ?thesis using Cons.prems by auto
  next
    case False
    then have "out[index := fat_upper c] = blit out index [fat_upper c]"
      using Cons.prems by (simp add: blit_def upd_conv_take_nth_drop)
    moreover obtain m where "limit - index = Suc m" "limit - Suc index = m" using False by (cases "limit - index") auto
    moreover have "blit (blit out index [fat_upper c]) (Suc index) (map fat_upper (take m xs)) =
        blit out index (fat_upper c # map fat_upper (take m xs))" for xs
      using blit_blit [of index "[fat_upper c]" "map fat_upper (take m xs)" out] Cons.prems False calculation(2,3)
      by simp
    ultimately show ?thesis using False Cons by (simp add: Let_def)
  qed
qed simp

text \<open>A name in the 8.3 format, before the upper-casing.\<close>

definition short_char :: "char \<Rightarrow> bool" where
  "short_char c \<longleftrightarrow> 0x20 < (of_char c :: nat) \<and> (of_char c :: nat) < 128 \<and> c \<noteq> CHR ''.''"

definition short_name :: "string \<Rightarrow> string \<Rightarrow> bool" where
  "short_name base ext \<longleftrightarrow> length base \<le> 8 \<and> length ext \<le> 3 \<and> list_all short_char base \<and> list_all short_char ext"

definition file_name :: "string \<Rightarrow> string \<Rightarrow> string" where
  "file_name base ext = base @ (if ext = [] then [] else CHR ''.'' # ext)"

lemma blit_blanks_pad: "length xs \<le> n \<Longrightarrow> blit (replicate n CHR '' '') 0 xs = pad n xs"
  by (simp add: blit_def pad_def)

lemma normalize_short_name:
  assumes "short_name base ext"
  shows "fat32_normalize_name (file_name base ext) = pad 8 (map fat_upper base) @ pad 3 (map fat_upper ext)"
proof -
  have b: "length base \<le> 8" "\<forall>c \<in> set base. c \<noteq> CHR ''.''" "length ext \<le> 3"
    using assms by (auto simp: short_name_def list_all_iff short_char_def)
  have tw: "takeWhile (\<lambda>c. c \<noteq> CHR ''.'') (file_name base ext) = base"
    using b(2) by (auto simp: file_name_def takeWhile_append2)
  have one: "normalize_loop (\<lambda>c. c = CHR ''.'') 8 0 (file_name base ext) (replicate 11 CHR '' '') =
      (pad 11 (map fat_upper base), drop (length base) (file_name base ext))"
    using b(1) by (simp add: normalize_loop_eq tw Let_def blit_blanks_pad)
  have split: "pad 11 (map fat_upper base) = pad 8 (map fat_upper base) @ replicate 3 CHR '' ''"
    using b(1) by (simp add: pad_def replicate_add [symmetric])
  have all: "takeWhile (\<lambda>c. True) ext = ext" by (induction ext) auto
  have two: "fst (normalize_loop (\<lambda>_. False) 11 8 ext (pad 11 (map fat_upper base))) =
      pad 8 (map fat_upper base) @ pad 3 (map fat_upper ext)"
    using b(1,3) by (simp add: normalize_loop_eq Let_def all split blit_def length_pad) (simp add: pad_def)
  let ?rest = "drop (length base) (file_name base ext)"
  have "(if ?rest \<noteq> [] \<and> hd ?rest = CHR ''.'' then tl ?rest else ?rest) = ext" by (simp add: file_name_def)
  then show ?thesis
    using two unfolding fat32_normalize_name_def one Let_def prod.case by (simp only:)
qed

lemma of_char_bound: "(of_char c :: nat) < 256"
  by (metis of_char_mod_256 mod_less_divisor zero_less_numeral)

definition byte_of :: "char \<Rightarrow> u8" where
  "byte_of c = of_nat (of_char c)"

lemma unat_byte_of: "unat (byte_of c) = of_char c"
  using of_char_bound [of c] by (simp add: byte_of_def unat_of_nat_small)

lemma char_of_byte_of [simp]: "char_of (unat (byte_of c)) = c"
  by (simp add: unat_byte_of)

lemma of_char_fat_upper:
  "(of_char (fat_upper c) :: nat) = (if 97 \<le> (of_char c :: nat) \<and> (of_char c :: nat) \<le> 122 then of_char c - 32 else of_char c)"
  by (auto simp: fat_upper_def)

lemma short_char_upper: "short_char c \<Longrightarrow> short_char (fat_upper c)"
  unfolding short_char_def of_char_eq_iff [symmetric, where 'a = nat] of_char_fat_upper by auto

lemma short_char_byte: "short_char c \<Longrightarrow> byte_of c \<noteq> 0x20 \<and> byte_of c \<noteq> 0"
  unfolding short_char_def word_unat_eq_iff unat_byte_of by auto

lemma entry_chars_pad:
  assumes "list_all short_char xs"
  shows "entry_chars (map byte_of (pad n xs)) = xs"
proof -
  have "byte_of CHR '' '' = 0x20" by (simp add: byte_of_def)
  then have "takeWhile (\<lambda>b. b \<noteq> 0x20 \<and> b \<noteq> 0) (map byte_of (pad n xs)) = map byte_of xs"
    using assms short_char_byte unfolding pad_def map_append list_all_iff
    by (subst takeWhile_append2) (auto simp: takeWhile_replicate)
  then show ?thesis by (simp add: entry_chars_def comp_def)
qed

definition entry_shaped :: "fat32_direntry_t \<Rightarrow> bool" where
  "entry_shaped e \<longleftrightarrow> length (de_name e) = 8 \<and> length (de_ext e) = 3"

lemma char_value_byte: "short_char c \<or> c = CHR '' '' \<Longrightarrow> uint b = char_value c \<longleftrightarrow> b = byte_of c"
proof -
  assume "short_char c \<or> c = CHR '' ''"
  then have "(of_char c :: nat) < 128" by (auto simp: short_char_def)
  then have "char_value c = int (of_char c)" unfolding char_value_def by (metis of_nat_less_iff of_nat_numeral of_nat_of_char)
  moreover have "uint b = int (unat b)" by simp
  ultimately show ?thesis unfolding word_unat_eq_iff unat_byte_of by (metis of_nat_eq_iff)
qed

lemma compare_entry_name_short:
  assumes "entry_shaped e" "short_name base ext"
  shows "fat32_compare_entry_name e (file_name base ext) \<longleftrightarrow>
    de_name e = map byte_of (pad 8 (map fat_upper base)) \<and> de_ext e = map byte_of (pad 3 (map fat_upper ext))"
proof -
  let ?B = "pad 8 (map fat_upper base)" and ?E = "pad 3 (map fat_upper ext)"
  have len: "length ?B = 8" "length ?E = 3" "length (de_name e @ de_ext e) = 11"
    using assms by (auto simp: short_name_def entry_shaped_def length_pad)
  have "\<forall>c \<in> set (?B @ ?E). short_char c \<or> c = CHR '' ''"
    using assms(2) short_char_upper by (auto simp: short_name_def pad_def list_all_iff)
  then have ok: "i < 11 \<Longrightarrow> short_char ((?B @ ?E) ! i) \<or> (?B @ ?E) ! i = CHR '' ''" for i
    using len nth_mem [of i "?B @ ?E"] by (simp del: nth_append set_append)
  have "fat32_compare_entry_name e (file_name base ext) \<longleftrightarrow>
      (\<forall>i < 11. (de_name e @ de_ext e) ! i = map byte_of (?B @ ?E) ! i)"
    unfolding fat32_compare_entry_name_def normalize_short_name [OF assms(2)]
    using char_value_byte [OF ok] len by (simp add: Ball_def del: nth_append map_append)
  also have "\<dots> \<longleftrightarrow> de_name e @ de_ext e = map byte_of (?B @ ?E)"
    using len by (subst list_eq_iff_nth_eq) simp
  also have "\<dots> \<longleftrightarrow> de_name e = map byte_of ?B \<and> de_ext e = map byte_of ?E"
    unfolding map_append using len assms(1) by (intro append_eq_append_conv) (simp add: entry_shaped_def)
  finally show ?thesis .
qed

text \<open>
  Lookup and listing agree: when the entry that the directory search compares matches an 8.3 name
  (in either case), the name that the enumeration prints for that entry is the name in upper case.
\<close>

theorem fat32_lookup_name_listed:
  assumes "entry_shaped e" "short_name base ext" "fat32_compare_entry_name e (file_name base ext)"
  shows "fat32_extract_entry_name e = map fat_upper (file_name base ext)"
proof -
  have e: "de_name e = map byte_of (pad 8 (map fat_upper base))" "de_ext e = map byte_of (pad 3 (map fat_upper ext))"
    using assms compare_entry_name_short by blast+
  have ok: "list_all short_char (map fat_upper base)" "list_all short_char (map fat_upper ext)"
    using assms(2) short_char_upper by (auto simp: short_name_def list_all_iff)
  have dot: "fat_upper CHR ''.'' = CHR ''.''" by (simp add: fat_upper_def)
  show ?thesis
  proof (cases ext)
    case Nil
    then have "de_ext e ! 0 = 0x20" by (simp add: e pad_def byte_of_def)
    then show ?thesis using entry_chars_pad [OF ok(1)] Nil
      unfolding fat32_extract_entry_name_def e file_name_def by simp
  next
    case (Cons c cs)
    then have "de_ext e ! 0 = byte_of (fat_upper c)" by (simp add: e pad_def)
    moreover have "short_char (fat_upper c)" using ok(2) Cons by simp
    ultimately have "de_ext e ! 0 \<noteq> 0x20 \<and> de_ext e ! 0 \<noteq> 0" using short_char_byte by simp
    then show ?thesis using entry_chars_pad ok Cons dot
      unfolding fat32_extract_entry_name_def e file_name_def by simp
  qed
qed

definition entry_example :: fat32_direntry_t where
  "entry_example = \<lparr>de_name = map byte_of ''README  '', de_ext = map byte_of ''TXT'', attributes = 0x20, de_reserved = 0,
     creation_time_tenths = 0, creation_time = 0, creation_date = 0, last_access_date = 0, first_cluster_high = 0,
     write_time = 0, write_date = 0, first_cluster_low = 2, de_file_size = 700\<rparr>"

theorem fat32_lookup_name_listed_witness:
  "fat32_extract_entry_name entry_example = map fat_upper (file_name ''readme'' ''txt'')"
  by (rule fat32_lookup_name_listed) code_simp+

subsection \<open>Directory searches\<close>

definition cluster_entries :: "u8 list \<Rightarrow> fat32_direntry_t list" where
  "cluster_entries buffer = map (direntry_of buffer) entry_offsets"

definition entry_used :: "fat32_direntry_t \<Rightarrow> bool" where
  "entry_used e \<longleftrightarrow> de_name e ! 0 \<noteq> 0"

text \<open>The entries of a directory in the clusters \<open>cs\<close>, up to the end mark.\<close>

definition directory :: "disk \<Rightarrow> fat32_fs_t \<Rightarrow> u32 list \<Rightarrow> fat32_direntry_t list" where
  "directory rd fs cs = takeWhile entry_used (concat (map (\<lambda>c. cluster_entries (cluster_data rd fs c)) cs))"

definition entry_matches :: "string \<Rightarrow> fat32_direntry_t \<Rightarrow> bool" where
  "entry_matches filename e \<longleftrightarrow> \<not> entry_skipped e \<and> fat32_compare_entry_name e filename"

lemma scan_cluster_eq:
  "scan_cluster filename buffer offs =
     (case find (entry_matches filename) (takeWhile entry_used (map (direntry_of buffer) offs)) of
        Some e \<Rightarrow> Dir_found e
      | None \<Rightarrow> if \<forall>o' \<in> set offs. entry_used (direntry_of buffer o') then Dir_more else Dir_end)"
  by (induction offs) (auto simp: Let_def entry_used_def entry_matches_def split: option.splits)

lemma list_cluster_eq:
  "list_cluster buffer offs =
     (map (\<lambda>e. (fat32_extract_entry_name e, de_file_size e))
        (filter (\<lambda>e. \<not> entry_skipped e) (takeWhile entry_used (map (direntry_of buffer) offs))),
      \<not> (\<forall>o' \<in> set offs. entry_used (direntry_of buffer o')))"
  by (induction offs) (auto simp: Let_def entry_used_def split: prod.splits)

lemma takeWhile_append_all:
  "takeWhile Q (xs @ ys) = (if \<forall>x \<in> set xs. Q x then xs @ takeWhile Q ys else takeWhile Q xs)"
  by (induction xs) auto

lemma directory_Cons:
  "directory rd fs (c # cs) =
     (if \<forall>o' \<in> set entry_offsets. entry_used (direntry_of (cluster_data rd fs c) o')
      then cluster_entries (cluster_data rd fs c) @ directory rd fs cs
      else takeWhile entry_used (cluster_entries (cluster_data rd fs c)))"
  by (simp add: directory_def takeWhile_append_all cluster_entries_def)

lemma read_full_cluster:
  assumes "sectors_per_cluster fs = 8" "cluster_readable rd fs c" "length cb = FAT32_CLUSTER_SIZE"
  shows "fat32_read_sectors rd (fat32_cluster_lba fs c) (sectors_per_cluster fs) cb = Some (True, cluster_data rd fs c)"
    and "length (cluster_data rd fs c) = FAT32_CLUSTER_SIZE"
  using read_cluster_ok [OF _ assms(2,3)] length_cluster_data [OF assms(2)] assms(1,3)
  by (simp_all add: geometry_ok_def cluster_bytes_def)

lemma takeWhile_used_all:
  "\<forall>o' \<in> set offs. entry_used (direntry_of b o') \<Longrightarrow>
   takeWhile entry_used (map (direntry_of b) offs) = map (direntry_of b) offs"
  by (simp add: takeWhile_eq_all_conv)

lemma find_loop_chain:
  "sectors_per_cluster fs = 8 \<Longrightarrow> chain fs c cs \<Longrightarrow> \<forall>c \<in> set cs. cluster_readable rd fs c \<Longrightarrow>
   length cb = FAT32_CLUSTER_SIZE \<Longrightarrow>
   find_loop rd fs filename c cb = Some (find (entry_matches filename) (directory rd fs cs))"
proof (induction cs arbitrary: c cb)
  case Nil
  then show ?case by (subst find_loop.simps) (auto simp: directory_def)
next
  case (Cons d ds)
  then obtain e where d: "c = d" "2 \<le> d" "\<not> fat32_is_eoc d" "fat32_follow_cluster_chain fs d = Some e" "chain fs e ds"
    by (auto split: option.splits)
  note full = read_full_cluster [OF Cons.prems(1) _ Cons.prems(4), of rd d]
  have "find_loop rd fs filename c cb =
    (case scan_cluster filename (cluster_data rd fs d) entry_offsets of
       Dir_end \<Rightarrow> Some None | Dir_found entry \<Rightarrow> Some (Some entry)
     | Dir_more \<Rightarrow> find_loop rd fs filename e (cluster_data rd fs d))"
    using d full(1) Cons.prems(3) by (subst find_loop.simps) (auto split: dir_scan.splits)
  moreover have "find_loop rd fs filename e (cluster_data rd fs d) = Some (find (entry_matches filename) (directory rd fs ds))"
    using Cons.IH [OF Cons.prems(1) d(5)] Cons.prems(3) full(2) by simp
  ultimately show ?case
    by (auto simp: scan_cluster_eq directory_Cons cluster_entries_def find_append takeWhile_used_all split: option.splits)
qed

lemma enumerate_loop_chain:
  "sectors_per_cluster fs = 8 \<Longrightarrow> chain fs c cs \<Longrightarrow> \<forall>c \<in> set cs. cluster_readable rd fs c \<Longrightarrow>
   length cb = FAT32_CLUSTER_SIZE \<Longrightarrow>
   enumerate_loop rd fs c cb calls = Some (True, calls @ map (\<lambda>e. (fat32_extract_entry_name e, de_file_size e))
     (filter (\<lambda>e. \<not> entry_skipped e) (directory rd fs cs)))"
proof (induction cs arbitrary: c cb calls)
  case Nil
  then show ?case by (subst enumerate_loop.simps) (auto simp: directory_def)
next
  case (Cons d ds)
  then obtain e where d: "c = d" "2 \<le> d" "\<not> fat32_is_eoc d" "fat32_follow_cluster_chain fs d = Some e" "chain fs e ds"
    by (auto split: option.splits)
  note full = read_full_cluster [OF Cons.prems(1) _ Cons.prems(4), of rd d]
  show ?case
    using d full Cons.prems(3) Cons.IH [OF Cons.prems(1) d(5) _ full(2)]
    by (subst enumerate_loop.simps)
       (auto simp: list_cluster_eq directory_Cons cluster_entries_def takeWhile_used_all)
qed

text \<open>
  C37: On a volume whose clusters have the size of the buffer and whose root directory occupies the clusters \<open>cs\<close>,
  both walks of the root directory end: the search returns the first entry before the end mark that is neither
  deleted, a long-name part nor a volume label and has the name, and the enumeration calls back, in order,
  with the name and the size of every entry before the end mark that is none of these.
\<close>

theorem fat32_root_directory:
  assumes "sectors_per_cluster fs = 8" and "chain fs (root_dir_cluster fs) cs" and "cs \<noteq> []"
    and "\<forall>c \<in> set cs. cluster_readable rd fs c" and "length junk = FAT32_CLUSTER_SIZE"
  shows "fat32_find_in_directory rd junk fs (root_dir_cluster fs) filename =
           Some (find (entry_matches filename) (directory rd fs cs)) \<and>
         fat32_enumerate_root rd junk fs =
           Some (True, map (\<lambda>e. (fat32_extract_entry_name e, de_file_size e))
                         (filter (\<lambda>e. \<not> entry_skipped e) (directory rd fs cs)))"
proof -
  have "\<not> root_dir_cluster fs < 2" using assms(2,3) by (cases cs) auto
  then show ?thesis
    using find_loop_chain [OF assms(1,2,4,5)] enumerate_loop_chain [OF assms(1,2,4,5)]
    by (simp add: fat32_find_in_directory_def fat32_enumerate_root_def)
qed

subsection \<open>Files\<close>

text \<open>A client that reads a handle in pieces of the given sizes and appends what it gets.\<close>

fun read_seq :: "disk \<Rightarrow> u8 list \<Rightarrow> int \<Rightarrow> u64 list \<Rightarrow> fat32_t \<Rightarrow> (u8 list \<times> fat32_t) option" where
  "read_seq rd junk fd [] s = Some ([], s)"
| "read_seq rd junk fd (sz # szs) s =
     (case fat32_read rd junk fd (Some (replicate (unat sz) 0)) sz s of
        None \<Rightarrow> None
      | Some (r, b, s') \<Rightarrow>
          if r < 0 then None
          else map_option (\<lambda>(bs, s''). (take (nat r) (the b) @ bs, s'')) (read_seq rd junk fd szs s'))"

lemma sint_of_nat_small: "n < 2 ^ 31 \<Longrightarrow> sint (of_nat n :: u32) = int n"
  by (simp add: signed_of_nat signed_take_bit_int_eq_self)

lemma slice_slice: "slice i (min m k) xs @ slice (i + min m k) (min n (k - min m k)) xs = slice i (min (m + n) k) xs"
proof -
  have "slice i a xs @ slice (i + a) b xs = slice i (a + b) xs" for a b
    by (simp add: slice_def take_add ac_simps)
  moreover have "min m k + min n (k - min m k) = min (m + n) k" by linarith
  ultimately show ?thesis by (metis (no_types))
qed

lemma read_seq_chain:
  assumes "geometry_ok (fat32_fs s)" and "length (fat32_files s) = FAT32_MAX_FILES" and "k < FAT32_MAX_FILES"
    and "f = fat32_files s ! k" "file_open f" "current_position f \<le> file_size f" "unat (file_size f) < 2 ^ 31"
    and "chain (fat32_fs s) (first_cluster f) cs" "\<forall>c \<in> set cs. cluster_readable rd (fat32_fs s) c"
    and "unat (file_size f) \<le> cluster_bytes (fat32_fs s) * length cs"
    and "length junk = FAT32_CLUSTER_SIZE"
  shows "map_option fst (read_seq rd junk (int k) szs s) =
    Some (slice (unat (current_position f))
            (min (sum_list (map unat szs)) (unat (file_size f) - unat (current_position f)))
            (file_bytes rd (fat32_fs s) cs))"
  using assms
proof (induction szs arbitrary: s f)
  case Nil
  then show ?case by (simp add: slice_def)
next
  case (Cons sz szs)
  let ?p = "unat (current_position f)" and ?q = "unat (file_size f)" and ?D = "file_bytes rd (fat32_fs s) cs"
  define n where "n = min (unat sz) (?q - ?p)"
  let ?f = "f\<lparr>current_position := current_position f + of_nat n\<rparr>"
  let ?s = "s\<lparr>fat32_files := (fat32_files s)[k := ?f]\<rparr>"
  have read: "fat32_read rd junk (int k) (Some (replicate (unat sz) 0)) sz s =
      Some (sint (of_nat n :: u32), Some (slice ?p n ?D @ drop n (replicate (unat sz) 0)), ?s)"
    by (rule fat32_read_chain [OF Cons.prems(1-6,8-10) n_def _ Cons.prems(11)]) (simp add: n_def)
  have le: "?p \<le> ?q" using Cons.prems(6) by (simp add: word_le_nat_alt)
  then have small: "n < 2 ^ 31" "?p + n \<le> ?q" using Cons.prems(7) unfolding n_def by linarith+
  have len: "length (slice ?p n ?D) = n"
    using small(2) Cons.prems(10) length_chain_data [OF Cons.prems(9)] by (simp add: slice_def file_bytes_def)
  have "?p + n < 2 ^ 32" using small(2) Cons.prems(7) by simp
  then have pos: "unat (current_position ?f) = ?p + n"
    using small(1) by (simp add: unat_word_ariths unat_of_nat take_bit_nat_eq_self)
  have "map_option fst (read_seq rd junk (int k) szs ?s) =
    Some (slice (unat (current_position ?f)) (min (sum_list (map unat szs)) (unat (file_size ?f) - unat (current_position ?f)))
            (file_bytes rd (fat32_fs ?s) cs))"
    by (rule Cons.IH) (use Cons.prems small(2) pos in \<open>simp_all add: word_le_nat_alt\<close>)
  then obtain s' where rest: "read_seq rd junk (int k) szs ?s =
      Some (slice (?p + n) (min (sum_list (map unat szs)) (?q - (?p + n))) ?D, s')"
    unfolding pos by auto
  have "read_seq rd junk (int k) (sz # szs) s =
      Some (slice ?p n ?D @ slice (?p + n) (min (sum_list (map unat szs)) (?q - (?p + n))) ?D, s')"
    using read rest len small(1) sint_of_nat_small [OF small(1)] by simp
  moreover have "slice ?p n ?D @ slice (?p + n) (min (sum_list (map unat szs)) (?q - (?p + n))) ?D =
      slice ?p (min (unat sz + sum_list (map unat szs)) (?q - ?p)) ?D"
    unfolding n_def using slice_slice [of ?p "unat sz" "?q - ?p" ?D "sum_list (map unat szs)"]
    by (simp add: diff_diff_left)
  ultimately show ?case by simp
qed

lemma first_closed_handle:
  "length (fat32_files s) = FAT32_MAX_FILES \<Longrightarrow> first_idx (\<lambda>f. \<not> file_open f) (fat32_files s) = Some h \<Longrightarrow> h < FAT32_MAX_FILES"
  using first_idx_Some_less by fastforce

lemma fat32_open_found:
  assumes "fat32_find_in_directory rd junk (fat32_fs s) (root_dir_cluster (fat32_fs s)) name = Some (Some e)"
    and "first_idx (\<lambda>f. \<not> file_open f) (fat32_files s) = Some h"
  shows "fat32_open rd junk (Some name) s = Some (int h, s\<lparr>fat32_files := (fat32_files s)[h :=
    \<lparr>first_cluster = fat32_make_cluster e, file_size = de_file_size e, current_position = 0, file_open = True\<rparr>]\<rparr>)"
  using assms by (simp add: fat32_open_def)

text \<open>
  C36: Opening a file by name and reading it in pieces of any sizes gives the contents of the file. On a volume with
  4096-byte clusters, let the root directory occupy the readable clusters \<open>ds\<close> and hold an entry \<open>e\<close> of that name,
  whose data is the readable cluster chain \<open>cs\<close>, and let a handle be free. Then opening succeeds with the
  lowest free handle, and the pieces read from it, appended, are the first bytes of the file: as many as
  the sizes add up to, or the whole file when they exceed its size.
\<close>

theorem fat32_open_read:
  assumes "sectors_per_cluster (fat32_fs s) = 8" and "length (fat32_files s) = FAT32_MAX_FILES"
    and root: "chain (fat32_fs s) (root_dir_cluster (fat32_fs s)) ds" "\<forall>c \<in> set ds. cluster_readable rd (fat32_fs s) c"
    and e: "find (entry_matches name) (directory rd (fat32_fs s) ds) = Some e"
    and h: "first_idx (\<lambda>f. \<not> file_open f) (fat32_files s) = Some h"
    and data: "chain (fat32_fs s) (fat32_make_cluster e) cs" "\<forall>c \<in> set cs. cluster_readable rd (fat32_fs s) c"
      "unat (de_file_size e) \<le> FAT32_CLUSTER_SIZE * length cs" "unat (de_file_size e) < 2 ^ 31"
    and junk: "length junk = FAT32_CLUSTER_SIZE"
  shows "\<exists>s'. fat32_open rd junk (Some name) s = Some (int h, s') \<and>
    map_option fst (read_seq rd junk (int h) szs s') =
      Some (take (min (sum_list (map unat szs)) (unat (de_file_size e))) (file_bytes rd (fat32_fs s) cs))"
proof -
  let ?f = "\<lparr>first_cluster = fat32_make_cluster e, file_size = de_file_size e, current_position = 0, file_open = True\<rparr>"
  let ?s = "s\<lparr>fat32_files := (fat32_files s)[h := ?f]\<rparr>"
  have lt: "h < FAT32_MAX_FILES" by (rule first_closed_handle [OF assms(2) h])
  have geo: "geometry_ok (fat32_fs s)" "cluster_bytes (fat32_fs s) = FAT32_CLUSTER_SIZE"
    using assms(1) by (simp_all add: geometry_ok_def cluster_bytes_def)
  have "fat32_open rd junk (Some name) s = Some (int h, ?s)"
    using find_loop_chain [OF assms(1) root junk] e
    by (intro fat32_open_found [OF _ h]) (simp add: fat32_find_in_directory_def)
  moreover have "map_option fst (read_seq rd junk (int h) szs ?s) =
    Some (slice (unat (current_position ?f)) (min (sum_list (map unat szs)) (unat (file_size ?f) - unat (current_position ?f)))
      (file_bytes rd (fat32_fs ?s) cs))"
    by (rule read_seq_chain) (use geo lt assms(2) data junk in simp_all)
  ultimately show ?thesis by (simp add: slice_def)
qed

lemma read_sectors_overflow:
  assumes "sectors_readable rd lba (unat n)" "length buffer = 512 * m" "m < unat n" "unat n < 2 ^ 23"
  shows "fat32_read_sectors rd lba n buffer = None"
proof -
  have upt: "[0..<unat n] = [0..<m] @ m # [Suc m..<unat n]"
    using assms(3) upt_add_eq_append [of 0 m "unat n - m"] by (simp add: upt_conv_Cons)
  have pre: "sectors_readable rd lba m" "sectors_readable rd lba (Suc m)"
    using assms(1,3) unfolding sectors_readable_def by auto
  then obtain sec where sec: "rd (lba + of_nat m) = Some sec" "length sec = 512" by (auto simp: sectors_readable_Suc)
  have off: "unat (of_nat m * 512 :: u32) = 512 * m"
    using assms(3,4) by (simp add: unat_word_ariths unat_of_nat take_bit_nat_eq_self)
  have len: "length (sectors_data rd lba m) = 512 * m" by (rule length_sectors_data [OF pre(1)])
  have "read_sectors_loop rd lba [0..<m] buffer = Some (True, sectors_data rd lba m)"
    using read_sectors_loop_ok [OF pre(1), of buffer] assms(2-4) by simp
  then show ?thesis
    unfolding fat32_read_sectors_def upt using sec off len
    by (simp add: read_sectors_loop_append blit_checked_def)
qed

text \<open>
  The cluster buffer has 4096 bytes whatever the volume says: on a volume with more than 8 sectors per cluster, which the
  mount accepts, opening any file writes past the end of the buffer on the stack.
\<close>

theorem fat32_large_cluster_overflow:
  assumes "8 < sectors_per_cluster (fat32_fs s)" "sectors_per_cluster (fat32_fs s) \<le> 255"
    and "2 \<le> root_dir_cluster (fat32_fs s)" "\<not> fat32_is_eoc (root_dir_cluster (fat32_fs s))"
    and "cluster_readable rd (fat32_fs s) (root_dir_cluster (fat32_fs s))"
    and "first_idx (\<lambda>f. \<not> file_open f) (fat32_files s) = Some h" and "length junk = FAT32_CLUSTER_SIZE"
  shows "fat32_open rd junk (Some name) s = None"
proof -
  have "fat32_read_sectors rd (fat32_cluster_lba (fat32_fs s) (root_dir_cluster (fat32_fs s)))
          (sectors_per_cluster (fat32_fs s)) junk = None"
    using assms(1,2,5,7)
    by (intro read_sectors_overflow [where m = 8]) (simp_all add: cluster_readable_def word_less_nat_alt word_le_nat_alt)
  then have "find_loop rd (fat32_fs s) name (root_dir_cluster (fat32_fs s)) junk = None"
    using assms(3,4) by (subst find_loop.simps) simp
  then show ?thesis using assms(6) by (simp add: fat32_open_def fat32_find_in_directory_def)
qed

subsection \<open>Mounting\<close>

lemma read_one_sector:
  assumes "rd lba = Some sector" "length sector = FAT32_SECTOR_SIZE" "length junk = FAT32_CLUSTER_SIZE"
  shows "fat32_read_sectors rd lba 1 (take FAT32_SECTOR_SIZE junk) = Some (True, sector)"
proof -
  have "sectors_readable rd lba (unat (1 :: u32))" using assms(1,2) by (simp add: sectors_readable_def)
  then show ?thesis using assms by (simp add: fat32_read_sectors_ok sectors_data_def)
qed

lemma kmalloc_too_large:
  assumes "\<forall>b \<in> set (buddy_blocks heap). bb_size b \<le> 0x100000" "0x100000 < sz"
  shows "kmalloc sz owner heap = (0, heap)"
proof -
  have small: "sz \<noteq> 0" "slab_cache_index sz = None"
    using assms(2) unfolding slab_cache_index_def by (auto simp: word_less_nat_alt word_le_nat_alt)
  have "first_idx (\<lambda>b. \<not> bb_used b \<and> bb_size b \<ge> sz) (take (unat (buddy_block_count heap)) (buddy_blocks heap)) = None"
    unfolding first_idx_None_iff using assms by (meson in_set_takeD leD order.strict_trans2 order_trans)
  then show ?thesis using small by (simp add: kmalloc_def buddy_alloc_def)
qed

text \<open>
  A file allocation table of more than 2048 sectors (1 MB) is never loaded while the heap has its 1 MB blocks. The
  mount only logs that, and the file system stays usable: without its table every cluster counts as
  the last of its chain, so a file then ends after its first cluster.
\<close>

theorem fat32_large_fat_truncates:
  assumes "\<forall>b \<in> set (buddy_blocks heap). bb_size b \<le> 0x100000" and "2048 < fat_size_32 (bpb fs)"
  shows "fat32_load_fat rd fresh heap fs = Some (False, heap, fs\<lparr>fat_table := None\<rparr>) \<and>
    (2 \<le> c \<and> \<not> fat32_is_eoc c \<longrightarrow> chain (fs\<lparr>fat_table := None\<rparr>) c [c])"
proof -
  have "unat (ucast (fat_size_32 (bpb fs)) * 512 :: u64) = 512 * unat (fat_size_32 (bpb fs))"
    using unsigned_less [of "fat_size_32 (bpb fs)", where 'a = nat] by (simp add: unat_word_ariths unat_ucast_mod)
  then have "0x100000 < (ucast (fat_size_32 (bpb fs)) * 512 :: u64)"
    using assms(2) by (simp add: word_less_nat_alt)
  then have "fat32_load_fat rd fresh heap fs = Some (False, heap, fs\<lparr>fat_table := None\<rparr>)"
    using kmalloc_too_large [OF assms(1)] by (simp add: fat32_load_fat_def Let_def)
  then show ?thesis
    by (simp add: fat32_follow_cluster_chain_def fat32_get_fat_entry_def fat32_is_eoc_def)
qed

text \<open>
  A boot sector with zero sectors per cluster is rejected by the reader of the boot sector but stays in
  the mount's parameter block, and the check that follows does not look at that field: when no partition follows and the
  table can be loaded, the mount ends in a division by zero.
\<close>

theorem fat32_mount_divides_by_zero:
  assumes "rd 0 = Some sector" "length sector = FAT32_SECTOR_SIZE" "length junk = FAT32_CLUSTER_SIZE"
    and b: "bytes_per_sector (bpb_of sector) = 512" "bpb_sectors_per_cluster (bpb_of sector) = 0"
      "fat_size_32 (bpb_of sector) \<noteq> 0"
    and mbr: "\<forall>i < 4. sector ! (0x1BE + i * 16 + 4) \<notin> {0x0B, 0x0C}"
    and fat: "fat32_load_fat rd fresh heap (fat32_set_geometry
      ((fat32_fs s)\<lparr>partition_lba := 0, bpb := bpb_of sector\<rparr>)) = Some (True, heap', fs')"
  shows "fat32_initialize rd junk fresh heap s = None"
proof -
  note one = read_one_sector [of rd 0, OF assms(1-3)]
  have boot: "fat32_read_boot_sector rd junk 0 b' = Some (False, bpb_of sector)" for b'
    using one b by (simp add: fat32_read_boot_sector_def Let_def)
  have "partition_scan rd junk sector is fs = Some fs" if "\<forall>i \<in> set is. i < 4" for "is" fs
    using that mbr by (induction "is") (auto simp: Let_def)
  then have loc: "fat32_locate rd junk (fat32_fs s) = Some (True, (fat32_fs s)\<lparr>partition_lba := 0, bpb := bpb_of sector\<rparr>)"
    using one boot by (simp add: fat32_locate_def Let_def)
  have "sectors_per_cluster fs' = 0"
    using fat b(2) by (auto simp: fat32_load_fat_def fat32_set_geometry_def Let_def split: prod.splits if_splits option.splits bool.splits)
  then show ?thesis
    using loc b fat by (simp add: fat32_initialize_def Let_def)
qed

subsection \<open>An example volume\<close>

text \<open>
  A volume with a root directory in cluster 2 and a file of 5000 bytes in clusters 3 and 4; every sector but
  the first of the root directory is filled with the low byte of its number.
\<close>

definition example_entry :: "u8 list" where
  "example_entry = [82, 69, 65, 68, 77, 69, 32, 32, 84, 88, 84, 0x20, 0, 0, 0, 0, 0, 0, 0, 0, 0, 0, 0, 0, 0, 0,
     3, 0, 0x88, 0x13, 0, 0]"

definition example_disk :: disk where
  "example_disk lba = Some (if lba = 100 then example_entry @ replicate 480 0 else replicate 512 (ucast lba))"

definition example_table :: "u8 list" where
  "example_table = concat (map le32_bytes [0x0FFFFFF8, 0x0FFFFFFF, 0x0FFFFFFF, 4, 0x0FFFFFFF])"

definition example_fs :: fat32_fs_t where
  "example_fs = \<lparr>bpb = bpb_of (replicate 512 0), partition_lba = 0, fat_offset = 32, data_offset = 100, sectors_per_cluster = 8,
     root_dir_cluster = 2, fat_size_bytes = 20, fat_table = Some example_table\<rparr>"

definition example_state :: fat32_t where
  "example_state = \<lparr>fat32_fs = example_fs, fat32_files = replicate FAT32_MAX_FILES
     \<lparr>first_cluster = 0, file_size = 0, current_position = 0, file_open = False\<rparr>\<rparr>"

lemma example_readable: "cluster_readable example_disk fs c"
  by (simp add: cluster_readable_def sectors_readable_def example_disk_def example_entry_def)

lemma example_chains: "chain example_fs 2 [2]" "chain example_fs 3 [3, 4]"
  by code_simp+

definition example_found :: fat32_direntry_t where
  "example_found = direntry_of example_entry 0"

lemma example_directory: "find (entry_matches ''readme.txt'') (directory example_disk example_fs [2]) = Some example_found"
proof -
  define tail where "tail = concat (map (\<lambda>i. the (example_disk (100 + of_nat i))) [1..<8])"
  have data: "cluster_data example_disk example_fs 2 = example_entry @ replicate 480 0 @ tail"
    by (simp add: cluster_data_def example_fs_def sectors_data_def fat32_cluster_lba_def tail_def upt_conv_Cons)
       (simp add: example_disk_def)
  have offs: "entry_offsets = 0 # map (\<lambda>i. 32 * i) [1..<128]" by (simp add: entry_offsets_def upt_conv_Cons)
  have entry: "direntry_of (example_entry @ rest) 0 = example_found" for rest
    by (simp add: direntry_of_def example_found_def example_entry_def slice_def load_le16_def load_le32_def)
  have "entry_used example_found" "entry_matches ''readme.txt'' example_found" by code_simp+
  then show ?thesis
    by (simp add: directory_def cluster_entries_def offs data entry)
qed

lemma example_state_simps:
  "fat32_fs example_state = example_fs" "length (fat32_files example_state) = FAT32_MAX_FILES"
  "first_idx (\<lambda>f. \<not> file_open f) (fat32_files example_state) = Some 0"
  "sectors_per_cluster example_fs = 8" "root_dir_cluster example_fs = 2"
  by code_simp+

theorem fat32_root_directory_witness:
  "fat32_find_in_directory example_disk (replicate 4096 7) example_fs 2 ''readme.txt'' =
     Some (find (entry_matches ''readme.txt'') (directory example_disk example_fs [2])) \<and>
   fat32_enumerate_root example_disk (replicate 4096 7) example_fs =
     Some (True, map (\<lambda>e. (fat32_extract_entry_name e, de_file_size e))
                   (filter (\<lambda>e. \<not> entry_skipped e) (directory example_disk example_fs [2])))"
  using fat32_root_directory [of example_fs "[2]" example_disk "replicate 4096 7" "''readme.txt''"]
    example_chains(1) example_readable by (simp add: example_fs_def)

lemma example_found_simps: "fat32_make_cluster example_found = 3" "de_file_size example_found = 5000"
  by code_simp+

theorem fat32_open_read_witness:
  "\<exists>s'. fat32_open example_disk (replicate 4096 7) (Some ''readme.txt'') example_state = Some (0, s') \<and>
    map_option fst (read_seq example_disk (replicate 4096 7) 0 [3000, 1000, 9000] s') =
      Some (take 5000 (file_bytes example_disk example_fs [3, 4]))"
proof -
  have "\<exists>s'. fat32_open example_disk (replicate 4096 7) (Some ''readme.txt'') example_state = Some (int 0, s') \<and>
    map_option fst (read_seq example_disk (replicate 4096 7) (int 0) [3000, 1000, 9000] s') =
      Some (take (min (sum_list (map unat [3000, 1000, 9000 :: u64])) (unat (de_file_size example_found)))
        (file_bytes example_disk (fat32_fs example_state) [3, 4]))"
    using example_directory example_chains example_readable
    by (intro fat32_open_read [where ds = "[2]"]) (simp_all add: example_state_simps example_found_simps)
  then show ?thesis by (simp add: example_state_simps example_found_simps)
qed

theorem fat32_large_cluster_overflow_witness:
  "fat32_open example_disk (replicate 4096 7) (Some ''readme.txt'')
     (example_state\<lparr>fat32_fs := example_fs\<lparr>sectors_per_cluster := 16\<rparr>\<rparr>) = None"
  by (rule fat32_large_cluster_overflow [where h = 0])
     (simp_all add: example_readable example_state_simps fat32_is_eoc_def)

theorem fat32_large_fat_truncates_witness:
  "fat32_load_fat example_disk (\<lambda>_. []) heap0 (example_fs\<lparr>bpb := (bpb example_fs)\<lparr>fat_size_32 := 4096\<rparr>\<rparr>) =
     Some (False, heap0, example_fs\<lparr>bpb := (bpb example_fs)\<lparr>fat_size_32 := 4096\<rparr>, fat_table := None\<rparr>) \<and>
   chain (example_fs\<lparr>bpb := (bpb example_fs)\<lparr>fat_size_32 := 4096\<rparr>, fat_table := None\<rparr>) 3 [3]"
proof -
  have "\<forall>b \<in> set (buddy_blocks heap0). bb_size b \<le> 0x100000"
    by (auto simp: heap_initialize_def init_buddy_blocks_def)
  from fat32_large_fat_truncates [OF this, of "example_fs\<lparr>bpb := (bpb example_fs)\<lparr>fat_size_32 := 4096\<rparr>\<rparr>" example_disk "\<lambda>_. []" 3]
  show ?thesis by (simp add: fat32_is_eoc_def)
qed

text \<open>A boot sector with 512 bytes per sector, a table of one sector and no sectors per cluster.\<close>

definition zero_cluster_boot :: "u8 list" where
  "zero_cluster_boot = replicate 11 0 @ [0, 2, 0, 32, 0, 1] @ replicate 19 0 @ [1] @ replicate 475 0"

definition zero_cluster_disk :: disk where
  "zero_cluster_disk lba = Some (if lba = 0 then zero_cluster_boot else replicate 512 0)"

lemma kmalloc_512: "kmalloc 512 owner heap0 = (0x200000, take_cell (Block 0) 512 owner heap0)"
proof -
  have "first_idx (\<lambda>b. \<not> bb_used b \<and> 512 \<le> bb_size b) (take 64 (buddy_blocks heap0)) = Some 0"
    by (rule first_idx_SomeI) (simp_all add: heap_initialize_def init_buddy_blocks_def)
  then show ?thesis
    by (simp add: kmalloc_def slab_cache_index_def buddy_alloc_def) (simp add: heap_initialize_def init_buddy_blocks_def)
qed

lemma zero_cluster_load:
  assumes "fat_size_32 (bpb fs) = 1" "fat_offset fs = 32"
  shows "fat32_load_fat zero_cluster_disk (\<lambda>_. replicate 4096 7) heap0 fs =
    Some (True, take_cell (Block 0) 512 ''fat32'' heap0,
          fs\<lparr>fat_table := Some (replicate 512 0), fat_size_bytes := 512\<rparr>)"
  using kmalloc_512 [of "''fat32''"] assms
    read_one_sector [of zero_cluster_disk 32 "replicate 512 0" "replicate 4096 7"]
  by (simp add: fat32_load_fat_def Let_def zero_cluster_disk_def)

theorem fat32_mount_divides_by_zero_witness:
  "fat32_initialize zero_cluster_disk (replicate 4096 7) (\<lambda>_. replicate 4096 7) heap0 example_state = None"
proof (rule fat32_mount_divides_by_zero)
  show "zero_cluster_disk 0 = Some zero_cluster_boot" by (simp add: zero_cluster_disk_def)
  show "length zero_cluster_boot = 512" by (simp add: zero_cluster_boot_def)
  show "length (replicate 4096 7) = 4096" by simp
  show "bytes_per_sector (bpb_of zero_cluster_boot) = 512" "bpb_sectors_per_cluster (bpb_of zero_cluster_boot) = 0"
    "fat_size_32 (bpb_of zero_cluster_boot) \<noteq> 0" by code_simp+
  show "\<forall>i < 4. zero_cluster_boot ! (0x1BE + i * 16 + 4) \<notin> {0x0B, 0x0C}"
    by (simp add: zero_cluster_boot_def nth_append)
  show "fat32_load_fat zero_cluster_disk (\<lambda>_. replicate 4096 7) heap0 (fat32_set_geometry
      ((fat32_fs example_state)\<lparr>partition_lba := 0, bpb := bpb_of zero_cluster_boot\<rparr>)) =
    Some (True, take_cell (Block 0) 512 ''fat32'' heap0, (fat32_set_geometry
      ((fat32_fs example_state)\<lparr>partition_lba := 0, bpb := bpb_of zero_cluster_boot\<rparr>))
        \<lparr>fat_table := Some (replicate 512 0), fat_size_bytes := 512\<rparr>)"
    by (rule zero_cluster_load) (code_simp)+
qed

end
