(* ===== verification/Services.thy ===== *)
theory Services
  imports Scheduler Overlays Clipboard Usb Fat32
begin

text \<open>
  The background services of \<^verbatim>\<open>services.c\<close>: the print and tone queues with the spooler task, the clipboard
  daemon, the input monitor, the disk indexer, and the creation of the 200 service tasks. A service task is an endless loop
  that ends every round with \<^verbatim>\<open>task_yield\<close>; the model is the body of one round up to that call.

  The theorems show that up to eight queued messages are printed in order and completely, that a ninth
  loses the eight before it, when the clipboard daemon posts a notification, and which tasks are created.
\<close>

abbreviation BACKGROUND_SERVICE_COUNT :: nat where "BACKGROUND_SERVICE_COUNT \<equiv> 200"
abbreviation SERVICE_NAME_BUFFER :: nat where "SERVICE_NAME_BUFFER \<equiv> 32"
abbreviation PRINT_QUEUE_SLOTS :: nat where "PRINT_QUEUE_SLOTS \<equiv> 8"
abbreviation PRINT_MESSAGE_SIZE :: nat where "PRINT_MESSAGE_SIZE \<equiv> 128"
abbreviation AUDIO_QUEUE_SLOTS :: nat where "AUDIO_QUEUE_SLOTS \<equiv> 8"

record tone_slot =
  frequency :: u32
  duration_ms :: u32
  tone_valid :: bool

text \<open>
  The static variables of the file. The heads and tails stay below 8 by the remainders that update them, the
  offset below 128 because every row of the queue holds a NUL.
\<close>

record services_t =
  service_names :: "string list"
  service_id_map :: "u32 list"
  disk_index_ready :: bool
  disk_indexed_files :: u32
  clipboard_snapshot :: "u8 list"
  print_queue :: "u8 list list"
  print_head :: nat
  print_tail :: nat
  print_offset :: nat
  print_queue_full :: bool
  audio_queue :: "tone_slot list"
  audio_head :: nat
  audio_tail :: nat
  audio_queue_full :: bool

definition services_static :: services_t where
  "services_static = \<lparr>service_names = replicate BACKGROUND_SERVICE_COUNT '''',
     service_id_map = replicate BACKGROUND_SERVICE_COUNT 0, disk_index_ready = False, disk_indexed_files = 0,
     clipboard_snapshot = replicate 64 0, print_queue = replicate PRINT_QUEUE_SLOTS (replicate PRINT_MESSAGE_SIZE 0),
     print_head = 0, print_tail = 0, print_offset = 0, print_queue_full = False,
     audio_queue = replicate AUDIO_QUEUE_SLOTS \<lparr>frequency = 0, duration_ms = 0, tone_valid = False\<rparr>,
     audio_head = 0, audio_tail = 0, audio_queue_full = False\<rparr>"

subsection \<open>The queues\<close>

text \<open>\<open>text\<close> is the bytes of the C string before its NUL.\<close>

definition spool_print :: "u8 list option \<Rightarrow> services_t \<Rightarrow> services_t" where
  "spool_print txt s =
     (case txt of
        None \<Rightarrow> s
      | Some text \<Rightarrow>
          (let nxt = (print_tail s + 1) mod PRINT_QUEUE_SLOTS in
           if nxt = print_head s \<and> print_queue_full s then s
           else
             let row = print_queue s ! print_tail s;
                 s = s\<lparr>print_queue := (print_queue s)[print_tail s := blit row 0 (take (PRINT_MESSAGE_SIZE - 1) text @ [0])],
                       print_tail := nxt\<rparr>
             in if print_tail s = print_head s then s\<lparr>print_queue_full := True\<rparr> else s))"

definition spool_audio_tone :: "u32 \<Rightarrow> u32 \<Rightarrow> services_t \<Rightarrow> services_t" where
  "spool_audio_tone freq duration s =
     (let nxt = (audio_tail s + 1) mod AUDIO_QUEUE_SLOTS in
      if nxt = audio_head s \<and> audio_queue_full s then s
      else
        let s = s\<lparr>audio_queue := (audio_queue s)[audio_tail s := \<lparr>frequency = freq, duration_ms = duration, tone_valid = True\<rparr>],
                  audio_tail := nxt\<rparr>
        in if audio_tail s = audio_head s then s\<lparr>audio_queue_full := True\<rparr> else s)"

text \<open>What a round of the spooler sends to the devices.\<close>

datatype spool_effect = Play_tone u32 u32 | Serial_putchar u8

definition spool_tone_round :: "services_t \<Rightarrow> spool_effect list \<times> services_t" where
  "spool_tone_round s =
     (let slot = audio_queue s ! audio_head s in
      if tone_valid slot
      then ([Play_tone (frequency slot) (duration_ms slot)],
            s\<lparr>audio_queue := (audio_queue s)[audio_head s := slot\<lparr>tone_valid := False\<rparr>],
              audio_head := (audio_head s + 1) mod AUDIO_QUEUE_SLOTS, audio_queue_full := False\<rparr>)
      else ([], s))"

definition spool_print_round :: "services_t \<Rightarrow> spool_effect list \<times> services_t" where
  "spool_print_round s =
     (if print_head s \<noteq> print_tail s \<or> print_offset s \<noteq> 0 \<or> print_queue_full s
      then let c = print_queue s ! print_head s ! print_offset s in
           if c \<noteq> 0 then ([Serial_putchar c], s\<lparr>print_offset := print_offset s + 1\<rparr>)
           else ([], s\<lparr>print_queue := (print_queue s)[print_head s := (print_queue s ! print_head s)[0 := 0]],
                       print_head := (print_head s + 1) mod PRINT_QUEUE_SLOTS, print_offset := 0,
                       print_queue_full := False\<rparr>)
      else ([], s))"

definition audio_spooler_service :: "services_t \<Rightarrow> spool_effect list \<times> services_t" where
  "audio_spooler_service s =
     (let (tones, s) = spool_tone_round s; (chars, s) = spool_print_round s in (tones @ chars, s))"

fun spooler_rounds :: "nat \<Rightarrow> services_t \<Rightarrow> spool_effect list \<times> services_t" where
  "spooler_rounds 0 s = ([], s)"
| "spooler_rounds (Suc n) s =
     (let (es, s) = audio_spooler_service s; (es', s) = spooler_rounds n s in (es @ es', s))"

subsection \<open>The other services\<close>

text \<open>The copy loop of the clipboard daemon: the snapshot and whether a character differed.\<close>

fun snapshot_loop :: "u8 list \<Rightarrow> nat list \<Rightarrow> u8 list \<times> bool \<Rightarrow> u8 list \<times> bool" where
  "snapshot_loop data [] st = st"
| "snapshot_loop data (i # is) (snapshot, changed) =
     (let c = data ! i; st = (snapshot[i := c], changed \<or> snapshot ! i \<noteq> c) in
      if c = 0 then st else snapshot_loop data is st)"

definition clipboard_daemon_service ::
    "clipboard_t \<Rightarrow> services_t \<times> notifications_t \<Rightarrow> services_t \<times> notifications_t" where
  "clipboard_daemon_service cb = (\<lambda>(s, n).
     case clipboard_paste cb of
       None \<Rightarrow> (s, n)
     | Some data \<Rightarrow>
         (let (snapshot, changed) = snapshot_loop data [0..<63] (clipboard_snapshot s, False) in
          (s\<lparr>clipboard_snapshot := snapshot\<rparr>,
           if changed then notification_post ''Clipboard Daemon'' ''Clipboard contents updated'' 0 n else n)))"

text \<open>The two flags are the local variables that the input monitor keeps between its rounds.\<close>

definition input_monitor_service ::
    "(nat \<Rightarrow> u32) \<Rightarrow> (bool \<times> bool) \<times> usb_t \<times> notifications_t \<Rightarrow> (bool \<times> bool) \<times> usb_t \<times> notifications_t" where
  "input_monitor_service portsc = (\<lambda>((had_keyboard, had_mouse), u, n).
     let u = usb_poll portsc u;
         has_keyboard = usb_has_keyboard u; has_mouse = usb_has_mouse u;
         n = (if has_keyboard \<and> \<not> had_keyboard then notification_post ''Input Monitor'' ''USB keyboard detected'' 0 n else n);
         n = (if has_mouse \<and> \<not> had_mouse then notification_post ''Input Monitor'' ''USB mouse detected'' 0 n else n)
     in ((has_keyboard, has_mouse), u, n))"

text \<open>Each call of \<^verbatim>\<open>disk_index_callback\<close> adds one to the counter.\<close>

definition disk_indexer_service ::
    "disk \<Rightarrow> u8 list \<Rightarrow> fat32_fs_t \<Rightarrow> services_t \<times> notifications_t \<Rightarrow> (services_t \<times> notifications_t) option" where
  "disk_indexer_service rd junk fs = (\<lambda>(s, n).
     if disk_index_ready s then Some (s, n)
     else case fat32_enumerate_root rd junk fs of
            None \<Rightarrow> None
          | Some (True, calls) \<Rightarrow>
              Some (s\<lparr>disk_index_ready := True, disk_indexed_files := of_nat (length calls)\<rparr>,
                    notification_post ''Disk/File Indexer'' ''FAT32 root directory indexed'' 0 n)
          | Some (False, _) \<Rightarrow> Some (s, notification_post ''Disk/File Indexer'' ''Indexing failed'' 1 n))"

subsection \<open>Starting the services\<close>

definition service_table :: "string list" where
  "service_table = [''Disk/File Indexer'', ''Input Monitor / Polling'', ''Clipboard Daemon'', ''Print / Audio Spooler'']"

definition digit :: "nat \<Rightarrow> char" where
  "digit n = char_of (48 + n mod 10)"

definition service_name :: "nat \<Rightarrow> string" where
  "service_name i =
     (if i < length service_table then take (SERVICE_NAME_BUFFER - 1) (service_table ! i)
      else let name = take (SERVICE_NAME_BUFFER - 1) ''BackgroundService''; value = i + 1 in
           if length name < SERVICE_NAME_BUFFER - 4
           then name @ [digit (value div 100), digit (value div 10), digit value] else name)"

text \<open>
  One round of the loop; \<open>entries\<close> are the addresses of the four service functions and \<open>generic\<close> that of
  \<^verbatim>\<open>generic_background_service\<close>.
\<close>

definition start_service ::
    "u64 \<Rightarrow> u64 \<Rightarrow> u64 list \<Rightarrow> u64 \<Rightarrow> nat \<Rightarrow> services_t \<times> sched_t \<Rightarrow> (services_t \<times> sched_t) option" where
  "start_service wrapper stacks entries generic i = (\<lambda>(s, sch).
     let s = s\<lparr>service_names := (service_names s)[i := service_name i]\<rparr>;
         entry = (if i < length service_table then entries ! i else generic)
     in case create_task wrapper stacks (service_name i) entry 1 sch of
          None \<Rightarrow> None
        | Some (None, sch) \<Rightarrow> Some (s, sch)
        | Some (Some task, sch) \<Rightarrow>
            Some (s\<lparr>service_id_map := (service_id_map s)[i := of_nat i]\<rparr>,
                  update_task task (\<lambda>t. t\<lparr>tcb_memory_kb := of_nat i\<rparr>) sch))"

definition background_services_initialize ::
    "u64 \<Rightarrow> u64 \<Rightarrow> u64 list \<Rightarrow> u64 \<Rightarrow> services_t \<times> sched_t \<Rightarrow> (services_t \<times> sched_t) option" where
  "background_services_initialize wrapper stacks entries generic st =
     (case ofold (start_service wrapper stacks entries generic) [0..<BACKGROUND_SERVICE_COUNT] st of
        None \<Rightarrow> None
      | Some (s, sch) \<Rightarrow>
          Some (spool_audio_tone 440 40 (spool_print (Some (map of_char ''[Spooler] System print queue initialized'' @ [10])) s), sch))"

subsection \<open>The print queue\<close>

definition print_count :: "services_t \<Rightarrow> nat" where
  "print_count s =
     (if print_head s = print_tail s then (if print_queue_full s then 8 else 0)
      else (print_tail s + 8 - print_head s) mod 8)"

definition print_messages :: "services_t \<Rightarrow> u8 list list" where
  "print_messages s = map (\<lambda>k. c_string (print_queue s ! ((print_head s + k) mod 8))) [0..<print_count s]"

text \<open>The bytes the spooler has still to send.\<close>

definition unprinted :: "services_t \<Rightarrow> u8 list" where
  "unprinted s = drop (print_offset s) (concat (print_messages s))"

definition print_inv :: "services_t \<Rightarrow> bool" where
  "print_inv s \<longleftrightarrow> length (print_queue s) = 8 \<and> (\<forall>r \<in> set (print_queue s). length r = 128) \<and>
     print_head s < 8 \<and> print_tail s < 8 \<and> (\<forall>m \<in> set (print_messages s). length m < 128) \<and>
     (print_messages s = [] \<longrightarrow> print_offset s = 0) \<and>
     (print_messages s \<noteq> [] \<longrightarrow> print_offset s \<le> length (hd (print_messages s)))"

lemma slot_eq: "h < 8 \<Longrightarrow> t < 8 \<Longrightarrow> h \<noteq> t \<Longrightarrow> (h + (t + 8 - h) mod 8) mod 8 = t" for h t :: nat
proof (cases "h < t")
  case True
  assume *: "h < 8" "t < 8"
  have shift: "t + 8 - h = (t - h) + 8" using True by simp
  have "(t + 8 - h) mod 8 = t - h" unfolding shift mod_add_self2 using * by simp
  then show ?thesis using True * by simp
qed (simp_all add: mod_if)

lemma slot_neq: "k < c \<Longrightarrow> c < 8 \<Longrightarrow> (h + k) mod 8 \<noteq> (h + c) mod 8" for h k c :: nat
proof
  assume *: "k < c" "c < 8" "(h + k) mod 8 = (h + c) mod 8"
  then have "8 dvd (h + c) - (h + k)" by (intro mod_eq_dvd_iff_nat [THEN iffD1]) simp_all
  then show False using * by (auto dest: dvd_imp_le)
qed

lemma slot_distance: "h < 8 \<Longrightarrow> c < 8 \<Longrightarrow> ((h + c) mod 8 + 8 - h) mod 8 = c" for h c :: nat
  by (cases "h + c < 8") (simp_all add: mod_if)

lemma print_tail_eq:
  assumes "print_head s < 8" "print_tail s < 8"
  shows "(print_head s + print_count s) mod 8 = print_tail s"
  using assms slot_eq [OF assms] by (auto simp: print_count_def)

lemma print_count_le: "print_count s \<le> 8"
  by (simp add: print_count_def)

lemma print_count_unique:
  assumes "print_head s < 8" "(print_head s + c) mod 8 = print_tail s" "c \<le> 8"
    "c = 0 \<longrightarrow> \<not> print_queue_full s" "c = 8 \<longrightarrow> print_queue_full s"
  shows "print_count s = c"
proof (cases "c = 0 \<or> c = 8")
  case True
  then show ?thesis using assms by (auto simp: print_count_def)
next
  case False
  then have c: "0 < c" "c < 8" using assms(3) by auto
  have "print_head s \<noteq> (print_head s + c) mod 8"
    using slot_neq [OF c, of "print_head s"] assms(1) by simp
  then show ?thesis using assms(1,2) slot_distance [OF assms(1) c(2)] by (simp add: print_count_def)
qed

lemma length_print_messages [simp]: "length (print_messages s) = print_count s"
  by (simp add: print_messages_def)

lemma print_messages_eq:
  "print_count s = c \<Longrightarrow> print_messages s = map (\<lambda>k. c_string (print_queue s ! ((print_head s + k) mod 8))) [0..<c]"
  by (simp add: print_messages_def)

lemma c_string_row: "0 \<notin> set msg \<Longrightarrow> c_string (blit row 0 (take 127 msg @ [0])) = take 127 msg"
proof -
  assume "0 \<notin> set msg"
  then have "0 \<notin> set (take 127 msg)" by (meson in_set_takeD)
  then have "c_string (take 127 msg @ 0 # drop (Suc (min (length msg) 127)) row) = take 127 msg"
    by (simp add: c_string_append) (simp add: c_string_def)
  then show ?thesis by (simp add: blit_def)
qed

lemma print_count_not_full: "\<not> print_queue_full s \<Longrightarrow> print_count s < 8"
  by (simp add: print_count_def)

text \<open>The queue after a message is written to the slot at the tail.\<close>

lemma spool_print_messages:
  assumes inv: "print_inv s" and nul: "0 \<notin> set msg" and room: "\<not> print_queue_full s"
  shows "print_messages (spool_print (Some msg) s) = print_messages s @ [take 127 msg]"
    and "print_inv (spool_print (Some msg) s)"
    and "print_offset (spool_print (Some msg) s) = print_offset s"
    and "print_queue_full (spool_print (Some msg) s) \<longleftrightarrow> print_count s = 7"
proof -
  define s' c t where "s' = spool_print (Some msg) s" and "c = print_count s" and "t = print_tail s"
  let ?h = "print_head s" and ?row = "blit (print_queue s ! t) 0 (take 127 msg @ [0])"
  have b: "?h < 8" "t < 8" "length (print_queue s) = 8" "\<forall>r \<in> set (print_queue s). length r = 128"
    using inv by (auto simp: print_inv_def t_def)
  have c: "c < 8" using print_count_not_full [OF room] by (simp add: c_def)
  have t: "(?h + c) mod 8 = t" using print_tail_eq b(1,2) unfolding c_def t_def by blast
  have nxt: "(?h + Suc c) mod 8 = (t + 1) mod 8" unfolding t [symmetric] by (simp add: mod_Suc_eq)
  have f: "print_queue s' = (print_queue s)[t := ?row]" "print_head s' = ?h" "print_tail s' = (t + 1) mod 8"
    "print_offset s' = print_offset s" "print_queue_full s' \<longleftrightarrow> (t + 1) mod 8 = ?h"
    using room by (auto simp: s'_def spool_print_def Let_def t_def)
  have full: "(t + 1) mod 8 = ?h \<longleftrightarrow> c = 7"
    unfolding nxt [symmetric] using slot_neq [of 0 "Suc c" ?h] c b(1) by (cases "c = 7") (auto simp: add.commute)
  have count: "print_count s' = Suc c"
    using b(1) c f nxt full by (intro print_count_unique) auto
  have old: "c_string (print_queue s' ! ((?h + k) mod 8)) = c_string (print_queue s ! ((?h + k) mod 8))" if "k < c" for k
    using slot_neq [OF that c, of ?h] t f(1) by simp
  have new: "c_string (print_queue s' ! ((?h + c) mod 8)) = take 127 msg"
    using t f(1) b(2,3) c_string_row [OF nul] by simp
  show msgs: "print_messages (spool_print (Some msg) s) = print_messages s @ [take 127 msg]"
    using old new unfolding s'_def [symmetric] print_messages_eq [OF count] print_messages_eq [OF c_def [symmetric]] f(2)
    by simp
  have "length ?row = 128" using b by (auto simp: blit_def)
  then have rows: "\<forall>r \<in> set (print_queue s'). length r = 128"
    unfolding f(1) using b(4) set_update_subset_insert by fastforce
  show "print_inv (spool_print (Some msg) s)"
    using inv rows b f msgs unfolding s'_def [symmetric] print_inv_def by (cases "print_messages s") auto
  show "print_offset (spool_print (Some msg) s) = print_offset s"
    "print_queue_full (spool_print (Some msg) s) \<longleftrightarrow> print_count s = 7"
    using f full unfolding s'_def [symmetric] c_def by auto
qed

lemma spool_print_when_full:
  assumes inv: "print_inv s" and nul: "0 \<notin> set msg" and full: "print_count s = 8" and off: "print_offset s = 0"
  shows "print_messages (spool_print (Some msg) s) = [take 127 msg]" and "print_inv (spool_print (Some msg) s)"
    and "print_offset (spool_print (Some msg) s) = 0"
proof -
  define s' h where "s' = spool_print (Some msg) s" and "h = print_head s"
  have b: "h < 8" "length (print_queue s) = 8" "\<forall>r \<in> set (print_queue s). length r = 128"
    using inv by (auto simp: print_inv_def h_def)
  have f: "print_tail s = h" "print_queue_full s"
    using full by (auto simp: print_count_def h_def split: if_splits)
  have ne: "(h + 1) mod 8 \<noteq> h" using slot_neq [of 0 1 h] b(1) by simp
  let ?row = "blit (print_queue s ! h) 0 (take 127 msg @ [0])"
  have s': "print_queue s' = (print_queue s)[h := ?row]" "print_head s' = h" "print_tail s' = (h + 1) mod 8" "print_offset s' = 0"
    using ne f off by (auto simp: s'_def spool_print_def Let_def h_def)
  have count: "print_count s' = 1" by (rule print_count_unique) (use b(1) s' in auto)
  have msgs: "print_messages s' = [take 127 msg]"
    using b s' c_string_row [OF nul] by (simp add: print_messages_eq [OF count])
  have "length ?row = 128" using b by (auto simp: blit_def)
  then have rows: "\<forall>r \<in> set (print_queue s'). length r = 128"
    unfolding s'(1) using b(3) set_update_subset_insert by fastforce
  then have "print_inv s'" using b s' msgs by (simp add: print_inv_def)
  then show "print_messages (spool_print (Some msg) s) = [take 127 msg]" "print_inv (spool_print (Some msg) s)"
    "print_offset (spool_print (Some msg) s) = 0" using msgs s'(4) by (simp_all add: s'_def)
qed

text \<open>The serial output of a sequence of effects, and the number of rounds the queue still needs.\<close>

definition printed :: "spool_effect list \<Rightarrow> u8 list" where
  "printed es = List.map_filter (\<lambda>e. case e of Serial_putchar c \<Rightarrow> Some c | Play_tone _ _ \<Rightarrow> None) es"

definition print_work :: "services_t \<Rightarrow> nat" where
  "print_work s = length (unprinted s) + print_count s"

lemma printed_append: "printed (xs @ ys) = printed xs @ printed ys"
  by (induction xs) (auto simp: printed_def map_filter_simps split: spool_effect.splits)

lemma print_count_0:
  assumes "print_head s < 8" "print_tail s < 8"
  shows "print_count s = 0 \<longleftrightarrow> print_head s = print_tail s \<and> \<not> print_queue_full s"
proof
  assume 0: "print_count s = 0"
  have "print_head s = print_tail s" using print_tail_eq [OF assms] assms(1) unfolding 0 by simp
  then show "print_head s = print_tail s \<and> \<not> print_queue_full s"
    using 0 by (simp add: print_count_def split: if_splits)
qed (simp add: print_count_def)

lemma print_active:
  assumes "print_inv s"
  shows "(print_head s \<noteq> print_tail s \<or> print_offset s \<noteq> 0 \<or> print_queue_full s) \<longleftrightarrow> print_messages s \<noteq> []"
proof -
  have b: "print_head s < 8" "print_tail s < 8" "print_messages s = [] \<longrightarrow> print_offset s = 0"
    using assms by (simp_all add: print_inv_def)
  have "print_messages s = [] \<longleftrightarrow> print_count s = 0" by (metis length_0_conv length_print_messages)
  then show ?thesis using print_count_0 [OF b(1,2)] b(3) by auto
qed

lemma print_head_row:
  assumes "print_inv s" "print_messages s = m # ms"
  shows "print_queue s ! print_head s ! print_offset s \<noteq> 0 \<longleftrightarrow> print_offset s < length m"
    and "print_offset s < length m \<Longrightarrow> print_queue s ! print_head s ! print_offset s = m ! print_offset s"
    and "print_offset s \<le> length m"
proof -
  let ?row = "print_queue s ! print_head s"
  obtain c where c: "print_count s = Suc c" using assms(2) by (metis length_print_messages length_Cons)
  have b: "print_head s < 8" "length (print_queue s) = 8" "\<forall>r \<in> set (print_queue s). length r = 128"
    "length m < 128" and off: "print_offset s \<le> length m"
    using assms by (auto simp: print_inv_def)
  have m: "m = takeWhile (\<lambda>c. c \<noteq> 0) ?row"
    using assms(2) b(1) unfolding print_messages_eq [OF c] upt_conv_Cons [OF zero_less_Suc] by (simp add: c_string_def)
  have len: "length ?row = 128" using b by simp
  show "print_offset s \<le> length m" by (rule off)
  show nth: "print_offset s < length m \<Longrightarrow> ?row ! print_offset s = m ! print_offset s"
    by (simp add: m takeWhile_nth)
  have "m ! k \<noteq> 0" if "k < length m" for k using nth_mem [OF that] set_takeWhileD unfolding m by fastforce
  moreover have "?row ! length m = 0" using nth_length_takeWhile [of "\<lambda>c. c \<noteq> 0" ?row] b(4) len unfolding m by simp
  ultimately show "?row ! print_offset s \<noteq> 0 \<longleftrightarrow> print_offset s < length m"
    using nth off by (cases "print_offset s = length m") auto
qed

text \<open>Retiring the message at the head.\<close>

lemma print_retire:
  assumes inv: "print_inv s" and ms: "print_messages s = m # ms"
    and s': "s' = s\<lparr>print_queue := (print_queue s)[print_head s := (print_queue s ! print_head s)[0 := 0]],
      print_head := (print_head s + 1) mod PRINT_QUEUE_SLOTS, print_offset := 0, print_queue_full := False\<rparr>"
  shows "print_messages s' = ms" and "print_inv s'"
proof -
  obtain c where c: "print_count s = Suc c" using ms by (metis length_print_messages length_Cons)
  let ?h = "print_head s"
  have b: "?h < 8" "print_tail s < 8" "length (print_queue s) = 8" "\<forall>r \<in> set (print_queue s). length r = 128" "c < 8"
    using inv c print_count_le [of s] by (auto simp: print_inv_def)
  have count: "print_count s' = c"
  proof (rule print_count_unique)
    show "(print_head s' + c) mod 8 = print_tail s'"
      using print_tail_eq [OF b(1,2)] unfolding c s' by (simp add: mod_simps)
  qed (use b s' in auto)
  have slot: "(print_head s' + k) mod 8 = (?h + Suc k) mod 8" for k by (simp add: s' mod_simps)
  have row: "print_queue s' ! ((?h + Suc k) mod 8) = print_queue s ! ((?h + Suc k) mod 8)" if "k < c" for k
    using slot_neq [of 0 "Suc k" ?h] that b(1,5) by (cases "Suc k < 8") (auto simp: s')
  show "print_messages s' = ms"
    using ms row
    unfolding print_messages_eq [OF count] print_messages_eq [OF c] slot upt_conv_Cons [OF zero_less_Suc] map_Suc_upt [symmetric]
    by (auto simp: comp_def)
  moreover have "\<forall>r \<in> set (print_queue s'). length r = 128"
    using b(1,3,4) unfolding s' by (auto dest!: set_list_update_cases)
  ultimately show "print_inv s'"
    using inv ms b s' by (auto simp: print_inv_def)
qed

lemma print_round:
  assumes inv: "print_inv s" and round: "spool_print_round s = (es, s')"
  shows "printed es @ unprinted s' = unprinted s \<and> print_inv s' \<and> print_work s' = print_work s - 1"
proof (cases "print_messages s")
  case Nil
  then have "es = []" "s' = s" using round print_active [OF inv] by (auto simp: spool_print_round_def)
  moreover have "print_count s = 0" using Nil by (metis length_print_messages list.size(3))
  ultimately show ?thesis using Nil inv by (simp add: printed_def map_filter_simps print_work_def unprinted_def)
next
  case (Cons m ms)
  note row = print_head_row [OF inv Cons]
  have act: "print_head s \<noteq> print_tail s \<or> print_offset s \<noteq> 0 \<or> print_queue_full s"
    using print_active [OF inv] Cons by simp
  show ?thesis
  proof (cases "print_offset s < length m")
    case True
    then have es: "es = [Serial_putchar (m ! print_offset s)]" "s' = s\<lparr>print_offset := print_offset s + 1\<rparr>"
      using round act row by (auto simp: spool_print_round_def Let_def)
    have same: "print_messages s' = print_messages s" "print_count s' = print_count s"
      by (simp_all add: es print_messages_def print_count_def)
    have "unprinted s = m ! print_offset s # unprinted s'"
      using True Cons same(1) by (simp add: unprinted_def es Cons_nth_drop_Suc [symmetric])
    moreover have "print_inv s'" using inv True Cons same(1) by (auto simp: print_inv_def es)
    ultimately show ?thesis using same(2) by (simp add: es(1) printed_def map_filter_simps print_work_def)
  next
    case False
    then have off: "print_offset s = length m" using row(3) by simp
    then have es: "es = []" "s' = s\<lparr>print_queue := (print_queue s)[print_head s := (print_queue s ! print_head s)[0 := 0]],
        print_head := (print_head s + 1) mod PRINT_QUEUE_SLOTS, print_offset := 0, print_queue_full := False\<rparr>"
      using round act row(1) by (auto simp: spool_print_round_def Let_def)
    note r = print_retire [OF inv Cons es(2)]
    have "print_offset s' = 0" by (simp add: es(2))
    then have same: "unprinted s' = unprinted s" using r(1) Cons off by (simp add: unprinted_def)
    have "Suc (print_count s') = print_count s"
      using r(1) Cons by (metis length_Cons length_print_messages)
    then show ?thesis using r(2) same by (simp add: es(1) printed_def map_filter_simps print_work_def)
  qed
qed

lemma tone_round_print:
  assumes "spool_tone_round s = (es, s')"
  shows "printed es = []" and "print_messages s' = print_messages s" and "print_inv s' \<longleftrightarrow> print_inv s"
    and "unprinted s' = unprinted s" and "print_work s' = print_work s"
proof -
  have same: "print_queue s' = print_queue s" "print_head s' = print_head s" "print_tail s' = print_tail s"
    "print_offset s' = print_offset s" "print_queue_full s' = print_queue_full s"
    using assms by (auto simp: spool_tone_round_def Let_def split: if_splits)
  then show "print_messages s' = print_messages s" "print_inv s' \<longleftrightarrow> print_inv s" "unprinted s' = unprinted s"
    "print_work s' = print_work s"
    by (simp_all add: print_messages_def print_count_def print_inv_def unprinted_def print_work_def)
  show "printed es = []"
    using assms by (auto simp: spool_tone_round_def Let_def printed_def map_filter_simps split: if_splits)
qed

lemma spooler_rounds_print:
  "print_inv s \<Longrightarrow> spooler_rounds n s = (es, s') \<Longrightarrow>
   printed es @ unprinted s' = unprinted s \<and> print_inv s' \<and> print_work s' = print_work s - n"
proof (induction n arbitrary: s es)
  case 0
  then show ?case by (simp add: printed_def map_filter_simps)
next
  case (Suc n)
  obtain e1 s1 where 1: "spool_tone_round s = (e1, s1)" by (cases "spool_tone_round s")
  obtain e2 s2 where 2: "spool_print_round s1 = (e2, s2)" by (cases "spool_print_round s1")
  obtain e3 where 3: "spooler_rounds n s2 = (e3, s')" "es = e1 @ e2 @ e3"
    using Suc.prems(2) by (auto simp: audio_spooler_service_def 1 2 split: prod.splits)
  note t = tone_round_print [OF 1]
  have "printed e2 @ unprinted s2 = unprinted s1 \<and> print_inv s2 \<and> print_work s2 = print_work s1 - 1"
    using print_round [OF _ 2] t(3) Suc.prems(1) by blast
  moreover from this have "printed e3 @ unprinted s' = unprinted s2 \<and> print_inv s' \<and> print_work s' = print_work s2 - n"
    using Suc.IH [OF _ 3(1)] by blast
  ultimately show ?case using t 3(2) by (simp add: printed_append)
qed

lemma spooler_drains:
  assumes "print_inv s" "print_work s \<le> n"
  shows "printed (fst (spooler_rounds n s)) = unprinted s"
proof -
  obtain es s' where r: "spooler_rounds n s = (es, s')" by (cases "spooler_rounds n s")
  from spooler_rounds_print [OF assms(1) this] assms(2) have "printed es @ unprinted s' = unprinted s" "unprinted s' = []"
    by (auto simp: print_work_def)
  then show ?thesis using r by simp
qed

lemma spool_prints:
  "print_inv s \<Longrightarrow> \<not> print_queue_full s \<Longrightarrow> print_count s + length ms \<le> 8 \<Longrightarrow> \<forall>m \<in> set ms. 0 \<notin> set m \<Longrightarrow>
   print_inv (fold (\<lambda>m. spool_print (Some m)) ms s) \<and>
   print_messages (fold (\<lambda>m. spool_print (Some m)) ms s) = print_messages s @ map (take 127) ms \<and>
   print_offset (fold (\<lambda>m. spool_print (Some m)) ms s) = print_offset s"
proof (induction ms arbitrary: s)
  case (Cons m ms)
  let ?s = "spool_print (Some m) s"
  note p = spool_print_messages [OF Cons.prems(1) _ Cons.prems(2), of m]
  have m: "0 \<notin> set m" using Cons.prems(4) by simp
  have count: "print_count ?s = Suc (print_count s)"
    using p(1) [OF m] by (metis length_append_singleton length_print_messages)
  show ?case
  proof (cases ms)
    case Nil
    then show ?thesis using p [OF m] by simp
  next
    case (Cons m' ms')
    then have "print_count s \<noteq> 7" using Cons.prems(3) by simp
    then have "\<not> print_queue_full ?s" using p(4) [OF m] by blast
    then show ?thesis using Cons.IH [of ?s] p [OF m] Cons.prems count by simp
  qed
qed simp

text \<open>
  C38: Spooled messages reach the serial port in order and complete. While the queue has room for them (at most
  eight messages wait), a sequence of messages is printed after what was waiting before, each cut to its
  first 127 bytes, and it takes one round of the spooler per byte and one per message to get there.
\<close>

theorem spooler_prints_in_order:
  assumes "print_inv s" "\<not> print_queue_full s" "print_count s + length ms \<le> 8" "\<forall>m \<in> set ms. 0 \<notin> set m"
    and "print_work s + sum_list (map (\<lambda>m. Suc (min 127 (length m))) ms) \<le> n"
  shows "printed (fst (spooler_rounds n (fold (\<lambda>m. spool_print (Some m)) ms s))) =
    unprinted s @ concat (map (take 127) ms)"
proof -
  let ?s = "fold (\<lambda>m. spool_print (Some m)) ms s"
  have p: "print_inv ?s" "print_messages ?s = print_messages s @ map (take 127) ms" "print_offset ?s = print_offset s"
    using spool_prints [OF assms(1-4)] by simp_all
  have off: "print_offset s \<le> length (concat (print_messages s))"
    using assms(1) by (cases "print_messages s") (auto simp: print_inv_def)
  then have u: "unprinted ?s = unprinted s @ concat (map (take 127) ms)" by (simp add: unprinted_def p)
  have "print_count ?s = print_count s + length ms"
    using arg_cong [OF p(2), of length] by simp
  moreover have "length (concat (map (take 127) ms)) + length ms = sum_list (map (\<lambda>m. Suc (min 127 (length m))) ms)"
    by (induction ms) (auto simp: min.commute)
  ultimately have "print_work ?s \<le> n" using assms(5) by (simp add: print_work_def u)
  then show ?thesis using spooler_drains [OF p(1)] u by simp
qed

text \<open>
  The test for a full queue compares the slot after the tail with the head, but in a full queue the tail itself is at the
  head: the test never succeeds. A ninth message that is spooled before the spooler runs overwrites the first and
  makes the queue look as if it held one message; the spooler prints the ninth and nothing of the eight before it.
\<close>

theorem spool_ninth_message_loses_eight:
  assumes "print_inv s" "print_count s = 0" "length ms = 8" "\<forall>m' \<in> set (m # ms). 0 \<notin> set m'" "128 \<le> n"
  shows "printed (fst (spooler_rounds n (spool_print (Some m) (fold (\<lambda>m. spool_print (Some m)) ms s)))) = take 127 m"
proof -
  let ?s = "fold (\<lambda>m. spool_print (Some m)) ms s" let ?t = "spool_print (Some m) ?s"
  have empty: "print_messages s = []" using assms(2) by (metis length_0_conv length_print_messages)
  then have "\<not> print_queue_full s" "print_offset s = 0" using print_active [OF assms(1)] by auto
  then have p: "print_inv ?s" "print_messages ?s = map (take 127) ms" "print_offset ?s = 0"
    using spool_prints [OF assms(1), of ms] assms(2-4) empty by auto
  have "print_count ?s = 8" using arg_cong [OF p(2), of length] assms(3) by simp
  note f = spool_print_when_full [OF p(1) _ this p(3), of m]
  have t: "print_messages ?t = [take 127 m]" "print_inv ?t" "print_offset ?t = 0" using f assms(4) by simp_all
  have "print_count ?t = 1" using arg_cong [OF t(1), of length] by simp
  then have "print_work ?t \<le> n" using t assms(5) by (simp add: print_work_def unprinted_def)
  then show ?thesis using spooler_drains [OF t(2)] t by (simp add: unprinted_def)
qed

lemma services_static_inv: "print_inv services_static" "print_count services_static = 0" "\<not> print_queue_full services_static"
  by (simp_all add: print_inv_def print_messages_def print_count_def services_static_def)

theorem spooler_prints_in_order_witness:
  "printed (fst (spooler_rounds 9 (fold (\<lambda>m. spool_print (Some m)) [map of_char ''boot'', map of_char ''ok''] services_static))) =
     map of_char ''bootok''"
  using spooler_prints_in_order [of services_static "[map of_char ''boot'', map of_char ''ok'']" 9] services_static_inv
  by (simp add: print_work_def unprinted_def print_messages_def)

theorem spool_ninth_message_loses_eight_witness:
  "printed (fst (spooler_rounds 128 (spool_print (Some (map of_char ''9''))
     (fold (\<lambda>m. spool_print (Some m)) (replicate 8 (map of_char ''x'')) services_static)))) = map of_char ''9''"
  using spool_ninth_message_loses_eight [of services_static "replicate 8 (map of_char ''x'')" "map of_char ''9''" 128]
    services_static_inv by simp

subsection \<open>The clipboard daemon\<close>

text \<open>The copy loop by recursion on the remaining data and snapshot, \<open>n\<close> characters at most.\<close>

fun snap_copy :: "nat \<Rightarrow> u8 list \<Rightarrow> u8 list \<Rightarrow> u8 list \<times> bool" where
  "snap_copy 0 d sn = (sn, False)"
| "snap_copy (Suc n) [] sn = (sn, False)"
| "snap_copy (Suc n) (c # d) [] = ([], False)"
| "snap_copy (Suc n) (c # d) (x # sn) =
     (if c = 0 then (c # sn, x \<noteq> c) else let (r, ch) = snap_copy n d sn in (c # r, x \<noteq> c \<or> ch))"

lemma snapshot_loop_copy:
  assumes "length pre = i" "length dpre = i" "i + n = 63" "n \<le> length d" "length sn = Suc n"
  shows "snapshot_loop (dpre @ d) [i..<63] (pre @ sn, ch) = (case snap_copy n d sn of (r, ch') \<Rightarrow> (pre @ r, ch \<or> ch'))"
  using assms
proof (induction n d sn arbitrary: i pre dpre ch rule: snap_copy.induct)
  case (4 n c d x sn)
  have upt: "[i..<63] = i # [Suc i..<63]" using "4.prems"(3) by (simp add: upt_conv_Cons)
  have step: "snapshot_loop (dpre @ c # d) [i..<63] (pre @ x # sn, ch) =
     (if c = 0 then (pre @ c # sn, ch \<or> x \<noteq> c)
      else snapshot_loop ((dpre @ [c]) @ d) [Suc i..<63] ((pre @ [c]) @ sn, ch \<or> x \<noteq> c))"
    unfolding upt using "4.prems"(1,2) by (simp add: Let_def nth_append list_update_append)
  have rest: "snapshot_loop ((dpre @ [c]) @ d) [Suc i..<63] ((pre @ [c]) @ sn, ch \<or> x \<noteq> c) =
     (case snap_copy n d sn of (r, ch') \<Rightarrow> ((pre @ [c]) @ r, (ch \<or> x \<noteq> c) \<or> ch'))" if "c \<noteq> 0"
    using "4.prems" that by (intro "4.IH") auto
  show ?case
  proof (cases "c = 0")
    case True
    then show ?thesis using step by simp
  next
    case False
    then show ?thesis unfolding step using rest by (simp split: prod.splits)
  qed
qed auto

lemma snap_copy_string:
  assumes "length sn = Suc n" "last sn = 0" "n \<le> length d"
  shows "c_string (fst (snap_copy n d sn)) = take n (c_string d) \<and> last (fst (snap_copy n d sn)) = 0 \<and>
    length (fst (snap_copy n d sn)) = Suc n \<and> (snd (snap_copy n d sn) \<longleftrightarrow> c_string sn \<noteq> take n (c_string d))"
  using assms
proof (induction n d sn rule: snap_copy.induct)
  case (4 n c d x sn)
  then have "sn \<noteq> []" "last sn = 0" by (cases sn; simp)+
  with 4 show ?case by (cases "c = 0") (auto simp: c_string_def split: prod.splits)
next
  case (1 d sn)
  then show ?case by (cases sn) (auto simp: c_string_def)
qed auto

text \<open>
  A round of the clipboard daemon, when the clipboard is in use: the snapshot becomes the clipboard's text, cut to 63 bytes,
  and a notification is posted exactly when that differs from the text of the snapshot before. The snapshot keeps
  its size and its terminator, so the rounds repeat without leaving the buffer.
\<close>

theorem clipboard_daemon_tracks:
  assumes "length (clipboard_snapshot s) = 64" "last (clipboard_snapshot s) = 0"
    and "clipboard_paste cb = Some data" "63 \<le> length data"
    and "clipboard_daemon_service cb (s, n) = (s', n')"
  shows "c_string (clipboard_snapshot s') = take 63 (c_string data) \<and>
    n' = (if c_string (clipboard_snapshot s) = take 63 (c_string data) then n
          else notification_post ''Clipboard Daemon'' ''Clipboard contents updated'' 0 n) \<and>
    length (clipboard_snapshot s') = 64 \<and> last (clipboard_snapshot s') = 0"
proof -
  have "snapshot_loop ([] @ data) [0..<63] ([] @ clipboard_snapshot s, False) =
      (case snap_copy 63 data (clipboard_snapshot s) of (r, ch') \<Rightarrow> ([] @ r, False \<or> ch'))"
    using assms by (intro snapshot_loop_copy) simp_all
  moreover note snap_copy_string [of "clipboard_snapshot s" 63 data]
  ultimately show ?thesis
    using assms unfolding clipboard_daemon_service_def by (auto split: prod.splits)
qed

definition clipboard_example :: clipboard_t where
  "clipboard_example = clipboard_static\<lparr>clipboard_buffer := map of_char ''hi'' @ replicate 510 0, clipboard_used := 2\<rparr>"

theorem clipboard_daemon_tracks_witness:
  "c_string (clipboard_snapshot (fst (clipboard_daemon_service clipboard_example (services_static, notifications_static)))) =
     map of_char ''hi''"
proof -
  let ?r = "clipboard_daemon_service clipboard_example (services_static, notifications_static)"
  have "c_string (clipboard_snapshot (fst ?r)) = take 63 (c_string (clipboard_buffer clipboard_example))"
    using clipboard_daemon_tracks [of services_static clipboard_example "clipboard_buffer clipboard_example"
        notifications_static "fst ?r" "snd ?r"]
    by (simp add: services_static_def clipboard_paste_def clipboard_example_def)
  then show ?thesis by (simp add: clipboard_example_def c_string_def)
qed

subsection \<open>Starting the service tasks\<close>

lemma sched_inv_memory:
  assumes "sched_inv s q" "i < length (task_table s)"
  shows "sched_inv (update_task i (\<lambda>t. t\<lparr>tcb_memory_kb := v\<rparr>) s) q"
  using assms update_task_nth [OF assms(2), of "\<lambda>t. t\<lparr>tcb_memory_kb := v\<rparr>"]
  unfolding sched_inv_def by (auto simp: update_task_path)

lemma start_service_correct:
  assumes inv: "sched_inv sch q" and room: "unat (task_count sch) < 256"
  shows "\<exists>sch'. start_service w ts es g i (s, sch) =
      Some (s\<lparr>service_names := (service_names s)[i := service_name i], service_id_map := (service_id_map s)[i := of_nat i]\<rparr>, sch') \<and>
    sched_inv sch' (q @ [unat (task_count sch)]) \<and> unat (task_count sch') = Suc (unat (task_count sch)) \<and>
    (q \<noteq> [] \<longrightarrow> current_task sch' = current_task sch \<and> cpu sch' = cpu sch)"
proof -
  obtain sch' where c: "create_task w ts (service_name i) (if i < length service_table then es ! i else g) 1 sch =
      Some (Some (unat (task_count sch)), sch')" "sched_inv sch' (q @ [unat (task_count sch)])" "task_count sch' = task_count sch + 1"
      "current_task sch' = (if q = [] then Some (unat (task_count sch)) else current_task sch)" "cpu sch' = cpu sch"
    using create_task_inv [OF inv room, of w ts "service_name i" "if i < length service_table then es ! i else g" 1] by blast
  have "unat (task_count sch) < length (task_table sch')" using room sched_invD(1) [OF c(2)] by simp
  then show ?thesis
    using c sched_inv_memory [OF c(2)] task_count_suc [OF room] by (simp add: start_service_def)
qed

lemma start_services:
  assumes "sched_inv sch q" "unat (task_count sch) + k \<le> 256" "length (service_names s) = 200" "length (service_id_map s) = 200"
    and "k \<le> 200"
  shows "\<exists>s' sch'. ofold (start_service w ts es g) [0..<k] (s, sch) = Some (s', sch') \<and>
    sched_inv sch' (q @ map (\<lambda>i. unat (task_count sch) + i) [0..<k]) \<and> unat (task_count sch') = unat (task_count sch) + k \<and>
    service_names s' = map service_name [0..<k] @ drop k (service_names s) \<and>
    service_id_map s' = map of_nat [0..<k] @ drop k (service_id_map s) \<and>
    (\<lambda>s. s\<lparr>service_names := [], service_id_map := []\<rparr>) s' = s\<lparr>service_names := [], service_id_map := []\<rparr> \<and>
    (q \<noteq> [] \<longrightarrow> current_task sch' = current_task sch \<and> cpu sch' = cpu sch)"
  using assms(2,5)
proof (induction k)
  case 0
  then show ?case using assms(1) by simp
next
  case (Suc k)
  then obtain s1 sch1 where 1: "ofold (start_service w ts es g) [0..<k] (s, sch) = Some (s1, sch1)"
    "sched_inv sch1 (q @ map (\<lambda>i. unat (task_count sch) + i) [0..<k])" "unat (task_count sch1) = unat (task_count sch) + k"
    "service_names s1 = map service_name [0..<k] @ drop k (service_names s)"
    "service_id_map s1 = map of_nat [0..<k] @ drop k (service_id_map s)"
    "s1\<lparr>service_names := [], service_id_map := []\<rparr> = s\<lparr>service_names := [], service_id_map := []\<rparr>"
    "q \<noteq> [] \<longrightarrow> current_task sch1 = current_task sch \<and> cpu sch1 = cpu sch" by auto
  have "unat (task_count sch1) < 256" using 1(3) Suc.prems by simp
  from start_service_correct [OF 1(2) this, of w ts es g k s1] obtain sch2 where
    2: "start_service w ts es g k (s1, sch1) =
        Some (s1\<lparr>service_names := (service_names s1)[k := service_name k], service_id_map := (service_id_map s1)[k := of_nat k]\<rparr>, sch2)"
      "sched_inv sch2 ((q @ map (\<lambda>i. unat (task_count sch) + i) [0..<k]) @ [unat (task_count sch1)])"
      "unat (task_count sch2) = Suc (unat (task_count sch1))"
      "q \<noteq> [] \<longrightarrow> current_task sch2 = current_task sch1 \<and> cpu sch2 = cpu sch1" by auto
  have upd: "(map f [0..<k] @ drop k xs)[k := v] = map f [0..<k] @ v # drop (Suc k) xs" if "length xs = 200" for f v and xs :: "'z list"
    using that Suc.prems(2) by (simp add: list_update_append Cons_nth_drop_Suc [symmetric])
  show ?case
    using 1 2 assms(3,4) by (auto simp: ofold_append upd)
qed

lemma digit_eq_iff: "digit a = digit b \<longleftrightarrow> a mod 10 = b mod 10"
proof -
  have "(of_char (digit n) :: nat) = 48 + n mod 10" for n
  proof -
    have "n mod 10 < 10" by simp
    then have "(48 + n mod 10) mod 256 = 48 + n mod 10" by (intro mod_less) linarith
    then show ?thesis by (simp add: digit_def)
  qed
  then show ?thesis by (metis add_left_cancel of_char_eq_iff)
qed

lemma generic_service_name:
  "4 \<le> i \<Longrightarrow> service_name i = ''BackgroundService'' @ [digit ((i + 1) div 100), digit ((i + 1) div 10), digit (i + 1)]"
  by (simp add: service_name_def service_table_def)

lemma generic_service_name_inj:
  assumes "4 \<le> i" "4 \<le> j" "i < 200" "j < 200" "service_name i = service_name j"
  shows "i = j"
proof -
  have d: "(i + 1) div 100 mod 10 = (j + 1) div 100 mod 10" "(i + 1) div 10 mod 10 = (j + 1) div 10 mod 10" "(i + 1) mod 10 = (j + 1) mod 10"
    using assms(5) by (simp_all add: generic_service_name assms(1,2) digit_eq_iff)
  have split: "n = 100 * (n div 100 mod 10) + 10 * (n div 10 mod 10) + n mod 10" if "n < 1000" for n :: nat
  proof -
    have "n div 100 mod 10 = n div 100" using that by simp
    moreover have "n div 10 = 10 * (n div 100) + n div 10 mod 10" using mult_div_mod_eq [of 10 "n div 10"] by (simp add: div_mult2_eq [symmetric])
    moreover have "n = 10 * (n div 10) + n mod 10" by simp
    ultimately show ?thesis by linarith
  qed
  show ?thesis using split [of "i + 1"] split [of "j + 1"] d assms(3,4) by simp
qed

lemma service_names_distinct: "distinct (map service_name [0..<200])"
proof -
  have four: "distinct (map service_name [0..<4])" by code_simp
  have "hd (service_name i) \<noteq> CHR ''B''" if "i < 4" for i
    using that by (auto simp: service_name_def service_table_def less_Suc_eq numeral_eq_Suc)
  moreover have "hd (service_name i) = CHR ''B''" if "4 \<le> i" for i by (simp add: generic_service_name [OF that])
  ultimately have "inj_on service_name {0..<200}"
    using four generic_service_name_inj unfolding distinct_map
    by (intro inj_onI) (metis atLeastLessThan_iff inj_onD not_le_imp_less set_upt zero_le)
  then show ?thesis by (simp add: distinct_map)
qed

lemma background_services_run:
  assumes "sched_inv sch q" "unat (task_count sch) + 200 \<le> 256"
  shows "\<exists>s' sch'. background_services_initialize w ts es g (services_static, sch) = Some (s', sch') \<and>
    sched_inv sch' (q @ map (\<lambda>i. unat (task_count sch) + i) [0..<200]) \<and>
    unat (task_count sch') = unat (task_count sch) + 200 \<and> service_names s' = map service_name [0..<200] \<and>
    distinct (service_names s') \<and> service_id_map s' = map of_nat [0..<200] \<and>
    print_messages s' = [map of_char ''[Spooler] System print queue initialized'' @ [10]] \<and>
    audio_queue s' ! 0 = \<lparr>frequency = 440, duration_ms = 40, tone_valid = True\<rparr> \<and>
    (q \<noteq> [] \<longrightarrow> current_task sch' = current_task sch \<and> cpu sch' = cpu sch)"
proof -
  let ?msg = "map of_char ''[Spooler] System print queue initialized'' @ [10] :: u8 list"
  obtain s1 sch1 where 1: "ofold (start_service w ts es g) [0..<200] (services_static, sch) = Some (s1, sch1)"
    "sched_inv sch1 (q @ map (\<lambda>i. unat (task_count sch) + i) [0..<200])" "unat (task_count sch1) = unat (task_count sch) + 200"
    "service_names s1 = map service_name [0..<200]" "service_id_map s1 = map of_nat [0..<200]"
    "s1\<lparr>service_names := [], service_id_map := []\<rparr> = services_static\<lparr>service_names := [], service_id_map := []\<rparr>"
    "q \<noteq> [] \<longrightarrow> current_task sch1 = current_task sch \<and> cpu sch1 = cpu sch"
    using start_services [OF assms(1) assms(2), of services_static w ts es g] by (auto simp: services_static_def)
  have s1: "s1 = services_static\<lparr>service_names := map service_name [0..<200], service_id_map := map of_nat [0..<200]\<rparr>"
    using 1(4-6) by (cases s1) (simp add: services_static_def)
  have inv: "print_inv s1" "print_messages s1 = []" "\<not> print_queue_full s1"
    by (simp_all add: s1 services_static_def print_inv_def print_messages_def print_count_def)
  have "0 \<notin> set ?msg" by simp
  from spool_print_messages(1) [OF inv(1) this inv(3)] inv(2)
  have p: "print_messages (spool_print (Some ?msg) s1) = [?msg]" by simp
  let ?t = "spool_audio_tone 440 40 (spool_print (Some ?msg) s1)"
  have "print_messages ?t = print_messages (spool_print (Some ?msg) s1)" "service_names ?t = service_names s1"
    "service_id_map ?t = service_id_map s1" "audio_queue ?t ! 0 = \<lparr>frequency = 440, duration_ms = 40, tone_valid = True\<rparr>"
    by (simp_all add: s1 services_static_def spool_audio_tone_def spool_print_def Let_def print_messages_def print_count_def)
  then show ?thesis
    using 1 p service_names_distinct by (simp add: background_services_initialize_def)
qed

text \<open>
  With room for 200 more tasks, every background service becomes a task: the tasks are appended to the ready queue in the order
  of the services, the scheduler's invariant is kept, the services have pairwise different names, and the first message
  and tone are queued for the spooler.
\<close>

theorem background_services_started:
  assumes "sched_inv sch q" "unat (task_count sch) + 200 \<le> 256"
  shows "\<exists>s' sch'. background_services_initialize w ts es g (services_static, sch) = Some (s', sch') \<and>
    sched_inv sch' (q @ map (\<lambda>i. unat (task_count sch) + i) [0..<200]) \<and>
    unat (task_count sch') = unat (task_count sch) + 200 \<and> service_names s' = map service_name [0..<200] \<and>
    distinct (service_names s') \<and> service_id_map s' = map of_nat [0..<200] \<and>
    print_messages s' = [map of_char ''[Spooler] System print queue initialized'' @ [10]] \<and>
    audio_queue s' ! 0 = \<lparr>frequency = 440, duration_ms = 40, tone_valid = True\<rparr>"
  using background_services_run [OF assms, of w ts es g] by blast

theorem background_services_started_witness:
  "\<exists>s' sch'. background_services_initialize 0x1000 0x800000 [1, 2, 3, 4] 5 (services_static, sched0) = Some (s', sch') \<and>
    sched_inv sch' [0..<200] \<and> unat (task_count sch') = 200"
  using background_services_started [OF sched0_inv(1), of "0x1000" "0x800000" "[1, 2, 3, 4]" 5] sched0_inv(2)
  by (auto simp: map_idI)

end
