(* ===== verification/Packets.thy ===== *)
theory Packets
  imports Bytes
begin

text \<open>
  The packet formats of \<^verbatim>\<open>network.c\<close>: the Internet checksum, the Ethernet, IP and ARP headers, and the DHCP messages.
  A function of the code that fills consecutive bytes of a buffer is the list of these bytes. The theorems
  relate the checksum to the one's complement sum a receiver computes, show that addresses survive
  packing and unpacking, and that the loop over the DHCP options ends, stays inside the options and handles exactly
  the options of the message.
\<close>

subsection \<open>Checksum and addresses\<close>

text \<open>The sum of the pairs of bytes, low byte first, with an odd last byte; the sum is a 32-bit integer.\<close>

fun sum16 :: "u8 list \<Rightarrow> u32 \<Rightarrow> u32" where
  "sum16 [] s = s"
| "sum16 [a] s = s + ucast a"
| "sum16 (a # b # data) s = sum16 data (s + (ucast a OR push_bit 8 (ucast b)))"

function fold_carries :: "u32 \<Rightarrow> u32" where
  "fold_carries s = (if drop_bit 16 s \<noteq> 0 then fold_carries ((s AND 0xFFFF) + drop_bit 16 s) else s)"
  by pat_completeness auto

lemma unat_fold_step: "unat ((s AND 0xFFFF) + drop_bit 16 s) = unat s mod 65536 + unat s div 65536" for s :: u32
proof -
  have "unat s div 65536 < 65536" "unat s mod 65536 < 65536"
    using unsigned_less [of s, where 'a = nat] by (simp_all add: less_mult_imp_div_less)
  then show ?thesis by (simp add: unat_word_ariths unat_and_65535 unat_drop_bit_div)
qed

lemma drop_bit_16_eq_0: "drop_bit 16 s = 0 \<longleftrightarrow> unat s < 65536" for s :: u32
  by (simp add: unat_eq_zero [symmetric] unat_drop_bit_div div_eq_0_iff)

termination fold_carries
proof (relation "measure unat")
  fix s :: u32
  assume "drop_bit 16 s \<noteq> 0"
  then have "65536 \<le> unat s" by (simp add: drop_bit_16_eq_0 not_less)
  moreover have "unat s = 65536 * (unat s div 65536) + unat s mod 65536" by simp
  moreover from calculation(1) have "1 \<le> unat s div 65536" by (simp add: div_greater_zero_iff Suc_le_eq)
  ultimately show "((s AND 0xFFFF) + drop_bit 16 s, s) \<in> measure unat"
    unfolding in_measure unat_fold_step by linarith
qed simp

declare fold_carries.simps [simp del]

definition checksum16 :: "u8 list \<Rightarrow> u16" where
  "checksum16 data = ucast (NOT (fold_carries (sum16 data 0)))"

definition ip_pack :: "u8 list \<Rightarrow> u32" where
  "ip_pack addr = push_bit 24 (ucast (addr ! 0)) OR push_bit 16 (ucast (addr ! 1)) OR push_bit 8 (ucast (addr ! 2)) OR ucast (addr ! 3)"

definition ip_unpack :: "u32 \<Rightarrow> u8 list" where
  "ip_unpack v = [ucast (drop_bit 24 v AND 0xFF), ucast (drop_bit 16 v AND 0xFF), ucast (drop_bit 8 v AND 0xFF), ucast (v AND 0xFF)]"

definition parse_ipv4_address :: "u8 list \<Rightarrow> u32" where
  "parse_ipv4_address bytes = push_bit 24 (ucast (bytes ! 0)) OR push_bit 16 (ucast (bytes ! 1)) OR push_bit 8 (ucast (bytes ! 2)) OR ucast (bytes ! 3)"

text \<open>The same through a pointer into a buffer, which must have four bytes left there.\<close>

definition ipv4_at :: "u8 list \<Rightarrow> nat \<Rightarrow> u32 option" where
  "ipv4_at b i = map_option parse_ipv4_address (bytes_at b i 4)"

definition mac_equal :: "u8 list \<Rightarrow> u8 list \<Rightarrow> bool" where
  "mac_equal a b \<longleftrightarrow> (\<forall>i \<in> set [0..<6]. a ! i = b ! i)"

text \<open>A 16-bit value in network order.\<close>

definition be16 :: "u16 \<Rightarrow> u8 list" where
  "be16 v = [ucast (drop_bit 8 v), ucast (v AND 0xFF)]"

subsection \<open>Headers\<close>

definition write_eth_header :: "u8 list \<Rightarrow> u8 list \<Rightarrow> u16 \<Rightarrow> u8 list" where
  "write_eth_header local_mac dest_mac ethertype = take 6 dest_mac @ take 6 local_mac @ be16 ethertype"

definition write_ip_header :: "u16 \<Rightarrow> u8 \<Rightarrow> u32 \<Rightarrow> u32 \<Rightarrow> u8 list" where
  "write_ip_header total_length protocol src_ip dest_ip =
     (let buffer = [0x45, 0x00] @ be16 total_length @ [0x00, 0x00, 0x40, 0x00, 64, protocol, 0, 0] @
                   ip_unpack src_ip @ ip_unpack dest_ip;
          checksum = checksum16 buffer
      in buffer[10 := ucast (drop_bit 8 checksum), 11 := ucast checksum])"

text \<open>The 48 bytes that \<^verbatim>\<open>write_arp_request\<close> fills.\<close>

definition write_arp_request :: "u8 list \<Rightarrow> u32 \<Rightarrow> u8 list" where
  "write_arp_request local_mac target_ip =
     replicate 6 0xFF @ take 6 local_mac @ [0x08, 0x06, 0x00, 0x01, 0x08, 0x00, 0x06, 0x04, 0x00, 0x01] @ take 6 local_mac @
     [0, 0, 0, 0] @ ip_unpack target_ip @ replicate 6 0 @ replicate 6 0"

text \<open>The packet of \<^verbatim>\<open>send_arp_reply\<close>, 60 bytes.\<close>

definition arp_reply_packet :: "u8 list \<Rightarrow> u32 \<Rightarrow> u8 list \<Rightarrow> u32 \<Rightarrow> u8 list" where
  "arp_reply_packet local_mac local_ip target_mac target_ip =
     write_eth_header local_mac target_mac 0x0806 @ [0x00, 0x02, 0x08, 0x00, 0x06, 0x04, 0x00, 0x02] @
     take 6 local_mac @ take 6 target_mac @ ip_unpack local_ip @ ip_unpack target_ip @ replicate 18 0"

subsection \<open>DHCP\<close>

definition build_dhcp_discover :: "u8 list \<Rightarrow> u32 \<Rightarrow> u8 list" where
  "build_dhcp_discover local_mac xid =
     [1, 1, 6, 0] @ ip_unpack xid @ replicate 20 0 @ take 6 local_mac @ replicate 202 0 @ [0x63, 0x82, 0x53, 0x63] @
     [53, 1, 1, 255]"

text \<open>The request overwrites the discover message from index 242 on.\<close>

definition build_dhcp_request :: "u8 list \<Rightarrow> u32 \<Rightarrow> u32 \<Rightarrow> u32 \<Rightarrow> u8 list" where
  "build_dhcp_request local_mac xid local_ip dhcp_server_ip =
     take 242 (build_dhcp_discover local_mac xid) @ [50, 4] @ ip_unpack local_ip @ [54, 4] @ ip_unpack dhcp_server_ip @ [255]"

record lease =
  acquired :: bool
  netmask :: u32
  gateway :: u32
  server_ip :: u32

text \<open>The \<^verbatim>\<open>switch\<close> of the option loop.\<close>

definition apply_option :: "u8 \<Rightarrow> u8 list \<Rightarrow> lease \<Rightarrow> lease" where
  "apply_option opt v l =
     (if opt = 53 then if length v \<ge> 1 \<and> v ! 0 = 2 then l\<lparr>acquired := True\<rparr> else l
      else if opt = 1 then if length v = 4 then l\<lparr>netmask := parse_ipv4_address v\<rparr> else l
      else if opt = 3 then if length v \<ge> 4 then l\<lparr>gateway := parse_ipv4_address v\<rparr> else l
      else if opt = 54 then if length v = 4 then l\<lparr>server_ip := parse_ipv4_address v\<rparr> else l
      else l)"

text \<open>
  The loop of \<^verbatim>\<open>parse_dhcp_options\<close>. An index outside the \<open>len\<close> bytes that the caller vouches for is \<open>None\<close>.
\<close>

function options_loop :: "u8 list \<Rightarrow> nat \<Rightarrow> nat \<Rightarrow> lease \<Rightarrow> lease option" where
  "options_loop options len offset l =
     (if offset + 2 \<le> len then
        if length options \<le> offset then None
        else
          let opt = options ! offset in
          if opt = 255 then Some l
          else if opt = 0 then options_loop options len (offset + 1) l
          else if length options \<le> offset + 1 then None
          else
            let opt_len = unat (options ! (offset + 1)) in
            if offset + 2 + opt_len > len then Some l
            else if length options < offset + 2 + opt_len then None
            else options_loop options len (offset + 2 + opt_len)
                   (apply_option opt (take opt_len (drop (offset + 2) options)) l)
      else Some l)"
  by pat_completeness auto

termination options_loop
  by (relation "measure (\<lambda>(options, len, offset, l). len - offset)") auto

declare options_loop.simps [simp del]

definition parse_dhcp_options :: "u8 list \<Rightarrow> nat \<Rightarrow> lease \<Rightarrow> lease option" where
  "parse_dhcp_options options len l = options_loop options len 0 l"

subsection \<open>The one's complement sum\<close>

lemma fold_carries_value: "unat (fold_carries s) = (if s = 0 then 0 else (unat s - 1) mod 65535 + 1)"
proof (induction s rule: fold_carries.induct)
  case (1 s)
  show ?case
  proof (cases "drop_bit 16 s = 0")
    case True
    then have "unat s < 65536" by (simp add: drop_bit_16_eq_0)
    moreover have "fold_carries s = s" using True by (subst fold_carries.simps) simp
    ultimately show ?thesis by (cases "s = 0") (simp_all add: unat_gt_0 [symmetric])
  next
    case False
    let ?t = "(s AND 0xFFFF) + drop_bit 16 s" and ?d = "unat s div 65536"
    have s: "unat s = 65536 * ?d + unat s mod 65536" by simp
    have d: "1 \<le> ?d" using False by (simp add: drop_bit_16_eq_0 not_less Suc_le_eq div_greater_zero_iff)
    then have nz: "0 < unat ?t" "s \<noteq> 0" unfolding unat_fold_step by auto
    have "unat s - 1 = (unat ?t - 1) + ?d * 65535" unfolding unat_fold_step using s d by linarith
    then have "(unat s - 1) mod 65535 = (unat ?t - 1) mod 65535" by simp
    moreover have "?t \<noteq> 0" using nz(1) by (metis less_irrefl unat_0)
    ultimately show ?thesis using 1 False nz(2) by (subst fold_carries.simps) simp
  qed
qed

fun sum_nat :: "u8 list \<Rightarrow> nat" where
  "sum_nat [] = 0"
| "sum_nat [a] = unat a"
| "sum_nat (a # b # data) = unat a + 256 * unat b + sum_nat data"

lemma unat_pair: "unat (ucast a OR push_bit 8 (ucast b) :: u32) = unat a + 256 * unat b" for a b :: u8
proof -
  have "ucast a OR push_bit 8 (ucast b) = (ucast a + push_bit 8 (ucast b) :: u32)"
    by (rule disjunctive_add [symmetric]) (auto simp: bit_simps dest: bit_imp_le_length)
  moreover have "unat a < 256" "unat b < 256" using unsigned_less [where 'a = nat, of a] unsigned_less [where 'a = nat, of b] by simp_all
  ultimately show ?thesis by (simp add: unat_word_ariths push_bit_eq_mult unat_ucast_mod)
qed

lemma u8_less: "unat a < 256" for a :: u8
  using unsigned_less [of a, where 'a = nat] by simp

lemma sum_nat_bound: "2 * sum_nat data \<le> 65535 * (length data + 1)"
proof (induction data rule: sum_nat.induct)
  case (2 a)
  then show ?case using u8_less [of a] by simp
next
  case (3 a b data)
  then show ?case using u8_less [of a] u8_less [of b] by simp
qed simp

lemma sum16_nat: "unat s + sum_nat data < 2 ^ 32 \<Longrightarrow> unat (sum16 data s) = unat s + sum_nat data"
proof (induction data s rule: sum16.induct)
  case (2 a s)
  then show ?case using u8_less [of a] by (simp add: unat_word_ariths unat_ucast_mod)
next
  case (3 a b data s)
  then have "unat (s + (ucast a OR push_bit 8 (ucast b))) = unat s + (unat a + 256 * unat b)"
    by (simp add: unat_word_ariths unat_pair)
  then show ?case using 3 by simp
qed simp

definition complement_sum :: "nat \<Rightarrow> nat" where
  "complement_sum n = (if n = 0 then 0 else (n - 1) mod 65535 + 1)"

lemma complement_sum_less: "complement_sum n < 65536"
proof -
  have "(n - 1) mod 65535 < 65535" by simp
  then show ?thesis by (simp add: complement_sum_def)
qed

lemma complement_sum_full: "complement_sum n = 65535 \<longleftrightarrow> 0 < n \<and> 65535 dvd n"
proof (cases n)
  case (Suc m)
  have "m mod 65535 = 65534 \<longleftrightarrow> 65535 dvd Suc m"
    by (simp add: dvd_eq_mod_eq_0 mod_Suc)
  then show ?thesis using Suc by (simp add: complement_sum_def)
qed (simp add: complement_sum_def)

lemma complement_sum_dvd: "65535 dvd n + (65535 - complement_sum n)"
proof (cases "n = 0")
  case False
  define q r where "q = (n - 1) div 65535" and "r = (n - 1) mod 65535"
  have "n - 1 = 65535 * q + r" "r < 65535" by (simp_all add: q_def r_def)
  moreover have "complement_sum n = r + 1" using False by (simp add: complement_sum_def r_def)
  ultimately have "n + (65535 - complement_sum n) = 65535 * (q + 1)" using False by simp
  then show ?thesis by (metis dvd_triv_left)
qed (simp add: complement_sum_def)

lemma checksum16_nat:
  assumes "length data \<le> 65536"
  shows "unat (checksum16 data) = 65535 - complement_sum (sum_nat data)"
proof -
  have "sum_nat data < 2 ^ 32" using sum_nat_bound [of data] assms by simp
  then have s: "unat (sum16 data 0) = sum_nat data" using sum16_nat [of 0 data] by simp
  have z: "sum16 data 0 = 0 \<longleftrightarrow> sum_nat data = 0" using s by (simp add: unat_eq_zero [symmetric])
  have F: "unat (fold_carries (sum16 data 0)) = complement_sum (sum_nat data)"
    unfolding fold_carries_value s z complement_sum_def by simp
  let ?f = "fold_carries (sum16 data 0)"
  have m1: "unat (- 1 :: u32) = 4294967295" by (simp add: unsigned_minus_1_eq_mask mask_eq_exp_minus_1)
  have "NOT ?f = - 1 - ?f" by (simp add: not_eq_complement)
  then have "unat (NOT ?f) = unat (- 1 :: u32) - unat ?f" by (simp add: unat_sub)
  then have "unat (checksum16 data) = (4294967295 - complement_sum (sum_nat data)) mod 65536"
    by (simp add: checksum16_def unat_ucast_mod F m1)
  also have "4294967295 - complement_sum (sum_nat data) = 65536 * 65535 + (65535 - complement_sum (sum_nat data))"
    using complement_sum_less [of "sum_nat data"] by simp
  also have "\<dots> mod 65536 = 65535 - complement_sum (sum_nat data)"
    unfolding mod_mult_self4 by (rule mod_less) simp
  finally show ?thesis .
qed

lemma checksum16_zero_iff:
  assumes "length data \<le> 65536"
  shows "checksum16 data = 0 \<longleftrightarrow> 0 < sum_nat data \<and> 65535 dvd sum_nat data"
proof -
  have "checksum16 data = 0 \<longleftrightarrow> unat (checksum16 data) = 0" by (simp add: unat_eq_zero)
  also have "\<dots> \<longleftrightarrow> complement_sum (sum_nat data) = 65535"
    unfolding checksum16_nat [OF assms] using complement_sum_less [of "sum_nat data"] by linarith
  finally show ?thesis unfolding complement_sum_full .
qed

lemma sum_nat_update:
  "even k \<Longrightarrow> Suc k < length data \<Longrightarrow> data ! k = 0 \<Longrightarrow> data ! Suc k = 0 \<Longrightarrow>
   sum_nat (data[k := a, Suc k := b]) = sum_nat data + unat a + 256 * unat b"
proof (induction data arbitrary: k rule: sum_nat.induct)
  case (3 x y data)
  show ?case
  proof (cases k)
    case 0
    then show ?thesis using 3 by simp
  next
    case (Suc m)
    then obtain m' where "k = Suc (Suc m')" using "3.prems"(1) by (cases m) auto
    then show ?thesis using "3.IH" [of m'] "3.prems" by simp
  qed
qed auto

text \<open>
  The checksum is the one a receiver checks: when the field is stored in the byte order in which the code sums, low byte
  first, the sum over the whole header is zero. Only the order of the two bytes matters: stored high byte first,
  as \<^verbatim>\<open>write_ip_header\<close> does, the header verifies exactly when the two bytes are equal.
\<close>

lemma checksum16_stored:
  assumes "even k" "Suc k < length data" "length data \<le> 65536" "data ! k = 0" "data ! Suc k = 0" "c = checksum16 data"
    "0 < sum_nat data"
  shows "checksum16 (data[k := ucast c, Suc k := ucast (drop_bit 8 c)]) = 0"
    and "checksum16 (data[k := ucast (drop_bit 8 c), Suc k := ucast c]) = 0 \<longleftrightarrow> (ucast c :: u8) = ucast (drop_bit 8 c)"
proof -
  let ?lo = "ucast c :: u8" and ?hi = "ucast (drop_bit 8 c) :: u8" and ?S = "sum_nat data"
  have lo: "unat ?lo = unat c mod 256" "unat ?lo < 256" by (simp_all add: unat_ucast_mod)
  have hi: "unat ?hi = unat c div 256" "unat ?hi < 256"
    using unsigned_less [of c, where 'a = nat] by (simp_all add: unat_ucast_mod unat_drop_bit_div div_less_iff_less_mult)
  have c: "unat ?lo + 256 * unat ?hi = unat c" unfolding lo hi by simp
  have dvd: "65535 dvd ?S + unat c" using complement_sum_dvd [of ?S] checksum16_nat [OF assms(3)] assms(6) by simp
  note up = sum_nat_update [OF assms(1,2,4,5)]
  show "checksum16 (data[k := ?lo, Suc k := ?hi]) = 0"
    using dvd assms(3,7) c by (subst checksum16_zero_iff) (simp_all add: up add.assoc)
  have "65535 dvd ?S + unat ?hi + 256 * unat ?lo \<longleftrightarrow> unat ?lo = unat ?hi"
  proof
    assume "65535 dvd ?S + unat ?hi + 256 * unat ?lo"
    then have "int 65535 dvd int (?S + unat ?hi + 256 * unat ?lo) - int (?S + unat c)"
      using dvd by (intro dvd_diff) (simp_all only: int_dvd_int_iff)
    also have "int (?S + unat ?hi + 256 * unat ?lo) - int (?S + unat c) = 255 * (int (unat ?lo) - int (unat ?hi))"
      unfolding c [symmetric] by simp
    finally have "255 * (257 :: int) dvd 255 * (int (unat ?lo) - int (unat ?hi))" by simp
    then have d: "(257 :: int) dvd int (unat ?lo) - int (unat ?hi)" by (subst (asm) dvd_mult_cancel_left) simp
    show "unat ?lo = unat ?hi"
    proof (rule ccontr)
      assume "unat ?lo \<noteq> unat ?hi"
      then have "\<bar>257 :: int\<bar> \<le> \<bar>int (unat ?lo) - int (unat ?hi)\<bar>" by (intro dvd_imp_le_int [OF _ d]) linarith
      then show False using lo(2) hi(2) by linarith
    qed
  next
    assume "unat ?lo = unat ?hi"
    then have "unat ?hi + 256 * unat ?lo = unat c" using c by simp
    then show "65535 dvd ?S + unat ?hi + 256 * unat ?lo" using dvd by (simp add: add.assoc)
  qed
  then show "checksum16 (data[k := ?hi, Suc k := ?lo]) = 0 \<longleftrightarrow> ?lo = ?hi"
    using assms(3,7) by (subst checksum16_zero_iff) (simp_all add: up word_unat_eq_iff)
qed

definition ip_header_fields :: "u16 \<Rightarrow> u8 \<Rightarrow> u32 \<Rightarrow> u32 \<Rightarrow> u8 list" where
  "ip_header_fields total_length protocol src_ip dest_ip =
     [0x45, 0x00] @ be16 total_length @ [0x00, 0x00, 0x40, 0x00, 64, protocol, 0, 0] @ ip_unpack src_ip @ ip_unpack dest_ip"

lemma write_ip_header_eq:
  "write_ip_header n p src dst = (ip_header_fields n p src dst)
     [10 := ucast (drop_bit 8 (checksum16 (ip_header_fields n p src dst))), Suc 10 := ucast (checksum16 (ip_header_fields n p src dst))]"
  by (simp add: write_ip_header_def ip_header_fields_def Let_def)

lemma ip_header_fields_simps:
  "length (ip_header_fields n p src dst) = 20" "ip_header_fields n p src dst ! 10 = 0" "ip_header_fields n p src dst ! Suc 10 = 0"
  "0 < sum_nat (ip_header_fields n p src dst)"
  by (simp_all add: ip_header_fields_def be16_def ip_unpack_def)

text \<open>
  The checksum over an IP header that \<^verbatim>\<open>write_ip_header\<close> has filled is zero, which is what every receiver tests, exactly when
  the two bytes of its checksum field are equal: the code sums low byte first and stores high byte first.
  With the two bytes exchanged the header always verifies.
\<close>

theorem ip_header_checksum:
  fixes n :: u16 and p :: u8 and src dst :: u32
  defines "h \<equiv> write_ip_header n p src dst"
  shows "(checksum16 h = 0 \<longleftrightarrow> h ! 10 = h ! 11) \<and> checksum16 (h[10 := h ! 11, 11 := h ! 10]) = 0"
proof -
  let ?d = "ip_header_fields n p src dst"
  note st = checksum16_stored [of 10 ?d, OF _ _ _ ip_header_fields_simps(2,3) refl ip_header_fields_simps(4)]
  have len: "length ?d = 20" by (rule ip_header_fields_simps(1))
  have h: "h = ?d[10 := ucast (drop_bit 8 (checksum16 ?d)), Suc 10 := ucast (checksum16 ?d)]"
    unfolding h_def by (rule write_ip_header_eq)
  have b: "h ! 10 = ucast (drop_bit 8 (checksum16 ?d))" "h ! 11 = ucast (checksum16 ?d)" by (simp_all add: h len)
  have "h[10 := h ! 11, 11 := h ! 10] = ?d[10 := ucast (checksum16 ?d), Suc 10 := ucast (drop_bit 8 (checksum16 ?d))]"
    unfolding b by (simp add: h list_update_swap)
  then show ?thesis using st len b unfolding h by auto
qed

subsection \<open>Addresses\<close>

lemma ip_unpack_pack: "length bs = 4 \<Longrightarrow> ip_unpack (ip_pack bs) = bs"
proof -
  assume "length bs = 4"
  then obtain a b c d where bs: "bs = [a, b, c, d]" by (auto simp: length_Suc_conv numeral_eq_Suc)
  have high: "\<not> bit x (8 + n)" "\<not> bit x (16 + n)" "\<not> bit x (24 + n)" for x :: u8 and n
    using bit_imp_le_length [of x "8 + n"] bit_imp_le_length [of x "16 + n"] bit_imp_le_length [of x "24 + n"] by auto
  have m: "(0xFF :: u32) = mask 8" by (simp add: mask_eq_exp_minus_1)
  show ?thesis
    unfolding bs ip_unpack_def ip_pack_def m
    by (auto intro!: bit_word_eqI simp: bit_simps high)
qed

lemma ip_pack_unpack: "ip_pack (ip_unpack v) = v"
proof (rule bit_word_eqI)
  fix n assume "n < LENGTH(32)"
  have m: "(0xFF :: u32) = mask 8" by (simp add: mask_eq_exp_minus_1)
  show "bit (ip_pack (ip_unpack v)) n = bit v n"
    unfolding ip_unpack_def ip_pack_def m using \<open>n < LENGTH(32)\<close>
    by (cases "n < 8"; cases "n < 16"; cases "n < 24") (auto simp: bit_simps)
qed

lemma parse_ipv4_address_pack: "parse_ipv4_address = ip_pack"
  by (rule ext) (simp add: parse_ipv4_address_def ip_pack_def)

lemma length_ip_unpack [simp]: "length (ip_unpack v) = 4"
  by (simp add: ip_unpack_def)

subsection \<open>DHCP options\<close>

text \<open>The options of a message by recursion on the bytes: pad bytes are skipped, a truncated option and the end mark end the list.\<close>

function dhcp_options :: "u8 list \<Rightarrow> (u8 \<times> u8 list) list" where
  "dhcp_options [] = []"
| "dhcp_options [x] = []"
| "dhcp_options (opt # n # rest) =
     (if opt = 255 then []
      else if opt = 0 then dhcp_options (n # rest)
      else if length rest < unat n then []
      else (opt, take (unat n) rest) # dhcp_options (drop (unat n) rest))"
  by pat_completeness auto

termination dhcp_options
  by (relation "measure length") auto

lemma options_loop_correct:
  "len \<le> length options \<Longrightarrow>
   options_loop options len offset l = Some (fold (\<lambda>(opt, v). apply_option opt v) (dhcp_options (drop offset (take len options))) l)"
proof (induction options len offset l rule: options_loop.induct)
  case (1 options len offset l)
  show ?case
  proof (cases "offset + 2 \<le> len")
    case False
    then have "length (drop offset (take len options)) \<le> 1" using "1.prems" by auto
    then have "dhcp_options (drop offset (take len options)) = []"
      by (cases "drop offset (take len options)"; cases "tl (drop offset (take len options))") auto
    then show ?thesis using False by (subst options_loop.simps) simp
  next
    case True
    let ?opt = "options ! offset" and ?n = "options ! (offset + 1)"
    let ?rest = "drop (offset + 2) (take len options)"
    have bytes: "drop offset (take len options) = ?opt # ?n # ?rest" "drop (offset + 1) (take len options) = ?n # ?rest"
      using True "1.prems" by (simp_all add: Cons_nth_drop_Suc [symmetric] numeral_2_eq_2)
    have bounds: "\<not> length options \<le> offset" "\<not> length options \<le> offset + 1" using True "1.prems" by auto
    have rest: "length ?rest = len - (offset + 2)" "take k ?rest = take k (drop (offset + 2) options)" if "offset + 2 + k \<le> len" for k
      using "1.prems" that by (auto simp: take_drop min_def)
    have drop_rest: "drop k ?rest = drop (offset + 2 + k) (take len options)" for k by (simp add: add.commute add.assoc)
    consider "?opt = 255" | "?opt \<noteq> 255" "?opt = 0" | "?opt \<noteq> 255" "?opt \<noteq> 0" "offset + 2 + unat ?n > len"
      | "?opt \<noteq> 255" "?opt \<noteq> 0" "offset + 2 + unat ?n \<le> len" by linarith
    then show ?thesis
    proof cases
      case 2
      then show ?thesis using True bounds "1.IH"(1) "1.prems" bytes by (subst options_loop.simps) simp
    next
      case 3
      then have "length ?rest < unat ?n" using "1.prems" True by simp
      then show ?thesis using True bounds 3 by (subst options_loop.simps) (simp add: bytes)
    next
      case 4
      have len: "\<not> length ?rest < unat ?n" "\<not> length options < offset + 2 + unat ?n" using "1.prems" 4(3) by auto
      then have "options_loop options len (offset + 2 + unat ?n) (apply_option ?opt (take (unat ?n) (drop (offset + 2) options)) l) =
          Some (fold (\<lambda>(opt, v). apply_option opt v) (dhcp_options (drop (offset + 2 + unat ?n) (take len options)))
            (apply_option ?opt (take (unat ?n) (drop (offset + 2) options)) l))"
        using "1.IH"(2) True bounds 4 "1.prems" by simp
      then show ?thesis
        using True bounds 4 len unfolding bytes(1) dhcp_options.simps(3) rest(2) [OF 4(3)] drop_rest
        by (subst options_loop.simps) (simp add: Let_def)
    qed (use True bounds in \<open>subst options_loop.simps, simp add: bytes\<close>)
  qed
qed

text \<open>
  C16: Parsing the options of a DHCP message never reads outside the given bytes, always ends, and has the effect of handling, in order,
  exactly the options of the message; bytes after the given length have no influence.
\<close>

theorem parse_dhcp_options_correct:
  assumes "len \<le> length options"
  shows "parse_dhcp_options options len l = Some (fold (\<lambda>(opt, v). apply_option opt v) (dhcp_options (take len options)) l)"
  unfolding parse_dhcp_options_def using options_loop_correct [OF assms, of 0] by simp

definition no_lease :: lease where
  "no_lease = \<lparr>acquired = False, netmask = 0, gateway = 0, server_ip = 0\<rparr>"

definition example_offer_options :: "u8 list" where
  "example_offer_options = [53, 1, 2, 0, 1, 4, 255, 255, 255, 0, 3, 4, 10, 0, 2, 2, 54, 4, 10, 0, 2, 3, 255]"

lemma example_offer_lease:
  "fold (\<lambda>(opt, v). apply_option opt v) (dhcp_options example_offer_options) no_lease =
     \<lparr>acquired = True, netmask = 0xFFFFFF00, gateway = 0x0A000202, server_ip = 0x0A000203\<rparr>"
  by code_simp

theorem parse_dhcp_options_correct_witness:
  "parse_dhcp_options example_offer_options 23 no_lease =
     Some \<lparr>acquired = True, netmask = 0xFFFFFF00, gateway = 0x0A000202, server_ip = 0x0A000203\<rparr>"
  using parse_dhcp_options_correct [of 23 example_offer_options no_lease] example_offer_lease
  by (simp add: example_offer_options_def)

lemma discover_length: "length local_mac = 6 \<Longrightarrow> length (build_dhcp_discover local_mac xid) = 244"
  by (simp add: build_dhcp_discover_def)

lemma discover_options: "length local_mac = 6 \<Longrightarrow> dhcp_options (drop 240 (build_dhcp_discover local_mac xid)) = [(53, [1])]"
  by (simp add: build_dhcp_discover_def)

text \<open>
  The DHCP discover message carries one option, the message type 1 (discover). The request message overwrites the value of its message
  type with the code of the next option: its first option is a message type of 50, which no DHCP message has.
\<close>

theorem dhcp_messages_options:
  assumes "length local_mac = 6"
  shows "dhcp_options (drop 240 (build_dhcp_discover local_mac xid)) = [(53, [1])] \<and>
    length (build_dhcp_request local_mac xid ip server) = 255 \<and>
    hd (dhcp_options (drop 240 (build_dhcp_request local_mac xid ip server))) = (53, [50])"
proof -
  have "drop 240 (build_dhcp_request local_mac xid ip server) =
      [53, 1, 50, 4] @ ip_unpack ip @ [54, 4] @ ip_unpack server @ [255]"
    using assms by (simp add: build_dhcp_request_def build_dhcp_discover_def)
  then show ?thesis
    using assms discover_options discover_length by (simp add: build_dhcp_request_def)
qed

theorem dhcp_messages_options_witness:
  "hd (dhcp_options (drop 240 (build_dhcp_request [2, 0, 0, 0, 0, 1] 0x393047 0x0A00020F 0x0A000203))) = (53, [50])"
  using dhcp_messages_options [of "[2, 0, 0, 0, 0, 1]" "0x393047" "0x0A00020F" "0x0A000203"] by simp

end
