(* ===== verification/Network.thy ===== *)
theory Network
  imports Packets Pci
begin

text \<open>
  The RTL8139 driver and the ARP and DHCP client of \<^verbatim>\<open>network.c\<close>. The port writes of the driver are recorded in program order; what
  the card presents is a parameter: \<open>nic t\<close> holds the value of the register \<^verbatim>\<open>CAPR\<close> and the contents of the receive buffer
  when \<^verbatim>\<open>rtl8139_receive_packet\<close> is called for the \<open>t\<close>-th time. The loops that wait for the card give up after 100000
  reads and do the same whatever they read; they leave no trace in the model.

  The theorems show that receiving stays inside its buffers, what a transmission puts on the wire, and how
  far the ARP and DHCP exchanges get.
\<close>

abbreviation RX_BUFFER_SIZE :: nat where "RX_BUFFER_SIZE \<equiv> 9708"
abbreviation TX_BUFFER_SIZE :: nat where "TX_BUFFER_SIZE \<equiv> 2048"
abbreviation TX_DESC_COUNT :: nat where "TX_DESC_COUNT \<equiv> 4"
abbreviation KERNEL_BASE :: u64 where "KERNEL_BASE \<equiv> 0xFFFFFFFF80000000"

text \<open>The static variables; the four that a DHCP offer sets are the record \<open>lease\<close>.\<close>

record net_t =
  io_base :: u16
  network_ready :: bool
  dhcp :: lease
  local_mac :: "u8 list"
  local_ip :: u32
  dhcp_transaction_id :: u32
  arp_peer_mac :: "u8 list"
  arp_peer_ip :: u32
  tx_buffers :: "u8 list list"
  tx_phys :: "u32 list"
  tx_index :: nat
  port_log :: "port_write list"

definition net_static :: net_t where
  "net_static = \<lparr>io_base = 0, network_ready = False, dhcp = no_lease, local_mac = replicate 6 0, local_ip = 0,
     dhcp_transaction_id = 0x393047, arp_peer_mac = replicate 6 0, arp_peer_ip = 0,
     tx_buffers = replicate TX_DESC_COUNT (replicate TX_BUFFER_SIZE 0), tx_phys = replicate TX_DESC_COUNT 0, tx_index = 0, port_log = []\<rparr>"

text \<open>The link addresses of the two buffers.\<close>

record net_layout =
  at_rx_buffer :: u64
  at_tx_buffers :: u64

type_synonym nic = "nat \<Rightarrow> u16 \<times> u8 list"

definition virt_to_phys :: "u64 \<Rightarrow> u64" where
  "virt_to_phys ptr = (if ptr \<ge> KERNEL_BASE then ptr - KERNEL_BASE else ptr)"

definition io_write8 :: "u16 \<Rightarrow> u8 \<Rightarrow> net_t \<Rightarrow> net_t" where
  "io_write8 reg v s = s\<lparr>port_log := port_log s @ [Outb (io_base s + reg) v]\<rparr>"

definition io_write16 :: "u16 \<Rightarrow> u16 \<Rightarrow> net_t \<Rightarrow> net_t" where
  "io_write16 reg v s = s\<lparr>port_log := port_log s @ [Outw (io_base s + reg) v]\<rparr>"

definition io_write32 :: "u16 \<Rightarrow> u32 \<Rightarrow> net_t \<Rightarrow> net_t" where
  "io_write32 reg v s = s\<lparr>port_log := port_log s @ [Outl (io_base s + reg) v]\<rparr>"

subsection \<open>Sending\<close>

definition rtl8139_send_frame :: "net_layout \<Rightarrow> u8 list \<Rightarrow> u16 \<Rightarrow> u8 list \<Rightarrow> net_t \<Rightarrow> bool \<times> net_t" where
  "rtl8139_send_frame lay dest_mac ethertype payload s =
     (if length payload + 14 > TX_BUFFER_SIZE then (False, s)
      else
        let i = tx_index s;
            frame = blit (tx_buffers s ! i) 0 (write_eth_header (local_mac s) dest_mac ethertype @ payload);
            phys = ucast (virt_to_phys (at_tx_buffers lay + of_nat (TX_BUFFER_SIZE * i)));
            s = s\<lparr>tx_buffers := (tx_buffers s)[i := frame]\<rparr>;
            s = io_write32 (0x20 + of_nat (i * 4)) phys s;
            s = io_write32 (0x10 + of_nat (i * 4)) (of_nat (length payload)) s
        in (True, s\<lparr>tx_index := (i + 1) mod TX_DESC_COUNT\<rparr>))"

text \<open>\<open>junk\<close> is the uninitialised tail of the packet on the stack.\<close>

definition send_arp_request :: "net_layout \<Rightarrow> u8 list \<Rightarrow> u32 \<Rightarrow> net_t \<Rightarrow> net_t" where
  "send_arp_request lay junk target_ip s =
     (let packet = write_arp_request (local_mac s) target_ip @ take 12 junk
      in snd (rtl8139_send_frame lay packet 0x0806 (take 46 (drop 14 packet)) s))"

definition send_arp_reply :: "net_layout \<Rightarrow> u8 list \<Rightarrow> u32 \<Rightarrow> net_t \<Rightarrow> net_t" where
  "send_arp_reply lay target_mac target_ip s =
     (let packet = arp_reply_packet (local_mac s) (local_ip s) target_mac target_ip
      in snd (rtl8139_send_frame lay target_mac 0x0806 (take 46 (drop 14 packet)) s))"

text \<open>\<open>None\<close>: the payload does not fit the packet on the stack.\<close>

definition network_send_ipv4 :: "net_layout \<Rightarrow> u32 \<Rightarrow> u8 \<Rightarrow> u8 list \<Rightarrow> net_t \<Rightarrow> (bool \<times> net_t) option" where
  "network_send_ipv4 lay dest_ip protocol payload s =
     (if 1514 < 34 + length payload then None
      else Some (rtl8139_send_frame lay (arp_peer_mac s) 0x0800
                   (write_ip_header (of_nat (20 + length payload)) protocol (local_ip s) dest_ip @ payload) s))"

definition network_send_dhcp_packet :: "net_layout \<Rightarrow> u8 list \<Rightarrow> net_t \<Rightarrow> (bool \<times> net_t) option" where
  "network_send_dhcp_packet lay data s =
     (let udp_len = 8 + length data in
      if 1514 < 34 + udp_len then None
      else Some (rtl8139_send_frame lay (replicate 6 0xFF) 0x0800
                   (write_ip_header (of_nat (20 + udp_len)) 17 0 0xFFFFFFFF @
                    [0, 68, 0, 67, of_nat (udp_len div 256), of_nat udp_len, 0, 0] @ data) s))"

definition network_dhcp_discover :: "net_layout \<Rightarrow> net_t \<Rightarrow> (bool \<times> net_t) option" where
  "network_dhcp_discover lay s =
     network_send_dhcp_packet lay (build_dhcp_discover (local_mac s) (dhcp_transaction_id s)) s"

definition network_dhcp_request :: "net_layout \<Rightarrow> net_t \<Rightarrow> (bool \<times> net_t) option" where
  "network_dhcp_request lay s =
     network_send_dhcp_packet lay
       (build_dhcp_request (local_mac s) (dhcp_transaction_id s) (local_ip s) (server_ip (dhcp s))) s"

subsection \<open>Receiving\<close>

text \<open>\<open>None\<close> is a read behind the bytes that were received, or a pointer moved past them.\<close>

definition network_handle_dhcp_offer :: "u8 list \<Rightarrow> net_t \<Rightarrow> net_t option" where
  "network_handle_dhcp_offer packet s =
     (if length packet < 248 then Some s
      else do {
        xid \<leftarrow> ipv4_at packet 4;
        if xid \<noteq> dhcp_transaction_id s then Some s
        else do {
          ip \<leftarrow> ipv4_at packet 24;
          options \<leftarrow> tail_at packet 248;
          l \<leftarrow> parse_dhcp_options options (length packet - 248) (dhcp s);
          Some (s\<lparr>local_ip := ip, dhcp := l\<rparr>)
        }
      })"

definition network_handle_arp :: "net_layout \<Rightarrow> u8 list \<Rightarrow> net_t \<Rightarrow> net_t option" where
  "network_handle_arp lay frame s =
     (if length frame < 42 then Some s
      else do {
        arp \<leftarrow> tail_at frame 14;
        oper \<leftarrow> be16_at arp 6;
        src_ip \<leftarrow> ipv4_at arp 14;
        target_ip \<leftarrow> ipv4_at arp 24;
        s \<leftarrow> (if oper = 1 \<and> target_ip = local_ip s
             then map_option (\<lambda>sender_mac. send_arp_reply lay sender_mac src_ip s) (bytes_at arp 8 6) else Some s);
        if oper = 2
        then map_option (\<lambda>sender_mac. s\<lparr>arp_peer_mac := sender_mac, arp_peer_ip := src_ip\<rparr>) (bytes_at arp 8 6)
        else Some s
      })"

definition network_handle_ip :: "u8 list \<Rightarrow> net_t \<Rightarrow> net_t option" where
  "network_handle_ip frame s =
     (if length frame < 20 then Some s
      else do {
        protocol \<leftarrow> byte_at frame 9;
        dest_ip \<leftarrow> ipv4_at frame 16;
        if dest_ip \<noteq> local_ip s \<and> dest_ip \<noteq> 0xFFFFFFFF then Some s
        else if protocol = 17 \<and> length frame \<ge> 28 then do {
          src_port \<leftarrow> be16_at frame 20;
          dest_port \<leftarrow> be16_at frame 22;
          if dest_port = 68 \<and> src_port = 67
          then Option.bind (tail_at frame 20) (\<lambda>packet. network_handle_dhcp_offer packet s)
          else Some s
        }
        else Some s
      })"

text \<open>
  One call of \<^verbatim>\<open>rtl8139_receive_packet\<close>: the packet, if there is one. The outer \<open>None\<close> is an access outside the receive
  buffer or the caller's 1514 bytes.
\<close>

definition rtl8139_receive_packet :: "u16 \<times> u8 list \<Rightarrow> net_t \<Rightarrow> (u8 list option \<times> net_t) option" where
  "rtl8139_receive_packet hw s =
     (let (boundary, rx) = hw;
          boundary = (if boundary = 0 then 0x3F8 else boundary);
          offset = (boundary + 16) AND 0xFFF8;
          offset = (if unat offset \<ge> RX_BUFFER_SIZE then 0 else offset);
          p = unat offset
      in if length rx < p + 4 then None
         else if load_le16 rx p AND 1 = 0 then Some (None, s)
         else
           let len = load_le16 rx (p + 2) in
           if len > 1500 \<or> p + 4 + unat len > RX_BUFFER_SIZE
           then Some (None, io_write16 0x38 ((offset - 16) AND 0xFFF8) s)
           else if 1514 < unat len \<or> length rx < p + 4 + unat len then None
           else
             let nxt = (offset + len + 4 + 3) AND NOT 3;
                 nxt = (if unat nxt \<ge> RX_BUFFER_SIZE then 0 else nxt)
             in Some (Some (take (unat len) (drop (p + 4) rx)), io_write16 0x38 ((nxt - 16) AND 0xFFF8) s))"

text \<open>The body of the receive loop.\<close>

definition network_dispatch :: "net_layout \<Rightarrow> u8 list \<Rightarrow> net_t \<Rightarrow> net_t option" where
  "network_dispatch lay packet s =
     (if length packet < 14 then Some s
      else do {
        ethertype \<leftarrow> be16_at packet 12;
        if ethertype = 0x0806 then network_handle_arp lay packet s
        else if ethertype = 0x0800 then Option.bind (tail_at packet 14) (\<lambda>frame. network_handle_ip frame s)
        else Some s
      })"

text \<open>The loop runs as long as the card has packets; \<open>t\<close> counts the calls of the receive function.\<close>

partial_function (option) rtl8139_process_rx :: "net_layout \<Rightarrow> nic \<Rightarrow> nat \<Rightarrow> net_t \<Rightarrow> (nat \<times> net_t) option" where
  "rtl8139_process_rx lay nic t s =
     Option.bind (rtl8139_receive_packet (nic t) s) (\<lambda>(packet, s).
       if packet = None then Some (Suc t, s)
       else Option.bind (network_dispatch lay (the packet) s) (rtl8139_process_rx lay nic (Suc t)))"

subsection \<open>Starting the network\<close>

definition rtl8139_read_mac :: "(nat \<Rightarrow> u8) \<Rightarrow> net_t \<Rightarrow> net_t" where
  "rtl8139_read_mac mac_reg s = s\<lparr>local_mac := map mac_reg [0..<6]\<rparr>"

definition rtl8139_setup :: "net_layout \<Rightarrow> net_t \<Rightarrow> net_t" where
  "rtl8139_setup lay s =
     (let s = io_write8 0x37 0x10 s;
          s = io_write32 0x30 (ucast (virt_to_phys (at_rx_buffer lay))) s;
          s = io_write32 0x40 0x03000000 s;
          s = io_write32 0x44 (0x0001 OR 0x0002 OR 0x0004 OR 0x0008 OR 0x0080 OR 0x0300) s;
          s = io_write8 0x52 0x00 s;
          s = io_write16 0x3C 0x0005 s;
          s = io_write8 0x37 (0x08 OR 0x04) s
      in s\<lparr>tx_phys := map (\<lambda>i. ucast (virt_to_phys (at_tx_buffers lay + of_nat (TX_BUFFER_SIZE * i)))) [0..<TX_DESC_COUNT]\<rparr>)"

text \<open>Up to \<open>n\<close> calls of \<^verbatim>\<open>rtl8139_process_rx\<close>, ended early by a lease when \<open>stop\<close> is set.\<close>

fun poll_rx :: "net_layout \<Rightarrow> nic \<Rightarrow> bool \<Rightarrow> nat \<Rightarrow> nat \<times> net_t \<Rightarrow> (nat \<times> net_t) option" where
  "poll_rx lay nic stop 0 st = Some st"
| "poll_rx lay nic stop (Suc n) (t, s) =
     (case rtl8139_process_rx lay nic t s of
        None \<Rightarrow> None
      | Some (t, s) \<Rightarrow> if stop \<and> acquired (dhcp s) then Some (t, s) else poll_rx lay nic stop n (t, s))"

fun dhcp_attempts :: "net_layout \<Rightarrow> nic \<Rightarrow> nat \<Rightarrow> nat \<times> net_t \<Rightarrow> (nat \<times> net_t) option" where
  "dhcp_attempts lay nic 0 st = Some st"
| "dhcp_attempts lay nic (Suc n) (t, s) =
     (case network_dhcp_discover lay s of
        None \<Rightarrow> None
      | Some (_, s) \<Rightarrow>
          (case poll_rx lay nic True 50000 (t, s) of
             None \<Rightarrow> None
           | Some (t, s) \<Rightarrow> if acquired (dhcp s) then Some (t, s) else dhcp_attempts lay nic n (t, s)))"

text \<open>
  \<open>nic0\<close> is whatever the uninitialised device record holds before the search fills it. The two writes to the configuration space come first.
\<close>

definition network_initialize ::
    "net_layout \<Rightarrow> pci_space \<Rightarrow> pci_device_t \<Rightarrow> (nat \<Rightarrow> u8) \<Rightarrow> nic \<Rightarrow> net_t \<Rightarrow> (bool \<times> net_t) option" where
  "network_initialize lay cfg nic0 mac_reg nic s =
     (case pci_find_device cfg 0x10EC 0x8139 (Some nic0) of
        (True, Some dev) \<Rightarrow>
          (let command = pci_read_config_dword cfg (pd_bus dev) (pd_device dev) (pd_function dev) 0x04 OR 5;
               s = s\<lparr>port_log := port_log s @ pci_write_config_dword (pd_bus dev) (pd_device dev) (pd_function dev) 0x04 command,
                     io_base := ucast (pd_bar0 dev AND NOT 3)\<rparr>
           in if io_base s = 0 then Some (False, s)
              else
                case dhcp_attempts lay nic 3 (0, rtl8139_setup lay (rtl8139_read_mac mac_reg s)) of
                  None \<Rightarrow> None
                | Some (t, s) \<Rightarrow>
                    if \<not> acquired (dhcp s) then Some (False, s)
                    else
                      case network_dhcp_request lay s of
                        None \<Rightarrow> None
                      | Some (_, s) \<Rightarrow>
                          (case poll_rx lay nic False 50000 (t, s) of
                             None \<Rightarrow> None
                           | Some (t, s) \<Rightarrow>
                               if \<not> acquired (dhcp s) then Some (False, s) else Some (True, s\<lparr>network_ready := True\<rparr>)))
      | _ \<Rightarrow> Some (False, s))"

definition network_poll :: "net_layout \<Rightarrow> nic \<Rightarrow> nat \<Rightarrow> net_t \<Rightarrow> (nat \<times> net_t) option" where
  "network_poll lay nic t s = (if \<not> network_ready s then Some (t, s) else rtl8139_process_rx lay nic t s)"

definition network_get_ip :: "net_t \<Rightarrow> u32" where
  "network_get_ip s = local_ip s"

definition network_get_gateway :: "net_t \<Rightarrow> u32" where
  "network_get_gateway s = gateway (dhcp s)"

definition network_get_mac :: "net_t \<Rightarrow> u8 list" where
  "network_get_mac s = local_mac s"

subsection \<open>Sending\<close>

lemma io_write_simps [simp]:
  "local_mac (io_write8 r b s) = local_mac s" "local_mac (io_write16 r w s) = local_mac s" "local_mac (io_write32 r d s) = local_mac s"
  "dhcp (io_write8 r b s) = dhcp s" "dhcp (io_write16 r w s) = dhcp s" "dhcp (io_write32 r d s) = dhcp s"
  "dhcp_transaction_id (io_write8 r b s) = dhcp_transaction_id s" "dhcp_transaction_id (io_write16 r w s) = dhcp_transaction_id s"
  "dhcp_transaction_id (io_write32 r d s) = dhcp_transaction_id s"
  "io_base (io_write8 r b s) = io_base s" "io_base (io_write16 r w s) = io_base s" "io_base (io_write32 r d s) = io_base s"
  "tx_buffers (io_write32 r d s) = tx_buffers s"
  by (simp_all add: io_write8_def io_write16_def io_write32_def)

lemma length_write_eth_header: "6 \<le> length d \<Longrightarrow> 6 \<le> length m \<Longrightarrow> length (write_eth_header m d e) = 14"
  by (simp add: write_eth_header_def be16_def)

text \<open>The card sends the first \<open>n\<close> bytes of the buffer whose address it was given, \<open>n\<close> being the size written to the status register.\<close>

definition wire_frame :: "net_t \<Rightarrow> nat \<Rightarrow> u8 list option" where
  "wire_frame s i =
     (if port_log s = [] then None
      else case last (port_log s) of Outl _ v \<Rightarrow> Some (take (unat v) (tx_buffers s ! i)) | _ \<Rightarrow> None)"

text \<open>
  A payload that fits is stored behind its Ethernet header in the current descriptor, and the next descriptor becomes current. But the size
  given to the card is that of the payload alone: what goes out on the wire is the frame without its last 14 bytes.
\<close>

theorem rtl8139_send_frame_truncates:
  assumes "length (tx_buffers s) = TX_DESC_COUNT" "\<forall>b \<in> set (tx_buffers s). length b = TX_BUFFER_SIZE" "tx_index s < TX_DESC_COUNT"
    and "length dest = 6" "length (local_mac s) = 6" "length payload + 14 \<le> TX_BUFFER_SIZE"
    and "rtl8139_send_frame lay dest e payload s = (ok, s')"
  shows "ok \<and> take (14 + length payload) (tx_buffers s' ! tx_index s) = write_eth_header (local_mac s) dest e @ payload \<and>
    wire_frame s' (tx_index s) = Some (take (length payload) (write_eth_header (local_mac s) dest e @ payload)) \<and>
    tx_index s' = (tx_index s + 1) mod TX_DESC_COUNT \<and> (\<forall>j. j \<noteq> tx_index s \<longrightarrow> tx_buffers s' ! j = tx_buffers s ! j)"
proof -
  let ?h = "write_eth_header (local_mac s) dest e" and ?i = "tx_index s"
  have h: "length ?h = 14" using assms(4,5) by (simp add: length_write_eth_header)
  have b: "length (tx_buffers s ! ?i) = TX_BUFFER_SIZE" using assms(1-3) by simp
  have s': "ok" "tx_buffers s' = (tx_buffers s)[?i := blit (tx_buffers s ! ?i) 0 (?h @ payload)]" "tx_index s' = (?i + 1) mod TX_DESC_COUNT"
    "last (port_log s') = Outl (io_base s + (0x10 + of_nat (?i * 4))) (of_nat (length payload))" "port_log s' \<noteq> []"
    using assms(6,7) by (auto simp: rtl8139_send_frame_def Let_def io_write32_def)
  have n: "unat (of_nat (length payload) :: u32) = length payload" using assms(6) by (intro unat_of_nat_small) simp
  have buf: "tx_buffers s' ! ?i = (?h @ payload) @ drop (14 + length payload) (tx_buffers s ! ?i)"
    using assms(1,3) h by (simp add: s'(2) blit_def)
  then have "wire_frame s' ?i = Some (take (length payload) (?h @ payload))"
    using s'(4,5) n h by (simp add: wire_frame_def)
  then show ?thesis using s' buf h by simp
qed

definition net_example :: net_t where
  "net_example = net_static\<lparr>io_base := 0xC000, local_mac := [2, 0, 0, 0, 0, 1]\<rparr>"

theorem rtl8139_send_frame_truncates_witness:
  "wire_frame (snd (rtl8139_send_frame \<lparr>at_rx_buffer = 0, at_tx_buffers = 0x5000\<rparr> (replicate 6 255) 0x0800 (map of_nat [0..<20]) net_example)) 0 =
     Some (replicate 6 255 @ [2, 0, 0, 0, 0, 1, 8, 0, 0, 1, 2, 3, 4, 5])"
proof -
  let ?r = "rtl8139_send_frame \<lparr>at_rx_buffer = 0, at_tx_buffers = 0x5000\<rparr> (replicate 6 255) 0x0800 (map of_nat [0..<20]) net_example"
  have "wire_frame (snd ?r) (tx_index net_example) =
      Some (take 20 (write_eth_header (local_mac net_example) (replicate 6 255) 0x0800 @ map of_nat [0..<20]))"
    using rtl8139_send_frame_truncates [of net_example "replicate 6 255" "map of_nat [0..<20]"
        "\<lparr>at_rx_buffer = 0, at_tx_buffers = 0x5000\<rparr>" "0x0800" "fst ?r" "snd ?r"]
    by (simp add: net_example_def net_static_def)
  moreover have "take 20 (write_eth_header (local_mac net_example) (replicate 6 255) 0x0800 @ map of_nat [0..<20]) =
      replicate 6 255 @ [2, 0, 0, 0, 0, 1, 8, 0, 0, 1, 2, 3, 4, 5]" by code_simp
  ultimately show ?thesis by (simp add: net_example_def net_static_def)
qed

subsection \<open>Reads of received bytes\<close>

text \<open>The length tests in front of the reads are sufficient: what the handlers do, without the checks.\<close>

lemma ipv4_at_in_bounds [simp]: "i + 4 \<le> length b \<Longrightarrow> ipv4_at b i = Some (parse_ipv4_address (drop i b))"
  by (simp add: ipv4_at_def parse_ipv4_address_def)

lemma handle_dhcp_offer_eq:
  "network_handle_dhcp_offer packet s =
     Some (if length packet < 248 \<or> ip_pack (drop 4 packet) \<noteq> dhcp_transaction_id s then s
           else s\<lparr>local_ip := parse_ipv4_address (drop 24 packet),
                  dhcp := fold (\<lambda>(opt, v). apply_option opt v) (dhcp_options (drop 248 packet)) (dhcp s)\<rparr>)"
  using options_loop_correct [of "length packet - 248" "drop 248 packet" 0 "dhcp s"]
  by (simp add: network_handle_dhcp_offer_def parse_dhcp_options_def parse_ipv4_address_pack)

lemma handle_arp_eq:
  "network_handle_arp lay frame s =
     Some (if length frame < 42 then s
           else
             let arp = drop 14 frame;
                 oper = push_bit 8 (ucast (arp ! 6)) OR ucast (arp ! 7) :: u16;
                 sender_mac = take 6 (drop 8 arp);
                 src_ip = parse_ipv4_address (drop 14 arp);
                 s = (if oper = 1 \<and> parse_ipv4_address (drop 24 arp) = local_ip s then send_arp_reply lay sender_mac src_ip s else s)
             in if oper = 2 then s\<lparr>arp_peer_mac := sender_mac, arp_peer_ip := src_ip\<rparr> else s)"
  by (simp add: network_handle_arp_def Let_def)

lemma handle_ip_eq:
  "network_handle_ip frame s =
     (if 28 \<le> length frame \<and> parse_ipv4_address (drop 16 frame) \<in> {local_ip s, 0xFFFFFFFF} \<and> frame ! 9 = 17 \<and>
         push_bit 8 (ucast (frame ! 22)) OR ucast (frame ! 23) = (68 :: u16) \<and>
         push_bit 8 (ucast (frame ! 20)) OR ucast (frame ! 21) = (67 :: u16)
      then network_handle_dhcp_offer (drop 20 frame) s else Some s)"
  by (auto simp: network_handle_ip_def)

lemma dispatch_eq:
  "network_dispatch lay packet s =
     (let ethertype = push_bit 8 (ucast (packet ! 12)) OR ucast (packet ! 13) :: u16
      in if 14 \<le> length packet \<and> ethertype = 0x0806 then network_handle_arp lay packet s
         else if 14 \<le> length packet \<and> ethertype = 0x0800 then network_handle_ip (drop 14 packet) s
         else Some s)"
  by (simp add: network_dispatch_def Let_def)

subsection \<open>ARP\<close>

lemma length_mac: "length (m :: u8 list) = 6 \<Longrightarrow> \<exists>a b c d e f. m = [a, b, c, d, e, f]"
  by (auto simp: length_Suc_conv numeral_eq_Suc)

text \<open>The frame that a correct Ethernet would deliver for a request: the packet as it is built.\<close>

lemma arp_request_fields:
  assumes "length m = 6"
  shows "length (write_arp_request m ip) = 48" "drop 14 (write_arp_request m ip) ! 6 = 0" "drop 14 (write_arp_request m ip) ! 7 = 1"
    "parse_ipv4_address (drop 24 (drop 14 (write_arp_request m ip))) = 0"
    "parse_ipv4_address (drop 14 (drop 14 (write_arp_request m ip))) = 0"
  using length_mac [OF assms]
  by (auto simp: write_arp_request_def ip_unpack_def parse_ipv4_address_def nth_append)

lemma arp_reply_fields:
  assumes "length m = 6" "length tm = 6"
  shows "length (arp_reply_packet m lip tm tip) = 60" "drop 14 (arp_reply_packet m lip tm tip) ! 6 = 0"
    "drop 14 (arp_reply_packet m lip tm tip) ! 7 = 2" "take 6 (drop 8 (drop 14 (arp_reply_packet m lip tm tip))) = m"
    "parse_ipv4_address (drop 14 (drop 14 (arp_reply_packet m lip tm tip))) = ip_pack (take 4 tm)"
  using length_mac [OF assms(1)] length_mac [OF assms(2)]
  by (auto simp: arp_reply_packet_def write_eth_header_def be16_def ip_unpack_def parse_ipv4_address_def ip_pack_def)

text \<open>
  An ARP exchange between two hosts that run this code. The request is built with the target address in the field of the target's
  hardware address, so the host that has the address sees a request for 0.0.0.0 and does not answer. The reply has the requester's hardware address where
  the sender's protocol address belongs: the requester learns the right hardware address but pairs it with the first four bytes of its own.
\<close>

theorem arp_exchange_fails:
  assumes "length (local_mac a) = 6" "length (local_mac b) = 6" "local_ip b \<noteq> 0"
  shows "network_handle_arp lay (write_arp_request (local_mac a) (local_ip b)) b = Some b \<and>
    network_handle_arp lay (arp_reply_packet (local_mac b) (local_ip b) (local_mac a) (local_ip a)) a =
      Some (a\<lparr>arp_peer_mac := local_mac b, arp_peer_ip := ip_pack (take 4 (local_mac a))\<rparr>)"
proof -
  note q = arp_request_fields [OF assms(1), of "local_ip b"] and r = arp_reply_fields [OF assms(2,1), of "local_ip b" "local_ip a"]
  have "network_handle_arp lay (write_arp_request (local_mac a) (local_ip b)) b = Some b"
    using assms(3) unfolding handle_arp_eq Let_def q by simp
  moreover have "network_handle_arp lay (arp_reply_packet (local_mac b) (local_ip b) (local_mac a) (local_ip a)) a =
      Some (a\<lparr>arp_peer_mac := local_mac b, arp_peer_ip := ip_pack (take 4 (local_mac a))\<rparr>)"
    unfolding handle_arp_eq Let_def r by simp
  ultimately show ?thesis by simp
qed

theorem arp_exchange_fails_witness:
  "network_handle_arp \<lparr>at_rx_buffer = 0, at_tx_buffers = 0x5000\<rparr>
     (write_arp_request [2, 0, 0, 0, 0, 1] 0x0A000203) (net_example\<lparr>local_ip := 0x0A000203\<rparr>) = Some (net_example\<lparr>local_ip := 0x0A000203\<rparr>) \<and>
   map_option arp_peer_ip (network_handle_arp \<lparr>at_rx_buffer = 0, at_tx_buffers = 0x5000\<rparr>
     (arp_reply_packet [2, 0, 0, 0, 0, 1] 0x0A000203 [2, 0, 0, 0, 0, 1] 0) net_example) = Some 0x02000000"
  using arp_exchange_fails [of net_example "net_example\<lparr>local_ip := 0x0A000203\<rparr>" "\<lparr>at_rx_buffer = 0, at_tx_buffers = 0x5000\<rparr>"]
  by (simp add: net_example_def net_static_def ip_pack_def)

subsection \<open>Receiving\<close>

text \<open>The packet that a call of the receive function takes, which depends on the card only.\<close>

definition rx_packet :: "u16 \<times> u8 list \<Rightarrow> u8 list option" where
  "rx_packet hw = Option.bind (rtl8139_receive_packet hw net_static) fst"

lemma unat_and_FFF8: "unat (x AND 0xFFF8) = 8 * (unat x div 8)" for x :: u16
proof -
  have "x AND 0xFFF8 = push_bit 3 (drop_bit 3 x)"
  proof (rule bit_word_eqI)
    fix n assume n: "n < LENGTH(16)"
    have m: "(0xFFF8 :: u16) = push_bit 3 (mask 13)" by (simp add: mask_eq_exp_minus_1)
    show "bit (x AND 0xFFF8) n = bit (push_bit 3 (drop_bit 3 x)) n" unfolding m using n by (auto simp: bit_simps)
  qed
  moreover have "unat x < 65536" using unsigned_less [of x, where 'a = nat] by simp
  then have "8 * (unat x div 8) < 65536" using times_div_less_eq_dividend [of 8 "unat x"] by linarith
  ultimately show ?thesis by (simp add: push_bit_eq_mult unat_word_ariths unat_drop_bit_div)
qed

lemma rx_offset_bound:
  assumes "offset = (b AND 0xFFF8 :: u16)" "unat offset < RX_BUFFER_SIZE"
  shows "unat offset + 4 \<le> RX_BUFFER_SIZE"
proof -
  obtain k where "unat offset = 8 * k" using assms(1) unat_and_FFF8 [of b] by auto
  then show ?thesis using assms(2) by simp
qed

lemma receive_packet_total:
  assumes "length rx = RX_BUFFER_SIZE"
  shows "\<exists>s'. rtl8139_receive_packet (b, rx) s = Some (rx_packet (b, rx), s') \<and>
    dhcp s' = dhcp s \<and> dhcp_transaction_id s' = dhcp_transaction_id s \<and> local_mac s' = local_mac s"
    and "rx_packet (b, rx) = Some p \<Longrightarrow> length p \<le> 1500"
proof -
  let ?b = "(if b = 0 then 0x3F8 else b) + 16 AND 0xFFF8"
  define offset where "offset = (if unat ?b \<ge> RX_BUFFER_SIZE then 0 else ?b)"
  have off: "unat offset + 4 \<le> RX_BUFFER_SIZE"
    using rx_offset_bound [OF refl, of "(if b = 0 then 0x3F8 else b) + 16"] by (auto simp: offset_def)
  define len where "len = load_le16 rx (unat offset + 2)"
  have short: "\<not> len > 1500 \<Longrightarrow> \<not> 1514 < unat len" "\<not> len > 1500 \<Longrightarrow> unat len \<le> 1500"
    by (simp_all add: word_less_nat_alt)
  have eq: "rtl8139_receive_packet (b, rx) s =
    (if load_le16 rx (unat offset) AND 1 = 0 then Some (None, s)
     else if len > 1500 \<or> unat offset + 4 + unat len > RX_BUFFER_SIZE then Some (None, io_write16 0x38 ((offset - 16) AND 0xFFF8) s)
     else Some (Some (take (unat len) (drop (unat offset + 4) rx)),
       io_write16 0x38 (((let nxt = (offset + len + 4 + 3) AND NOT 3 in if unat nxt \<ge> RX_BUFFER_SIZE then 0 else nxt) - 16) AND 0xFFF8) s))" for s
    using off short(1) assms
    unfolding rtl8139_receive_packet_def Let_def prod.case offset_def [symmetric] len_def [symmetric] by auto
  then show "\<exists>s'. rtl8139_receive_packet (b, rx) s = Some (rx_packet (b, rx), s') \<and>
    dhcp s' = dhcp s \<and> dhcp_transaction_id s' = dhcp_transaction_id s \<and> local_mac s' = local_mac s"
    by (simp add: rx_packet_def)
  show "rx_packet (b, rx) = Some p \<Longrightarrow> length p \<le> 1500"
    using short(2) by (auto simp: rx_packet_def eq split: if_splits)
qed

lemma dispatch_total: "\<exists>s'. network_dispatch lay packet s = Some s'"
  by (simp add: dispatch_eq handle_ip_eq handle_dhcp_offer_eq handle_arp_eq Let_def)

lemma process_rx_idle:
  assumes "length (snd (nic t)) = RX_BUFFER_SIZE" "rx_packet (nic t) = None"
  shows "\<exists>s'. rtl8139_process_rx lay nic t s = Some (Suc t, s') \<and>
    dhcp s' = dhcp s \<and> dhcp_transaction_id s' = dhcp_transaction_id s \<and> local_mac s' = local_mac s"
  using receive_packet_total(1) [OF assms(1), of "fst (nic t)" s] assms(2) by (subst rtl8139_process_rx.simps) auto

lemma process_rx_packet:
  assumes "length (snd (nic t)) = RX_BUFFER_SIZE" "rx_packet (nic t) = Some p"
  shows "\<exists>s'. rtl8139_process_rx lay nic t s = Option.bind (network_dispatch lay p s') (rtl8139_process_rx lay nic (Suc t)) \<and>
    dhcp s' = dhcp s \<and> dhcp_transaction_id s' = dhcp_transaction_id s \<and> local_mac s' = local_mac s"
  using receive_packet_total(1) [OF assms(1), of "fst (nic t)" s] assms(2) by (subst rtl8139_process_rx.simps) auto

text \<open>
  C15: Receiving is safe: whatever the receive buffer of the card holds, no access leaves it, every packet handed on
  has at most 1500 bytes, the ARP, IP and DHCP handlers read no byte behind those that were received, and the loop over the waiting
  packets returns as soon as the card has no further packet.
\<close>

theorem rtl8139_process_rx_safe:
  assumes "\<forall>t. length (snd (nic t)) = RX_BUFFER_SIZE" and "rx_packet (nic (t + k)) = None"
  shows "(\<exists>t' s'. rtl8139_process_rx lay nic t s = Some (t', s')) \<and> (\<forall>j p. rx_packet (nic j) = Some p \<longrightarrow> length p \<le> 1500)"
proof
  show "\<exists>t' s'. rtl8139_process_rx lay nic t s = Some (t', s')"
    using assms(2)
  proof (induction k arbitrary: t s)
    case 0
    then show ?case using process_rx_idle [of nic t lay s] assms(1) by auto
  next
    case (Suc k)
    show ?case
    proof (cases "rx_packet (nic t)")
      case None
      then show ?thesis using process_rx_idle [of nic t lay s] assms(1) by auto
    next
      case (Some p)
      then obtain s1 where "rtl8139_process_rx lay nic t s = Option.bind (network_dispatch lay p s1) (rtl8139_process_rx lay nic (Suc t))"
        using process_rx_packet [of nic t p lay s] assms(1) by auto
      moreover obtain s2 where "network_dispatch lay p s1 = Some s2" using dispatch_total by blast
      ultimately show ?thesis using Suc.IH [of "Suc t" s2] Suc.prems by simp
    qed
  qed
  show "\<forall>j p. rx_packet (nic j) = Some p \<longrightarrow> length p \<le> 1500"
    using receive_packet_total(2) assms(1) by (metis prod.collapse)
qed

subsection \<open>DHCP\<close>

text \<open>
  A frame with a datagram from port 67 to port 68 states, in the UDP length field, room for the UDP header and the fixed part of a DHCP message, as
  every datagram of a DHCP server does. Padding and checksum of the frame do not matter.
\<close>

definition dhcp_length_ok :: "u8 list \<Rightarrow> bool" where
  "dhcp_length_ok frame \<longleftrightarrow>
     (42 \<le> length frame \<and> frame ! 23 = 17 \<and> frame ! 34 = 0 \<and> frame ! 35 = 67 \<and> frame ! 36 = 0 \<and> frame ! 37 = 68 \<longrightarrow>
      248 \<le> 256 * unat (frame ! 38) + unat (frame ! 39))"

lemma be16_port:
  fixes h l :: u8
  assumes "push_bit 8 (ucast h) OR ucast l = (of_nat n :: u16)" "n < 256"
  shows "h = 0 \<and> l = of_nat n"
proof -
  have b: "unat h < 256" "unat l < 256" by (rule u8_less)+
  have "push_bit 8 (ucast h) OR ucast l = push_bit 8 (ucast h) + (ucast l :: u16)"
    by (rule disjunctive_add [symmetric]) (auto simp: bit_simps dest: bit_imp_le_length)
  then have "unat (push_bit 8 (ucast h) OR ucast l :: u16) = 256 * unat h + unat l"
    using b by (simp add: unat_word_ariths push_bit_eq_mult unat_ucast_mod)
  moreover have "unat (of_nat n :: u16) = n" using assms(2) by (intro unat_of_nat_small) simp
  ultimately have eq: "256 * unat h + unat l = n" unfolding assms(1) by simp
  then have "unat h = 0" using assms(2) by linarith
  moreover from this have "n = unat l" using eq by simp
  ultimately show ?thesis by (simp add: unat_eq_zero)
qed

lemma unat_ip_pack_high: "unat (ip_pack bs) div 65536 = 256 * unat (bs ! 0) + unat (bs ! 1)"
proof -
  let ?p = "push_bit 24 (ucast (bs ! 0)) :: u32" and ?q = "push_bit 16 (ucast (bs ! 1)) :: u32"
    and ?r = "push_bit 8 (ucast (bs ! 2)) :: u32" and ?t = "ucast (bs ! 3) :: u32"
  have b: "unat (bs ! k) < 256" for k by (rule u8_less)
  have "?p OR ?q OR ?r OR ?t = ?p + (?q + (?r + ?t))"
  proof -
    have "?r OR ?t = ?r + ?t" by (rule disjunctive_add [symmetric]) (auto simp: bit_simps dest: bit_imp_le_length)
    moreover have "?q OR (?r OR ?t) = ?q + (?r OR ?t)" by (rule disjunctive_add [symmetric]) (auto simp: bit_simps dest: bit_imp_le_length)
    moreover have "?p OR (?q OR (?r OR ?t)) = ?p + (?q OR (?r OR ?t))" by (rule disjunctive_add [symmetric]) (auto simp: bit_simps dest: bit_imp_le_length)
    ultimately show ?thesis by (simp only: or.assoc)
  qed
  then have "unat (ip_pack bs) = 65536 * (256 * unat (bs ! 0) + unat (bs ! 1)) + (256 * unat (bs ! 2) + unat (bs ! 3))"
    using b [of 0] b [of 1] b [of 2] b [of 3] by (simp add: ip_pack_def or.assoc unat_word_ariths push_bit_eq_mult unat_ucast_mod)
  moreover have "256 * unat (bs ! 2) + unat (bs ! 3) < 65536" using b [of 2] b [of 3] by linarith
  ultimately show ?thesis by simp
qed

lemma handle_ip_ignores_offers:
  assumes "dhcp_length_ok frame" "dhcp_transaction_id s = 0x393047" "14 \<le> length frame"
  shows "network_handle_ip (drop 14 frame) s = Some s"
proof -
  let ?f = "drop 14 frame"
  have "network_handle_dhcp_offer (drop 20 ?f) s = Some s"
    if udp: "28 \<le> length ?f" "?f ! 9 = 17" "push_bit 8 (ucast (?f ! 22)) OR ucast (?f ! 23) = (68 :: u16)"
      "push_bit 8 (ucast (?f ! 20)) OR ucast (?f ! 21) = (67 :: u16)"
  proof -
    have "248 \<le> 256 * unat (frame ! 38) + unat (frame ! 39)"
      using assms(1) udp be16_port [of "?f ! 22" "?f ! 23" 68] be16_port [of "?f ! 20" "?f ! 21" 67]
      by (simp add: dhcp_length_ok_def)
    then have "248 \<le> unat (ip_pack (drop 4 (drop 20 ?f))) div 65536"
      unfolding unat_ip_pack_high using udp(1) by simp
    moreover have "unat (0x393047 :: u32) div 65536 = 57" by simp
    ultimately have "ip_pack (drop 4 (drop 20 ?f)) \<noteq> 0x393047" by auto
    then show ?thesis using assms(2) by (simp add: handle_dhcp_offer_eq)
  qed
  then show ?thesis unfolding handle_ip_eq by auto
qed

text \<open>What the client keeps as long as it has no lease.\<close>

definition no_offer :: "net_t \<Rightarrow> bool" where
  "no_offer s \<longleftrightarrow> dhcp_transaction_id s = 0x393047 \<and> \<not> acquired (dhcp s) \<and> length (local_mac s) = 6"

lemma send_frame_no_offer: "no_offer (snd (rtl8139_send_frame lay d e p s)) = no_offer s"
  by (simp add: no_offer_def rtl8139_send_frame_def Let_def)

lemma handle_arp_no_offer: "\<exists>s'. network_handle_arp lay frame s = Some s' \<and> no_offer s' = no_offer s"
proof -
  have "no_offer (send_arp_reply lay m i s) = no_offer s" for m i s
    by (simp add: send_arp_reply_def send_frame_no_offer Let_def)
  moreover have "no_offer (s\<lparr>arp_peer_mac := m, arp_peer_ip := i\<rparr>) = no_offer s" for m i s by (simp add: no_offer_def)
  ultimately show ?thesis by (simp add: handle_arp_eq Let_def)
qed

lemma dispatch_no_offer:
  assumes "dhcp_length_ok p" "no_offer s"
  shows "\<exists>s'. network_dispatch lay p s = Some s' \<and> no_offer s'"
  using assms handle_ip_ignores_offers [of p s] handle_arp_no_offer [of lay p s]
  by (auto simp: dispatch_eq Let_def no_offer_def)

lemma process_rx_no_offer:
  assumes nic: "\<forall>t. length (snd (nic t)) = RX_BUFFER_SIZE" "\<forall>t p. rx_packet (nic t) = Some p \<longrightarrow> dhcp_length_ok p"
    and "no_offer s" "rx_packet (nic (t + k)) = None"
  shows "\<exists>t' s'. rtl8139_process_rx lay nic t s = Some (t', s') \<and> no_offer s'"
  using assms(3,4)
proof (induction k arbitrary: t s)
  case 0
  then show ?case using process_rx_idle [of nic t lay s] nic(1) by (auto simp: no_offer_def)
next
  case (Suc k)
  show ?case
  proof (cases "rx_packet (nic t)")
    case None
    then show ?thesis using process_rx_idle [of nic t lay s] nic(1) Suc.prems(1) by (auto simp: no_offer_def)
  next
    case (Some p)
    then obtain s1 where 1: "rtl8139_process_rx lay nic t s = Option.bind (network_dispatch lay p s1) (rtl8139_process_rx lay nic (Suc t))"
      "no_offer s1"
      using process_rx_packet [of nic t p lay s] nic(1) Suc.prems(1) by (auto simp: no_offer_def)
    obtain s2 where "network_dispatch lay p s1 = Some s2" "no_offer s2" using dispatch_no_offer [OF _ 1(2)] nic(2) Some by blast
    then show ?thesis using Suc.IH [of s2 "Suc t"] Suc.prems 1(1) by simp
  qed
qed

lemma poll_rx_no_offer:
  assumes nic: "\<forall>t. length (snd (nic t)) = RX_BUFFER_SIZE" "\<forall>t p. rx_packet (nic t) = Some p \<longrightarrow> dhcp_length_ok p"
      "\<forall>t. \<exists>k. rx_packet (nic (t + k)) = None"
  shows "no_offer s \<Longrightarrow> \<exists>t' s'. poll_rx lay nic stop n (t, s) = Some (t', s') \<and> no_offer s'"
proof (induction n arbitrary: t s)
  case (Suc n)
  obtain k where "rx_packet (nic (t + k)) = None" using nic(3) by blast
  then obtain t1 s1 where 1: "rtl8139_process_rx lay nic t s = Some (t1, s1)" "no_offer s1"
    using process_rx_no_offer [OF nic(1,2) Suc.prems] by blast
  then show ?case using Suc.IH [OF 1(2), of t1] by (auto simp: no_offer_def)
qed simp

lemma discover_no_offer:
  assumes "no_offer s"
  shows "\<exists>ok s'. network_dhcp_discover lay s = Some (ok, s') \<and> no_offer s'"
proof -
  have "length (build_dhcp_discover (local_mac s) (dhcp_transaction_id s)) = 244"
    using assms discover_length by (simp add: no_offer_def)
  moreover have "\<exists>ok s'. x = (ok, s') \<and> no_offer s'" if "no_offer (snd x)" for x :: "bool \<times> net_t"
    using that by (cases x) auto
  ultimately show ?thesis
    unfolding network_dhcp_discover_def network_send_dhcp_packet_def Let_def
    using assms by (simp add: send_frame_no_offer)
qed

lemma dhcp_attempts_no_offer:
  assumes nic: "\<forall>t. length (snd (nic t)) = RX_BUFFER_SIZE" "\<forall>t p. rx_packet (nic t) = Some p \<longrightarrow> dhcp_length_ok p"
      "\<forall>t. \<exists>k. rx_packet (nic (t + k)) = None"
  shows "no_offer s \<Longrightarrow> \<exists>t' s'. dhcp_attempts lay nic n (t, s) = Some (t', s') \<and> no_offer s'"
proof (induction n arbitrary: t s)
  case (Suc n)
  obtain ok s1 where 1: "network_dhcp_discover lay s = Some (ok, s1)" "no_offer s1" using discover_no_offer [OF Suc.prems] by blast
  obtain t2 s2 where 2: "poll_rx lay nic True 50000 (t, s1) = Some (t2, s2)" "no_offer s2"
    using poll_rx_no_offer [OF nic 1(2)] by blast
  then show ?case using 1(1) Suc.IH [OF 2(2), of t2] by (auto simp: no_offer_def)
qed simp

text \<open>
  C25: The DHCP client never gets a lease. The handler of an offer is given the packet from its UDP header on but looks for the
  transaction number where it is in the DHCP message, so it compares it with the length and checksum of the datagram. As long as every
  DHCP datagram that arrives states a length of at least 248 bytes, that of the UDP header and the fixed part of a DHCP message, and the card has no
  endless supply of packets, no offer is accepted, not even one with the right transaction number, and bringing up the network ends, after three attempts, with a failure.
\<close>

theorem network_initialize_never_succeeds:
  assumes nic: "\<forall>t. length (snd (nic t)) = RX_BUFFER_SIZE" "\<forall>t p. rx_packet (nic t) = Some p \<longrightarrow> dhcp_length_ok p"
      "\<forall>t. \<exists>k. rx_packet (nic (t + k)) = None"
    and s: "dhcp_transaction_id s = 0x393047" "\<not> acquired (dhcp s)"
  shows "\<exists>s'. network_initialize lay cfg nic0 mac_reg nic s = Some (False, s')"
proof -
  have init: "no_offer (rtl8139_setup lay (rtl8139_read_mac mac_reg s'))" if "dhcp_transaction_id s' = 0x393047" "\<not> acquired (dhcp s')" for s'
    using that by (simp add: no_offer_def rtl8139_setup_def rtl8139_read_mac_def Let_def)
  have fails: "\<exists>t1 s1. dhcp_attempts lay nic 3 (0, rtl8139_setup lay (rtl8139_read_mac mac_reg s')) = Some (t1, s1) \<and> \<not> acquired (dhcp s1)"
    if "dhcp_transaction_id s' = 0x393047" "\<not> acquired (dhcp s')" for s'
    using dhcp_attempts_no_offer [OF nic init [OF that], of lay 3 0] by (auto simp: no_offer_def)
  show ?thesis
  proof (cases "pci_find_device cfg 0x10EC 0x8139 (Some nic0)")
    case (Pair found dev)
    show ?thesis
    proof (cases "found \<and> dev \<noteq> None")
      case True
      then obtain d where d: "pci_find_device cfg 0x10EC 0x8139 (Some nic0) = (True, Some d)" using Pair by auto
      let ?s = "s\<lparr>port_log := port_log s @ pci_write_config_dword (pd_bus d) (pd_device d) (pd_function d) 0x04
          (pci_read_config_dword cfg (pd_bus d) (pd_device d) (pd_function d) 0x04 OR 5), io_base := ucast (pd_bar0 d AND NOT 3)\<rparr>"
      obtain t1 s1 where "dhcp_attempts lay nic 3 (0, rtl8139_setup lay (rtl8139_read_mac mac_reg ?s)) = Some (t1, s1)" "\<not> acquired (dhcp s1)"
        using fails [of ?s] s by auto
      then show ?thesis unfolding network_initialize_def d by (simp add: Let_def)
    next
      case False
      then show ?thesis unfolding network_initialize_def Pair by (auto split: bool.splits option.splits)
    qed
  qed
qed

definition quiet_nic :: nic where
  "quiet_nic t = (0, replicate RX_BUFFER_SIZE 0)"

definition one_nic_space :: pci_space where
  "one_nic_space a = (if a AND 0xFC = 0 then 0x813910EC else 0xC001)"

lemma rx_packet_quiet: "rx_packet (quiet_nic t) = None"
  by (simp add: rx_packet_def quiet_nic_def rtl8139_receive_packet_def Let_def load_le16_def)

text \<open>A card that receives, every second time it is asked, a proper offer of the address 10.0.2.15 with the transaction number of the client.\<close>

definition offer_frame :: "u8 list" where
  "offer_frame = replicate 6 255 @ [2, 0, 0, 0, 0, 2, 8, 0] @
     [0x45, 0, 1, 0x14, 0, 0, 0, 0, 64, 17, 0, 0, 10, 0, 2, 2, 255, 255, 255, 255] @ [0, 67, 0, 68, 1, 0, 0, 0] @
     [2, 1, 6, 0, 0, 0x39, 0x30, 0x47] @ replicate 8 0 @ [10, 0, 2, 15] @ replicate 216 0 @ [99, 130, 83, 99] @ [53, 1, 2, 255, 0, 0, 0, 0]"

definition offer_nic :: nic where
  "offer_nic t = (0, if even t then replicate 0x408 0 @ [1, 0, 0x22, 1] @ offer_frame @ replicate 8382 0 else replicate RX_BUFFER_SIZE 0)"

lemma offer_frame_length: "length offer_frame = 290"
  by (simp add: offer_frame_def)

lemma offer_nic_length: "length (snd (offer_nic t)) = RX_BUFFER_SIZE"
  by (simp add: offer_nic_def offer_frame_length)

lemma rx_packet_offer: "rx_packet (offer_nic t) = (if even t then Some offer_frame else None)"
  by (simp add: rx_packet_def offer_nic_def rtl8139_receive_packet_def Let_def load_le16_def offer_frame_length nth_append)

lemma offer_frame_ok: "dhcp_length_ok offer_frame" "ip_pack (drop 46 offer_frame) = 0x393047"
  by code_simp+

theorem network_initialize_never_succeeds_witness:
  "rx_packet (offer_nic 0) = Some offer_frame \<and> ip_pack (drop 46 offer_frame) = dhcp_transaction_id net_static \<and>
   (\<exists>s'. network_initialize \<lparr>at_rx_buffer = 0, at_tx_buffers = 0x5000\<rparr> one_nic_space
     (fill_device one_nic_space (0, 0, 0)) (\<lambda>i. of_nat i) offer_nic net_static = Some (False, s'))"
proof -
  have card: "\<forall>t. length (snd (offer_nic t)) = RX_BUFFER_SIZE" "\<forall>t p. rx_packet (offer_nic t) = Some p \<longrightarrow> dhcp_length_ok p"
    "\<forall>t. \<exists>k. rx_packet (offer_nic (t + k)) = None"
    using offer_frame_ok(1) by (auto simp: offer_nic_length rx_packet_offer intro: exI [of _ "t mod 2 + 1" for t])
  have "\<exists>s'. network_initialize \<lparr>at_rx_buffer = 0, at_tx_buffers = 0x5000\<rparr> one_nic_space
     (fill_device one_nic_space (0, 0, 0)) (\<lambda>i. of_nat i) offer_nic net_static = Some (False, s')"
    by (rule network_initialize_never_succeeds [OF card]) (simp_all add: net_static_def no_lease_def)
  then show ?thesis using offer_frame_ok(2) by (simp add: rx_packet_offer net_static_def)
qed

text \<open>A card with one packet of 60 bytes waiting.\<close>

definition busy_nic :: nic where
  "busy_nic t = (0, if t = 0 then (replicate RX_BUFFER_SIZE 0)[0x408 := 1, 0x40A := 60] else replicate RX_BUFFER_SIZE 0)"

lemma rx_packet_busy: "rx_packet (busy_nic 0) = Some (replicate 60 0)" "rx_packet (busy_nic (Suc t)) = None"
  by (simp_all add: rx_packet_def busy_nic_def rtl8139_receive_packet_def Let_def load_le16_def)

theorem rtl8139_process_rx_safe_witness:
  "rx_packet (busy_nic 0) = Some (replicate 60 0) \<and>
   (\<exists>t' s'. rtl8139_process_rx \<lparr>at_rx_buffer = 0, at_tx_buffers = 0x5000\<rparr> busy_nic 0 net_static = Some (t', s'))"
proof -
  have "\<forall>t. length (snd (busy_nic t)) = RX_BUFFER_SIZE" by (simp add: busy_nic_def)
  from rtl8139_process_rx_safe [OF this, of 0 1] rx_packet_busy show ?thesis by simp
qed

end
