(* ===== verification/Multiboot.thy ===== *)
theory Multiboot
  imports Bytes Pmm
begin

text \<open>
  The memory map of the boot loader and the memory set-up of \<^verbatim>\<open>kernel.c\<close>. The information structure is a function from offsets (the
  distance from the pointer \<^verbatim>\<open>multiboot_info\<close>) to bytes. The two walks over its tags, \<^verbatim>\<open>get_multiboot_memory_top\<close> and
  \<^verbatim>\<open>mark_multiboot_memory\<close>, have the same two loops; these are written once, with the work on an entry as an argument. A
  loop that does not end is \<open>None\<close>.

  The theorems show that on every structure that is built as the Multiboot2 standard says both walks end and visit exactly the entries of the map, which
  frames are free after the set-up, and that a size of zero in the structure makes the kernel hang.
\<close>

subsection \<open>Reading the structure\<close>

type_synonym mb_mem = "nat \<Rightarrow> u8"

record multiboot_mmap_entry_t =
  me_addr :: u64
  me_len :: u64
  me_type :: u32

definition mb_load32 :: "mb_mem \<Rightarrow> nat \<Rightarrow> u32" where
  "mb_load32 mb p = load_le32 (map mb [p..<p + 4]) 0"

definition mb_load64 :: "mb_mem \<Rightarrow> nat \<Rightarrow> u64" where
  "mb_load64 mb p = ucast (mb_load32 mb p) OR push_bit 32 (ucast (mb_load32 mb (p + 4)))"

definition mmap_entry_at :: "mb_mem \<Rightarrow> nat \<Rightarrow> multiboot_mmap_entry_t" where
  "mmap_entry_at mb p = \<lparr>me_addr = mb_load64 mb p, me_len = mb_load64 mb (p + 8), me_type = mb_load32 mb (p + 16)\<rparr>"

partial_function (option) entries_loop ::
    "(multiboot_mmap_entry_t \<Rightarrow> 's \<Rightarrow> 's) \<Rightarrow> mb_mem \<Rightarrow> nat \<Rightarrow> nat \<Rightarrow> nat \<Rightarrow> 's \<Rightarrow> 's option" where
  "entries_loop body mb entry_size tag_end entry_ptr st =
     (if entry_ptr < tag_end
      then entries_loop body mb entry_size tag_end (entry_ptr + entry_size) (body (mmap_entry_at mb entry_ptr) st)
      else Some st)"

text \<open>\<open>seen\<close> is what happens once for each tag of type 6. The size of a tag is rounded up to 8 in 32 bits.\<close>

partial_function (option) tags_loop ::
    "('s \<Rightarrow> 's) \<Rightarrow> (multiboot_mmap_entry_t \<Rightarrow> 's \<Rightarrow> 's) \<Rightarrow> mb_mem \<Rightarrow> nat \<Rightarrow> nat \<Rightarrow> 's \<Rightarrow> 's option" where
  "tags_loop seen body mb total_size tag_ptr st =
     (if tag_ptr < total_size
      then if mb_load32 mb tag_ptr = 0 then Some st
           else Option.bind
             (if mb_load32 mb tag_ptr = 6
              then entries_loop body mb (unat (mb_load32 mb (tag_ptr + 8))) (tag_ptr + unat (mb_load32 mb (tag_ptr + 4))) (tag_ptr + 16) (seen st)
              else Some st)
             (\<lambda>st. tags_loop seen body mb total_size (tag_ptr + unat ((mb_load32 mb (tag_ptr + 4) + 7) AND NOT 7)) st)
      else Some st)"

definition get_multiboot_memory_top :: "mb_mem option \<Rightarrow> u64 option" where
  "get_multiboot_memory_top multiboot_info =
     (case multiboot_info of
        None \<Rightarrow> Some 0
      | Some mb \<Rightarrow>
          tags_loop id (\<lambda>entry max_addr. let end_addr = me_addr entry + me_len entry in if end_addr > max_addr then end_addr else max_addr)
            mb (unat (mb_load32 mb 0)) 8 0)"

definition mark_multiboot_memory :: "mb_mem option \<Rightarrow> pmm_t \<Rightarrow> (bool \<times> pmm_t) option" where
  "mark_multiboot_memory multiboot_info s =
     (case multiboot_info of
        None \<Rightarrow> Some (False, s)
      | Some mb \<Rightarrow>
          tags_loop (\<lambda>(found, s). (True, s))
            (\<lambda>entry (found, s). (found, if me_type entry = 1 then pmm_add_available_range (me_addr entry) (me_len entry) s else s))
            mb (unat (mb_load32 mb 0)) 8 (False, s))"

text \<open>The memory set-up in \<^verbatim>\<open>kernel_main\<close>, from \<^verbatim>\<open>get_multiboot_memory_top\<close> to \<^verbatim>\<open>pmm_reserve_range\<close>; the result has the size of the memory.\<close>

definition kernel_memory_setup :: "mb_mem option \<Rightarrow> pmm_t \<Rightarrow> (u64 \<times> pmm_t) option" where
  "kernel_memory_setup multiboot_info s =
     Option.bind (get_multiboot_memory_top multiboot_info) (\<lambda>max_memory.
       let max_memory = (if max_memory = 0 then 0x180000000 else max_memory) in
       Option.bind (mark_multiboot_memory multiboot_info (pmm_initialize max_memory s)) (\<lambda>(found, s).
         let s = (if \<not> found then pmm_add_available_range 0x100000 (max_memory - 0x100000) s else s)
         in Some (max_memory, pmm_reserve_range 0 0x200000 s)))"

subsection \<open>The structure of the standard\<close>

datatype mb_tag = Mmap "multiboot_mmap_entry_t list" | Other u32 "u8 list"

definition le64_bytes :: "u64 \<Rightarrow> u8 list" where
  "le64_bytes v = le32_bytes (ucast v) @ le32_bytes (ucast (drop_bit 32 v))"

definition mmap_entry_bytes :: "multiboot_mmap_entry_t \<Rightarrow> u8 list" where
  "mmap_entry_bytes e = le64_bytes (me_addr e) @ le64_bytes (me_len e) @ le32_bytes (me_type e) @ le32_bytes 0"

fun tag_bytes :: "mb_tag \<Rightarrow> u8 list" where
  "tag_bytes (Mmap es) = le32_bytes 6 @ le32_bytes (of_nat (16 + 24 * length es)) @ le32_bytes 24 @ le32_bytes 0 @ concat (map mmap_entry_bytes es)"
| "tag_bytes (Other ty body) =
     le32_bytes ty @ le32_bytes (of_nat (8 + length body)) @ body @ replicate ((8 - length body mod 8) mod 8) 0"

fun tag_ok :: "mb_tag \<Rightarrow> bool" where
  "tag_ok (Mmap es) \<longleftrightarrow> 16 + 24 * length es + 7 < 2 ^ 32"
| "tag_ok (Other ty body) \<longleftrightarrow> ty \<noteq> 0 \<and> ty \<noteq> 6 \<and> 8 + length body + 7 < 2 ^ 32"

definition info_bytes :: "mb_tag list \<Rightarrow> u8 list" where
  "info_bytes tags =
     (let b = concat (map tag_bytes tags) @ le32_bytes 0 @ le32_bytes 8 in le32_bytes (of_nat (8 + length b)) @ le32_bytes 0 @ b)"

definition info_ok :: "mb_tag list \<Rightarrow> bool" where
  "info_ok tags \<longleftrightarrow> (\<forall>t \<in> set tags. tag_ok t) \<and> length (info_bytes tags) < 2 ^ 32"

fun tag_entries :: "mb_tag \<Rightarrow> multiboot_mmap_entry_t list" where
  "tag_entries (Mmap es) = es"
| "tag_entries (Other ty body) = []"

definition mmap_regions :: "mb_tag list \<Rightarrow> multiboot_mmap_entry_t list" where
  "mmap_regions tags = concat (map tag_entries tags)"

definition has_mmap :: "mb_tag list \<Rightarrow> bool" where
  "has_mmap tags \<longleftrightarrow> (\<exists>es. Mmap es \<in> set tags)"

definition mem_holds :: "mb_mem \<Rightarrow> nat \<Rightarrow> u8 list \<Rightarrow> bool" where
  "mem_holds mb p bs \<longleftrightarrow> (\<forall>i < length bs. mb (p + i) = bs ! i)"

subsection \<open>The walks visit the entries\<close>

lemma mem_holds_append: "mem_holds mb p (xs @ ys) \<longleftrightarrow> mem_holds mb p xs \<and> mem_holds mb (p + length xs) ys"
proof
  assume h: "mem_holds mb p (xs @ ys)"
  have "mb (p + length xs + i) = ys ! i" if "i < length ys" for i
    using h [unfolded mem_holds_def, rule_format, of "length xs + i"] that by (simp add: add.assoc)
  moreover have "mb (p + i) = xs ! i" if "i < length xs" for i
    using h [unfolded mem_holds_def, rule_format, of i] that by (simp add: nth_append)
  ultimately show "mem_holds mb p xs \<and> mem_holds mb (p + length xs) ys" by (simp add: mem_holds_def)
next
  assume h: "mem_holds mb p xs \<and> mem_holds mb (p + length xs) ys"
  show "mem_holds mb p (xs @ ys)"
    unfolding mem_holds_def
  proof (intro allI impI)
    fix i assume i: "i < length (xs @ ys)"
    show "mb (p + i) = (xs @ ys) ! i"
    proof (cases "i < length xs")
      case False
      then show ?thesis using h i [simplified] conjunct2 [OF h, unfolded mem_holds_def, rule_format, of "i - length xs"]
        by (simp add: nth_append)
    qed (use h in \<open>simp add: mem_holds_def nth_append\<close>)
  qed
qed

lemma mb_load32_at:
  assumes "mem_holds mb p (le32_bytes v)"
  shows "mb_load32 mb p = v"
proof -
  have b: "mb (p + i) = le32_bytes v ! i" if "i < 4" for i using assms that by (simp add: mem_holds_def)
  show ?thesis
    unfolding mb_load32_def
    by (rule load_le32_nth) (use b [of 0] b [of 1] b [of 2] b [of 3] in \<open>simp_all add: le32_bytes_def\<close>)
qed

lemma mb_load64_at:
  assumes "mem_holds mb p (le64_bytes v)"
  shows "mb_load64 mb p = v"
proof -
  have "mb_load32 mb p = ucast v" "mb_load32 mb (p + 4) = ucast (drop_bit 32 v)"
    using assms mb_load32_at unfolding le64_bytes_def mem_holds_append by auto
  moreover have "(ucast (ucast v :: u32) :: u64) OR push_bit 32 (ucast (ucast (drop_bit 32 v) :: u32)) = v"
  proof (rule bit_word_eqI)
    fix n assume "n < LENGTH(64)"
    then show "bit ((ucast (ucast v :: u32) :: u64) OR push_bit 32 (ucast (ucast (drop_bit 32 v) :: u32))) n = bit v n"
      by (cases "n < 32") (auto simp: bit_simps)
  qed
  ultimately show ?thesis by (simp add: mb_load64_def)
qed

lemma length_mmap_entry_bytes [simp]: "length (mmap_entry_bytes e) = 24" "length (le64_bytes v) = 8"
  by (simp_all add: mmap_entry_bytes_def le64_bytes_def)

lemma mmap_entry_at_bytes: "mem_holds mb p (mmap_entry_bytes e) \<Longrightarrow> mmap_entry_at mb p = e"
  by (simp add: mmap_entry_bytes_def mem_holds_append mmap_entry_at_def mb_load64_at mb_load32_at add.assoc)

lemma entries_loop_visits:
  "mem_holds mb p (concat (map mmap_entry_bytes es)) \<Longrightarrow> entries_loop body mb 24 (p + 24 * length es) p st = Some (fold body es st)"
proof (induction es arbitrary: p st)
  case Nil
  show ?case by (simp add: entries_loop.simps)
next
  case (Cons e es)
  then have h: "mem_holds mb p (mmap_entry_bytes e)" "mem_holds mb (p + 24) (concat (map mmap_entry_bytes es))"
    by (simp_all add: mem_holds_append)
  show ?case
    by (subst entries_loop.simps) (use Cons.IH [OF h(2), of "body e st"] in \<open>simp add: mmap_entry_at_bytes [OF h(1)] add.assoc\<close>)
qed

text \<open>What a walk does with one tag of the structure.\<close>

fun tag_effect :: "('s \<Rightarrow> 's) \<Rightarrow> (multiboot_mmap_entry_t \<Rightarrow> 's \<Rightarrow> 's) \<Rightarrow> mb_tag \<Rightarrow> 's \<Rightarrow> 's" where
  "tag_effect seen body (Mmap es) st = fold body es (seen st)"
| "tag_effect seen body (Other ty b) st = st"

lemma round_up_8: "unat x + 7 < 2 ^ 32 \<Longrightarrow> unat ((x + 7) AND NOT 7) = 8 * ((unat x + 7) div 8)" for x :: u32
proof -
  assume x: "unat x + 7 < 2 ^ 32"
  have m: "(7 :: u32) = mask 3" by (simp add: mask_eq_exp_minus_1)
  have "(x + 7) AND NOT 7 = push_bit 3 (drop_bit 3 (x + 7))"
    unfolding m by (rule bit_word_eqI) (auto simp: bit_simps)
  also have "\<dots> = drop_bit 3 (x + 7) * 8" by (simp add: push_bit_eq_mult)
  finally have "(x + 7) AND NOT 7 = drop_bit 3 (x + 7) * 8" .
  moreover have "unat (x + 7) = unat x + 7" using x by (simp add: word_nat_simps)
  moreover have "unat (drop_bit 3 (x + 7)) * 8 < 2 ^ 32"
    using x calculation(2) by (simp add: unat_drop_bit_div)
  ultimately show ?thesis by (simp add: word_nat_simps)
qed

lemma padded_length: "8 * ((8 + n + 7) div 8) = 8 + n + (8 - n mod 8) mod 8" for n :: nat
proof -
  define q r where "q = n div 8" and "r = n mod 8"
  have n: "n = 8 * q + r" and r: "r < 8" by (simp_all add: q_def r_def)
  show ?thesis
  proof (cases "r = 0")
    case False
    then have "(r + 15) div 8 = 2" using r by (intro div_nat_eqI) auto
    moreover have "8 + n + 7 = (r + 15) + q * 8" using n by simp
    ultimately have "(8 + n + 7) div 8 = q + 2" by (simp only: div_mult_self1 zero_neq_numeral)
    then show ?thesis using False r n unfolding r_def [symmetric] by simp
  qed (simp add: n)
qed

lemma tag_fields:
  assumes "mem_holds mb p (tag_bytes t)" "tag_ok t"
  shows "mb_load32 mb p = (case t of Mmap _ \<Rightarrow> 6 | Other ty _ \<Rightarrow> ty)"
    "p + unat ((mb_load32 mb (p + 4) + 7) AND NOT 7) = p + length (tag_bytes t)"
    "t = Mmap es \<Longrightarrow> unat (mb_load32 mb (p + 4)) = 16 + 24 * length es \<and> mb_load32 mb (p + 8) = 24 \<and>
       mem_holds mb (p + 16) (concat (map mmap_entry_bytes es))"
proof -
  have len: "length (concat (map mmap_entry_bytes es)) = 24 * length es" for es by (induction es) simp_all
  show "mb_load32 mb p = (case t of Mmap _ \<Rightarrow> 6 | Other ty _ \<Rightarrow> ty)"
    using assms(1) by (cases t) (auto simp: mem_holds_append mb_load32_at)
  show "t = Mmap es \<Longrightarrow> unat (mb_load32 mb (p + 4)) = 16 + 24 * length es \<and> mb_load32 mb (p + 8) = 24 \<and>
       mem_holds mb (p + 16) (concat (map mmap_entry_bytes es))"
    using assms by (auto simp: mem_holds_append mb_load32_at add.assoc unat_of_nat_small simp del: of_nat_add of_nat_mult)
  show "p + unat ((mb_load32 mb (p + 4) + 7) AND NOT 7) = p + length (tag_bytes t)"
  proof (cases t)
    case (Mmap es)
    then have v: "mb_load32 mb (p + 4) = of_nat (16 + 24 * length es)" using assms(1) by (simp add: mem_holds_append mb_load32_at)
    have "8 * ((16 + 24 * length es + 7) div 8) = 16 + 24 * length es" by presburger
    then show ?thesis
      using assms(2) round_up_8 [of "of_nat (16 + 24 * length es)"] Mmap v len [of es] by (simp add: unat_of_nat_small del: of_nat_add of_nat_mult)
  next
    case (Other ty body)
    then have v: "mb_load32 mb (p + 4) = of_nat (8 + length body)" using assms(1) by (simp add: mem_holds_append mb_load32_at)
    have "8 * ((8 + length body + 7) div 8) = 8 + length body + (8 - length body mod 8) mod 8" by (rule padded_length)
    then show ?thesis
      using assms(2) round_up_8 [of "of_nat (8 + length body)"] Other v by (simp add: unat_of_nat_small del: of_nat_add of_nat_mult)
  qed
qed

lemma tags_loop_prefix:
  assumes "mem_holds mb p (concat (map tag_bytes tags))" "\<forall>t \<in> set tags. tag_ok t" "p + length (concat (map tag_bytes tags)) < n"
  shows "tags_loop seen body mb n p st =
    tags_loop seen body mb n (p + length (concat (map tag_bytes tags))) (fold (tag_effect seen body) tags st)"
  using assms
proof (induction tags arbitrary: p st)
  case (Cons t tags)
  then have h: "mem_holds mb p (tag_bytes t)" "mem_holds mb (p + length (tag_bytes t)) (concat (map tag_bytes tags))"
    and ok: "tag_ok t" by (simp_all add: mem_holds_append)
  note f = tag_fields [OF h(1) ok]
  have rec: "tags_loop seen body mb n (p + length (tag_bytes t)) st' =
      tags_loop seen body mb n (p + length (concat (map tag_bytes (t # tags)))) (fold (tag_effect seen body) tags st')" for st'
    using Cons.IH [OF h(2)] Cons.prems(2,3) by (simp add: add.assoc)
  show ?case
  proof (cases t)
    case (Mmap es)
    then have "entries_loop body mb (unat (mb_load32 mb (p + 8))) (p + unat (mb_load32 mb (p + 4))) (p + 16) st' = Some (fold body es st')" for st'
      using f(3) entries_loop_visits [of mb "p + 16" es body st'] by (simp add: add.assoc)
    then have "tags_loop seen body mb n p st = tags_loop seen body mb n (p + length (tag_bytes t)) (tag_effect seen body t st)"
      by (subst tags_loop.simps) (use Mmap f(1,2) Cons.prems(3) in \<open>simp\<close>)
    then show ?thesis using rec by simp
  next
    case (Other ty b)
    then have "tags_loop seen body mb n p st = tags_loop seen body mb n (p + length (tag_bytes t)) (tag_effect seen body t st)"
      by (subst tags_loop.simps) (use f(1,2) ok Cons.prems(3) in \<open>simp\<close>)
    then show ?thesis using rec by simp
  qed
qed simp

lemma tags_loop_visits:
  assumes "mem_holds mb p (concat (map tag_bytes tags) @ le32_bytes 0)" "\<forall>t \<in> set tags. tag_ok t" "p + length (concat (map tag_bytes tags)) < n"
  shows "tags_loop seen body mb n p st = Some (fold (tag_effect seen body) tags st)"
proof -
  have h: "mem_holds mb p (concat (map tag_bytes tags))" "mb_load32 mb (p + length (concat (map tag_bytes tags))) = 0"
    using assms(1) by (simp_all add: mem_holds_append mb_load32_at)
  show ?thesis
    unfolding tags_loop_prefix [OF h(1) assms(2,3)] using h(2) by (subst tags_loop.simps) simp
qed

lemma fold_tag_effect_id: "fold (tag_effect id body) tags st = fold body (mmap_regions tags) st"
proof (induction tags arbitrary: st)
  case (Cons t tags)
  then show ?case by (cases t) (simp_all add: mmap_regions_def)
qed (simp add: mmap_regions_def)

lemma info_walk:
  assumes "mem_holds mb 0 (info_bytes tags)" "info_ok tags"
  shows "tags_loop seen body mb (unat (mb_load32 mb 0)) 8 st = Some (fold (tag_effect seen body) tags st)"
proof (rule tags_loop_visits)
  let ?b = "concat (map tag_bytes tags)"
  have h: "mem_holds mb 0 (le32_bytes (of_nat (16 + length ?b)) @ le32_bytes 0 @ ?b @ le32_bytes 0 @ le32_bytes 8)"
    using assms(1) by (simp add: info_bytes_def add.commute)
  then show "mem_holds mb 8 (?b @ le32_bytes 0)" by (simp add: mem_holds_append)
  show "\<forall>t \<in> set tags. tag_ok t" using assms(2) by (simp add: info_ok_def)
  have "mb_load32 mb 0 = of_nat (16 + length ?b)" using h by (simp add: mem_holds_append mb_load32_at)
  moreover have "16 + length ?b < 2 ^ 32" using assms(2) by (simp add: info_ok_def info_bytes_def)
  ultimately show "8 + length ?b < unat (mb_load32 mb 0)" by (simp add: unat_of_nat_small del: of_nat_add)
qed

subsection \<open>The memory map in the frame bitmap\<close>

definition region_fits :: "multiboot_mmap_entry_t \<Rightarrow> bool" where
  "region_fits e \<longleftrightarrow> unat (me_addr e) + unat (me_len e) + 4095 < 2 ^ 64"

definition region_end :: "multiboot_mmap_entry_t \<Rightarrow> nat" where
  "region_end e = unat (me_addr e) + unat (me_len e)"

definition regions_top :: "multiboot_mmap_entry_t list \<Rightarrow> nat" where
  "regions_top es = foldr (\<lambda>e m. max (region_end e) m) es 0"

definition region_touches :: "multiboot_mmap_entry_t \<Rightarrow> nat \<Rightarrow> bool" where
  "region_touches e f \<longleftrightarrow> me_type e = 1 \<and> 0 < unat (me_len e) \<and> unat (me_addr e) < (f + 1) * 4096 \<and> f * 4096 < region_end e"

lemma regions_top_max: "e \<in> set es \<Longrightarrow> region_end e \<le> regions_top es"
  by (induction es) (auto simp: regions_top_def)

lemma regions_top_less: "0 < n \<Longrightarrow> (\<And>e. e \<in> set es \<Longrightarrow> region_end e < n) \<Longrightarrow> regions_top es < n"
  by (induction es) (auto simp: regions_top_def)

lemma fold_top:
  assumes "\<forall>e \<in> set es. region_fits e"
  shows "unat (fold (\<lambda>entry max_addr. let end_addr = me_addr entry + me_len entry in if end_addr > max_addr then end_addr else max_addr) es m) =
    max (unat m) (regions_top es)"
  using assms
proof (induction es arbitrary: m)
  case (Cons e es)
  have "unat (me_addr e + me_len e) = region_end e"
    using Cons.prems by (simp add: region_fits_def region_end_def word_nat_simps)
  then have "unat (if me_addr e + me_len e > m then me_addr e + me_len e else m) = max (unat m) (region_end e)"
    by (simp add: word_less_nat_alt)
  then show ?case using Cons by (simp add: Let_def regions_top_def max.assoc)
qed (simp add: regions_top_def)

lemma memory_top:
  assumes "mem_holds mb 0 (info_bytes tags)" "info_ok tags" "\<forall>e \<in> set (mmap_regions tags). region_fits e"
  shows "\<exists>top. get_multiboot_memory_top (Some mb) = Some top \<and> unat top = regions_top (mmap_regions tags)"
  using fold_top [OF assms(3), of 0] unfolding get_multiboot_memory_top_def option.case info_walk [OF assms(1,2)] fold_tag_effect_id by simp

abbreviation add_region :: "multiboot_mmap_entry_t \<Rightarrow> pmm_t \<Rightarrow> pmm_t" where
  "add_region e s \<equiv> (if me_type e = 1 then pmm_add_available_range (me_addr e) (me_len e) s else s)"

lemma mark_memory:
  assumes "mem_holds mb 0 (info_bytes tags)" "info_ok tags"
  shows "mark_multiboot_memory (Some mb) s = Some (has_mmap tags, fold add_region (mmap_regions tags) s)"
proof -
  let ?seen = "\<lambda>(found :: bool, s :: pmm_t). (True, s)" and ?body = "\<lambda>entry (found :: bool, s). (found, add_region entry s)"
  have body: "fold ?body es (b, s) = (b, fold add_region es s)" for es b s
    by (induction es arbitrary: s) simp_all
  have "fold (tag_effect ?seen ?body) ts (b, s) = (b \<or> has_mmap ts, fold add_region (mmap_regions ts) s)" for ts b s
  proof (induction ts arbitrary: b s)
    case (Cons t ts)
    then show ?case by (cases t) (auto simp: body has_mmap_def mmap_regions_def)
  qed (simp add: has_mmap_def mmap_regions_def)
  then show ?thesis unfolding mark_multiboot_memory_def option.case info_walk [OF assms] by simp
qed

lemma fold_add_regions:
  assumes "pmm_inv s" "\<forall>e \<in> set es. region_fits e"
  shows "pmm_inv (fold add_region es s) \<and> total_frames (fold add_region es s) = total_frames s \<and>
    free_set (fold add_region es s) = free_set s \<union> {f. f < unat (total_frames s) \<and> (\<exists>e \<in> set es. region_touches e f)}"
  using assms
proof (induction es arbitrary: s)
  case (Cons e es)
  have "pmm_inv (add_region e s) \<and> total_frames (add_region e s) = total_frames s \<and>
      free_set (add_region e s) = free_set s \<union> {f. f < unat (total_frames s) \<and> region_touches e f}"
  proof (cases "me_type e = 1 \<and> 0 < unat (me_len e)")
    case True
    then show ?thesis
      using pmm_range_sets [OF Cons.prems(1), of "me_len e" "me_addr e"] Cons.prems(2)
      by (auto simp: region_fits_def region_touches_def region_end_def frames_overlapping_def)
  next
    case False
    then show ?thesis using Cons.prems(1) by (auto simp: region_touches_def pmm_add_available_range_def unat_eq_zero)
  qed
  then show ?case using Cons.IH [of "add_region e s"] Cons.prems(2) by auto
qed simp

subsection \<open>Properties\<close>

text \<open>
  C13: On a structure that the boot loader has built as the standard says, both walks return: the first delivers the end of the highest region of the map,
  the second finds out whether there is a map and adds every available region, in order, to the frame bitmap. Tags of other kinds do not matter.
\<close>

theorem multiboot_walks_correct:
  assumes "mem_holds mb 0 (info_bytes tags)" "info_ok tags" "\<forall>e \<in> set (mmap_regions tags). region_fits e"
  shows "(\<exists>top. get_multiboot_memory_top (Some mb) = Some top \<and> unat top = regions_top (mmap_regions tags)) \<and>
    mark_multiboot_memory (Some mb) s =
      Some (has_mmap tags, fold (\<lambda>e. pmm_add_available_range (me_addr e) (me_len e)) (filter (\<lambda>e. me_type e = 1) (mmap_regions tags)) s)"
proof -
  have "fold add_region es s = fold (\<lambda>e. pmm_add_available_range (me_addr e) (me_len e)) (filter (\<lambda>e. me_type e = 1) es) s" for es
    by (induction es arbitrary: s) simp_all
  then show ?thesis using memory_top [OF assms] mark_memory [OF assms(1,2)] by simp
qed

lemma memory_setup_free:
  assumes "mem_holds mb 0 (info_bytes tags)" "info_ok tags" "\<forall>e \<in> set (mmap_regions tags). region_fits e"
    "has_mmap tags" "0 < regions_top (mmap_regions tags)"
  shows "\<exists>top s. kernel_memory_setup (Some mb) pmm_static = Some (top, s) \<and> unat top = regions_top (mmap_regions tags) \<and> pmm_inv s \<and>
    free_set s = {f. 512 \<le> f \<and> f < (unat top + 4095) div 4096 \<and> f < BITMAP_WORDS * 64 \<and> (\<exists>e \<in> set (mmap_regions tags). region_touches e f)}"
proof -
  obtain top where top: "get_multiboot_memory_top (Some mb) = Some top" "unat top = regions_top (mmap_regions tags)"
    using memory_top [OF assms(1-3)] by blast
  have "top \<noteq> 0" using top(2) assms(5) by auto
  have "regions_top (mmap_regions tags) < 2 ^ 64 - 4095"
    by (rule regions_top_less) (use assms(3) in \<open>auto simp: region_fits_def region_end_def\<close>)
  then have fits: "unat top + 4095 < 2 ^ 64" using top(2) by simp
  let ?i = "pmm_initialize top pmm_static"
  let ?a = "fold add_region (mmap_regions tags) ?i"
  let ?s = "pmm_reserve_range 0 0x200000 ?a"
  note init = pmm_initialize_inv [OF pmm_static_free_set, of top]
  note add = fold_add_regions [OF init(1) assms(3)]
  have "free_set ?s = free_set ?a - frames_overlapping 0 0x200000 ?a \<and> pmm_inv ?s"
    using pmm_range_sets [of ?a "0x200000" 0] add by simp
  moreover have "frames_overlapping 0 0x200000 ?a = {f. f < unat (total_frames ?i) \<and> f < 512}"
    using add by (auto simp: frames_overlapping_def)
  ultimately have "pmm_inv ?s" "free_set ?s = {f. 512 \<le> f \<and> f < (unat top + 4095) div 4096 \<and> f < BITMAP_WORDS * 64 \<and>
      (\<exists>e \<in> set (mmap_regions tags). region_touches e f)}"
    using add init(2) pmm_initialize_frames [OF fits, of pmm_static] by auto
  moreover have "kernel_memory_setup (Some mb) pmm_static = Some (top, ?s)"
    using \<open>top \<noteq> 0\<close> assms(4) by (simp add: kernel_memory_setup_def top(1) mark_memory [OF assms(1,2)])
  ultimately show ?thesis using top(2) by blast
qed

text \<open>
  C12: After the memory set-up of the kernel a frame is free exactly when it lies above the first 2 MB, within the memory and the reach of the bitmap, and an
  available region of the boot loader's map touches it; the invariant of the frame allocator holds.
\<close>

theorem kernel_memory_setup_correct:
  assumes "mem_holds mb 0 (info_bytes tags)" "info_ok tags" "\<forall>e \<in> set (mmap_regions tags). region_fits e"
    "has_mmap tags" "0 < regions_top (mmap_regions tags)"
  shows "\<exists>top s. kernel_memory_setup (Some mb) pmm_static = Some (top, s) \<and> unat top = regions_top (mmap_regions tags) \<and> pmm_inv s \<and>
    free_set s = {f. 512 \<le> f \<and> f < (unat top + 4095) div 4096 \<and> f < BITMAP_WORDS * 64 \<and> (\<exists>e \<in> set (mmap_regions tags). region_touches e f)}"
  using memory_setup_free [OF assms] by blast

lemma entries_loop_returns:
  assumes "entries_loop body mb sz e p st = Some y"
  shows "sz = 0 \<longrightarrow> e \<le> p"
proof (rule entries_loop.raw_induct [where P = "\<lambda>body mb sz e p st y. sz = 0 \<longrightarrow> e \<le> p", OF _ assms])
  fix loop and body :: "multiboot_mmap_entry_t \<Rightarrow> 'a \<Rightarrow> 'a" and mb sz e p st y
  assume IH: "\<And>body mb sz e p st y. loop body mb sz e p st = Some y \<Longrightarrow> sz = 0 \<longrightarrow> e \<le> p"
    and run: "(if p < e then loop body mb sz e (p + sz) (body (mmap_entry_at mb p) st) else Some st) = Some y"
  show "sz = 0 \<longrightarrow> e \<le> p"
  proof (cases "p < e")
    case True
    then show ?thesis using run IH [of body mb sz e "p + sz"] by auto
  qed simp
qed

text \<open>A tag that the walks cannot get past: its size is 0, or it is a map with room for entries whose size is 0.\<close>

definition endless_tag :: "mb_mem \<Rightarrow> nat \<Rightarrow> bool" where
  "endless_tag mb p \<longleftrightarrow> mb_load32 mb p \<noteq> 0 \<and> mb_load32 mb (p + 4) = 0 \<or>
     mb_load32 mb p = 6 \<and> 16 < unat (mb_load32 mb (p + 4)) \<and> mb_load32 mb (p + 8) = 0"

lemma tags_loop_returns:
  assumes "tags_loop seen body mb n p st = Some y"
  shows "mb_load32 mb (p + 4) = 0 \<longrightarrow> mb_load32 mb p = 0 \<or> n \<le> p"
proof (rule tags_loop.raw_induct
    [where P = "\<lambda>seen body mb n p st y. mb_load32 mb (p + 4) = 0 \<longrightarrow> mb_load32 mb p = 0 \<or> n \<le> p", OF _ assms])
  fix loop and seen :: "'a \<Rightarrow> 'a" and body :: "multiboot_mmap_entry_t \<Rightarrow> 'a \<Rightarrow> 'a" and mb n p st y
  assume IH: "\<And>seen body mb n p st y. loop seen body mb n p st = Some y \<Longrightarrow> mb_load32 mb (p + 4) = 0 \<longrightarrow> mb_load32 mb p = 0 \<or> n \<le> p"
    and run: "(if p < n then if mb_load32 mb p = 0 then Some st
        else Option.bind (if mb_load32 mb p = 6
              then entries_loop body mb (unat (mb_load32 mb (p + 8))) (p + unat (mb_load32 mb (p + 4))) (p + 16) (seen st) else Some st)
             (loop seen body mb n (p + unat ((mb_load32 mb (p + 4) + 7) AND NOT 7)))
      else Some st) = Some y"
  show "mb_load32 mb (p + 4) = 0 \<longrightarrow> mb_load32 mb p = 0 \<or> n \<le> p"
  proof (cases "p < n \<and> mb_load32 mb p \<noteq> 0")
    case True
    then obtain st' where "loop seen body mb n (p + unat ((mb_load32 mb (p + 4) + 7) AND NOT 7)) st' = Some y"
      using run by (auto simp: bind_eq_Some_conv)
    then show ?thesis using IH [of seen body mb n p st' y] by auto
  qed auto
qed

lemma endless_tag_hangs:
  assumes "endless_tag mb p" "p < n"
  shows "tags_loop seen body mb n p st = None"
  using assms(1) unfolding endless_tag_def
proof
  assume a: "mb_load32 mb p = 6 \<and> 16 < unat (mb_load32 mb (p + 4)) \<and> mb_load32 mb (p + 8) = 0"
  then have "entries_loop body mb 0 (p + unat (mb_load32 mb (p + 4))) (p + 16) (seen st) = None"
    using entries_loop_returns [of body mb 0 "p + unat (mb_load32 mb (p + 4))" "p + 16" "seen st"]
    by (cases "entries_loop body mb 0 (p + unat (mb_load32 mb (p + 4))) (p + 16) (seen st)") auto
  then show ?thesis by (subst tags_loop.simps) (use a assms(2) in simp)
next
  assume "mb_load32 mb p \<noteq> 0 \<and> mb_load32 mb (p + 4) = 0"
  then show ?thesis using tags_loop_returns [of seen body mb n p st] assms(2) by (cases "tags_loop seen body mb n p st") auto
qed

text \<open>
  C26: The walks trust the sizes in the structure. When, behind any number of well-formed tags, they come to a tag of size 0, or to a map with entries of size
  0, the kernel loops forever before it has set up its memory.
\<close>

theorem multiboot_zero_size_hangs:
  assumes "mem_holds mb 8 (concat (map tag_bytes tags))" "\<forall>t \<in> set tags. tag_ok t"
    and "8 + length (concat (map tag_bytes tags)) < unat (mb_load32 mb 0)" "endless_tag mb (8 + length (concat (map tag_bytes tags)))"
  shows "get_multiboot_memory_top (Some mb) = None \<and> mark_multiboot_memory (Some mb) s = None \<and> kernel_memory_setup (Some mb) s = None"
  by (simp add: get_multiboot_memory_top_def mark_multiboot_memory_def kernel_memory_setup_def tags_loop_prefix [OF assms(1-3)]
      endless_tag_hangs [OF assms(4,3)])

subsection \<open>Examples\<close>

text \<open>A machine of 128 MB: a command line, and a map with the memory below 640 KB, a reserved region, and the memory above 1 MB.\<close>

definition example_tags :: "mb_tag list" where
  "example_tags = [Other 1 [0x74, 0x65, 0x73, 0x74, 0],
     Mmap [\<lparr>me_addr = 0, me_len = 0x9FC00, me_type = 1\<rparr>, \<lparr>me_addr = 0x9FC00, me_len = 0x400, me_type = 2\<rparr>,
           \<lparr>me_addr = 0x100000, me_len = 0x7F00000, me_type = 1\<rparr>]]"

definition mem_of :: "u8 list \<Rightarrow> mb_mem" where
  "mem_of bs i = (if i < length bs then bs ! i else 0)"

lemma mem_of_holds: "mem_holds (mem_of bs) 0 bs"
  by (simp add: mem_holds_def mem_of_def)

lemma example_tags_ok:
  "info_ok example_tags" "\<forall>e \<in> set (mmap_regions example_tags). region_fits e" "has_mmap example_tags"
  "regions_top (mmap_regions example_tags) = 0x8000000"
  by (simp_all add: info_ok_def info_bytes_def example_tags_def mmap_regions_def region_fits_def has_mmap_def regions_top_def region_end_def)

theorem multiboot_walks_correct_witness:
  "get_multiboot_memory_top (Some (mem_of (info_bytes example_tags))) = Some 0x8000000 \<and>
   (\<exists>s. mark_multiboot_memory (Some (mem_of (info_bytes example_tags))) pmm_static = Some (True, s))"
proof -
  obtain top where top: "get_multiboot_memory_top (Some (mem_of (info_bytes example_tags))) = Some top" "unat top = 0x8000000"
    and m: "\<exists>s. mark_multiboot_memory (Some (mem_of (info_bytes example_tags))) pmm_static = Some (True, s)"
    using multiboot_walks_correct [OF mem_of_holds example_tags_ok(1,2), of pmm_static] example_tags_ok(3,4) by auto
  have "top = 0x8000000" using top(2) by (simp add: word_unat_eq_iff)
  then show ?thesis using top(1) m by simp
qed

theorem kernel_memory_setup_correct_witness:
  "\<exists>top s. kernel_memory_setup (Some (mem_of (info_bytes example_tags))) pmm_static = Some (top, s) \<and> pmm_inv s \<and> 512 \<in> free_set s \<and> 511 \<notin> free_set s"
  using kernel_memory_setup_correct [OF mem_of_holds example_tags_ok(1-3)] example_tags_ok(4)
  by (auto simp: example_tags_def mmap_regions_def region_touches_def region_end_def)

lemma mem_of_middle: "n = length xs \<Longrightarrow> mem_holds (mem_of (xs @ ys @ zs)) n ys"
  by (simp add: mem_holds_def mem_of_def nth_append)

text \<open>A command line, then a map whose size is 0.\<close>

theorem multiboot_zero_size_hangs_witness:
  "get_multiboot_memory_top (Some (mem_of ([32, 0, 0, 0, 0, 0, 0, 0] @ tag_bytes (Other 1 [0x74, 0]) @ [6, 0, 0, 0, 0, 0, 0, 0]))) = None"
proof -
  let ?mb = "mem_of ([32, 0, 0, 0, 0, 0, 0, 0] @ tag_bytes (Other 1 [0x74, 0]) @ [6, 0, 0, 0, 0, 0, 0, 0])"
  have h: "mem_holds ?mb 8 (concat (map tag_bytes [Other 1 [0x74, 0]]))"
    unfolding list.map concat.simps append_Nil2 by (rule mem_of_middle) simp
  have l: "8 + length (concat (map tag_bytes [Other 1 [0x74, 0]])) = 24" by simp
  have "unat (mb_load32 ?mb 0) = 32" "endless_tag ?mb 24"
    by (simp_all add: endless_tag_def mb_load32_def load_le32_def mem_of_def le32_bytes_def upt_rec nth_append)
  then have "get_multiboot_memory_top (Some ?mb) = None \<and> mark_multiboot_memory (Some ?mb) pmm_static = None \<and>
      kernel_memory_setup (Some ?mb) pmm_static = None"
    by (intro multiboot_zero_size_hangs [OF h]) (simp_all only: l, simp_all)
  then show ?thesis by blast
qed

end
