(* ===== verification/Gui.thy ===== *)
theory Gui
  imports Overlays Window_Manager App_Launcher
begin

text \<open>
  The desktop of \<^verbatim>\<open>gui.c\<close>: the panels, the status bar and the taskbar as writes to the text screen, the windows of
  the desktop, and the mouse clicks, which reach the notification center, the control center and the application launcher.
  The state of a click is that of all the components it may change.

  The theorems show that opening windows keeps the taskbar in step, that the
  context menu stays on the screen, and that the application launcher covers the taskbar with names that launch other applications.
\<close>

subsection \<open>State\<close>

abbreviation GUI_STATUS_COLOR :: u8 where "GUI_STATUS_COLOR \<equiv> 0x1F"
abbreviation GUI_STATUS_TEXT :: u8 where "GUI_STATUS_TEXT \<equiv> 0x0F"
abbreviation GUI_PANEL_COLOR :: u8 where "GUI_PANEL_COLOR \<equiv> 0x2F"
abbreviation GUI_PANEL_TEXT :: u8 where "GUI_PANEL_TEXT \<equiv> 0x0F"
abbreviation GUI_FRAME_COLOR :: u8 where "GUI_FRAME_COLOR \<equiv> 0x0F"
abbreviation GUI_MAX_WINDOWS :: nat where "GUI_MAX_WINDOWS \<equiv> 6"
abbreviation GUI_MAX_TASKBAR :: nat where "GUI_MAX_TASKBAR \<equiv> 8"

record gui_window_t =
  gw_x :: int
  gw_y :: int
  gw_width :: int
  gw_height :: int
  gw_title :: "string option"
  gw_active :: bool
  gw_minimized :: bool

record taskbar_item_t =
  ti_label :: "string option"
  ti_active :: bool
  ti_window_id :: int

record gui_t =
  gui_windows :: "gui_window_t list"
  gui_window_count :: nat
  taskbar_items :: "taskbar_item_t list"
  taskbar_count :: nat
  active_window :: int
  screen_width :: int
  screen_height :: int

definition gui_static :: gui_t where
  "gui_static = \<lparr>gui_windows = replicate GUI_MAX_WINDOWS
       \<lparr>gw_x = 0, gw_y = 0, gw_width = 0, gw_height = 0, gw_title = None, gw_active = False, gw_minimized = False\<rparr>,
     gui_window_count = 0, taskbar_items = replicate GUI_MAX_TASKBAR \<lparr>ti_label = None, ti_active = False, ti_window_id = 0\<rparr>,
     taskbar_count = 0, active_window = - 1, screen_width = 80, screen_height = 24\<rparr>"

text \<open>The components behind the desktop; \<open>control_visible\<close> is the only state of the control center.\<close>

record desktop_t =
  gui :: gui_t
  notif :: notifications_t
  control_visible :: bool
  wm :: wm_t
  launcher :: launcher_t
  sched :: sched_t
  vga :: vga_t

subsection \<open>Drawing\<close>

definition draw_text :: "gui_t \<Rightarrow> int \<Rightarrow> int \<Rightarrow> string \<Rightarrow> u8 \<Rightarrow> plot list" where
  "draw_text g x y str color = text_plots x (screen_width g) y color str"

definition fill_rect :: "gui_t \<Rightarrow> int \<Rightarrow> int \<Rightarrow> int \<Rightarrow> int \<Rightarrow> u8 \<Rightarrow> plot list" where
  "fill_rect g x y width height color =
     concat (map (\<lambda>row. map (\<lambda>col. (col, row, 0x20, color)) [x..min (x + width) (screen_width g) - 1])
       [y..min (y + height) (screen_height g) - 1])"

definition draw_horizontal :: "gui_t \<Rightarrow> int \<Rightarrow> int \<Rightarrow> int \<Rightarrow> char \<Rightarrow> u8 \<Rightarrow> plot list" where
  "draw_horizontal g x y len glyph color =
     map (\<lambda>i. (x + i, y, of_char glyph, color)) [0..min len (screen_width g - x) - 1]"

definition draw_vertical :: "gui_t \<Rightarrow> int \<Rightarrow> int \<Rightarrow> int \<Rightarrow> char \<Rightarrow> u8 \<Rightarrow> plot list" where
  "draw_vertical g x y len glyph color =
     map (\<lambda>i. (x, y + i, of_char glyph, color)) [0..min len (screen_height g - y) - 1]"

definition draw_panel :: "gui_t \<Rightarrow> int \<Rightarrow> int \<Rightarrow> int \<Rightarrow> int \<Rightarrow> string option \<Rightarrow> plot list" where
  "draw_panel g x y width height caption =
     (if width < 2 \<or> height < 2 \<or> x < 0 \<or> y < 0 then []
      else
        let width = (if x + width > screen_width g then screen_width g - x else width);
            height = (if y + height > screen_height g then screen_height g - y else height)
        in fill_rect g x y width height GUI_PANEL_COLOR @
           [(x, y, of_char CHR ''+'', GUI_FRAME_COLOR), (x + width - 1, y, of_char CHR ''+'', GUI_FRAME_COLOR),
            (x, y + height - 1, of_char CHR ''+'', GUI_FRAME_COLOR), (x + width - 1, y + height - 1, of_char CHR ''+'', GUI_FRAME_COLOR)] @
           draw_horizontal g (x + 1) y (width - 2) CHR ''-'' GUI_FRAME_COLOR @
           draw_horizontal g (x + 1) (y + height - 1) (width - 2) CHR ''-'' GUI_FRAME_COLOR @
           draw_vertical g x (y + 1) (height - 2) CHR ''|'' GUI_FRAME_COLOR @
           draw_vertical g (x + width - 1) (y + 1) (height - 2) CHR ''|'' GUI_FRAME_COLOR @
           (case caption of None \<Rightarrow> [] | Some t \<Rightarrow> text_plots (x + 2) (x + width - 2) y GUI_PANEL_TEXT t))"

text \<open>The index into \<^verbatim>\<open>colors\<close> is never negative: the rows start at 1.\<close>

definition draw_background :: "gui_t \<Rightarrow> plot list" where
  "draw_background g =
     (let colors = [0x16, 0x15, 0x14, 0x13] in
      concat (map (\<lambda>y. map (\<lambda>x. (x, y, 0x20, colors ! nat (y mod 4))) [0..screen_width g - 1]) [1..screen_height g - 4]))"

definition draw_status_bar :: "gui_t \<Rightarrow> plot list" where
  "draw_status_bar g =
     fill_rect g 0 0 (screen_width g) 1 GUI_STATUS_COLOR @
     draw_text g 1 0 ''.C OS'' GUI_STATUS_TEXT @
     draw_text g 10 0 ''Online | WiFi | 89% Battery'' GUI_STATUS_TEXT @
     draw_text g (screen_width g - 18) 0 ''[N]'' GUI_STATUS_TEXT @
     draw_text g (screen_width g - 10) 0 ''[C]'' GUI_STATUS_TEXT"

definition draw_desktop_icons :: "gui_t \<Rightarrow> plot list" where
  "draw_desktop_icons g =
     draw_text g 2 2 ''[Files]'' GUI_PANEL_TEXT @
     draw_text g 2 4 ''[Term ]'' GUI_PANEL_TEXT @
     draw_text g 2 6 ''[Sets ]'' GUI_PANEL_TEXT @
     draw_text g 14 2 ''[Web  ]'' GUI_PANEL_TEXT @
     draw_text g 14 4 ''[Edit ]'' GUI_PANEL_TEXT"

definition draw_gui_windows :: "gui_t \<Rightarrow> plot list" where
  "draw_gui_windows g =
     concat (map (\<lambda>w. if \<not> gw_active w \<or> gw_minimized w then []
                      else draw_panel g (gw_x w) (gw_y w) (gw_width w) (gw_height w) (gw_title w))
       (take (gui_window_count g) (gui_windows g)))"

definition draw_floating_taskbar :: "gui_t \<Rightarrow> plot list" where
  "draw_floating_taskbar g =
     (let taskbar_y = screen_height g - 4 - 2 in
      draw_panel g 4 taskbar_y (screen_width g - 8) 4 (Some '' '') @
      draw_text g (4 + 2) (taskbar_y + 1) ''[Files] [Term] [Sets] [Web] [Edit]'' GUI_PANEL_TEXT @
      draw_text g (screen_width g - 18) (taskbar_y + 1) ''[NOTIF]'' GUI_PANEL_TEXT @
      draw_text g (screen_width g - 10) (taskbar_y + 1) ''[CTRL]'' GUI_PANEL_TEXT)"

definition draw_context_menu :: "gui_t \<Rightarrow> int \<Rightarrow> int \<Rightarrow> plot list" where
  "draw_context_menu g x y =
     (let menu_x = (if x + 18 \<ge> screen_width g then screen_width g - 18 - 1 else x);
          menu_y = (if y + 5 \<ge> screen_height g then screen_height g - 5 - 1 else y)
      in draw_horizontal g menu_x menu_y 18 CHR ''-'' GUI_FRAME_COLOR @
         draw_horizontal g menu_x (menu_y + 4) 18 CHR ''-'' GUI_FRAME_COLOR @
         draw_vertical g menu_x (menu_y + 1) 3 CHR ''|'' GUI_FRAME_COLOR @
         draw_vertical g (menu_x + 17) (menu_y + 1) 3 CHR ''|'' GUI_FRAME_COLOR @
         [(menu_x, menu_y, of_char CHR ''+'', GUI_FRAME_COLOR), (menu_x + 17, menu_y, of_char CHR ''+'', GUI_FRAME_COLOR),
          (menu_x, menu_y + 4, of_char CHR ''+'', GUI_FRAME_COLOR), (menu_x + 17, menu_y + 4, of_char CHR ''+'', GUI_FRAME_COLOR)] @
         concat (map (\<lambda>i. text_plots (menu_x + 2) (menu_x + 16) (menu_y + 1 + int i) GUI_PANEL_TEXT
                           ([''Open'', ''Edit'', ''Move'', ''Close''] ! i)) [0..<4]))"

definition gui_draw_icon :: "int \<Rightarrow> int \<Rightarrow> string \<Rightarrow> gui_t \<Rightarrow> vga_t \<Rightarrow> vga_t" where
  "gui_draw_icon x y label g = fold plot_char (draw_text g x y label GUI_PANEL_TEXT)"

definition gui_render :: "desktop_t \<Rightarrow> vga_t" where
  "gui_render d =
     (let g = gui d;
          v = fold plot_char (draw_background g) (vga d);
          v = fold plot_char (draw_status_bar g) v;
          v = fold plot_char (draw_desktop_icons g) v;
          v = fold plot_char (draw_gui_windows g) v;
          v = window_manager_render (wm d) v;
          v = fold plot_char (draw_floating_taskbar g) v;
          v = notification_center_render (notif d) v;
          v = control_center_render (control_visible d) v
      in app_launcher_render (launcher d) v)"

subsection \<open>Windows and resolution\<close>

definition gui_initialize :: "desktop_t \<Rightarrow> desktop_t" where
  "gui_initialize d =
     d\<lparr>gui := (gui d)\<lparr>gui_window_count := 0, taskbar_count := 0, active_window := - 1, screen_width := 80, screen_height := 24\<rparr>,
       vga := vga_clear_screen (vga d)\<rparr>"

definition gui_open_window :: "string option \<Rightarrow> int \<Rightarrow> int \<Rightarrow> int \<Rightarrow> int \<Rightarrow> gui_t \<Rightarrow> gui_t" where
  "gui_open_window caption x y width height g =
     (if gui_window_count g \<ge> GUI_MAX_WINDOWS then g
      else
        let g = g\<lparr>gui_windows := (gui_windows g)[gui_window_count g :=
               \<lparr>gw_x = x, gw_y = y, gw_width = width, gw_height = height, gw_title = caption, gw_active = True, gw_minimized = False\<rparr>]\<rparr>;
            g = (if taskbar_count g < GUI_MAX_TASKBAR
                 then g\<lparr>taskbar_items := (taskbar_items g)[taskbar_count g :=
                          \<lparr>ti_label = caption, ti_active = True, ti_window_id = int (gui_window_count g)\<rparr>],
                        taskbar_count := taskbar_count g + 1\<rparr>
                 else g);
            g = (if active_window g < 0 then g\<lparr>active_window := int (gui_window_count g)\<rparr> else g)
        in g\<lparr>gui_window_count := gui_window_count g + 1\<rparr>)"

definition gui_set_resolution :: "int \<Rightarrow> int \<Rightarrow> gui_t \<Rightarrow> gui_t" where
  "gui_set_resolution width height g =
     (if width > 0 \<and> height > 0 then g\<lparr>screen_width := width, screen_height := height\<rparr> else g)"

subsection \<open>Clicks\<close>

definition point_in_rect :: "int \<Rightarrow> int \<Rightarrow> int \<Rightarrow> int \<Rightarrow> int \<Rightarrow> int \<Rightarrow> bool" where
  "point_in_rect x y rx ry rw rh \<longleftrightarrow> x \<ge> rx \<and> x < rx + rw \<and> y \<ge> ry \<and> y < ry + rh"

text \<open>The calls a click can make; \<open>w\<close> and \<open>ts\<close> are the addresses that \<^verbatim>\<open>create_task\<close> needs for a new task.\<close>

definition toggle_notifications :: "desktop_t \<Rightarrow> desktop_t" where
  "toggle_notifications d = d\<lparr>notif := notification_center_toggle (notif d)\<rparr>"

definition toggle_control :: "desktop_t \<Rightarrow> desktop_t" where
  "toggle_control d = d\<lparr>control_visible := control_center_toggle (control_visible d)\<rparr>"

definition launch :: "u64 \<Rightarrow> u64 \<Rightarrow> string \<Rightarrow> desktop_t \<Rightarrow> desktop_t option" where
  "launch w ts name d =
     (case app_launch w ts (Some name) (launcher d, sched d) of
        None \<Rightarrow> None | Some (_, l, s) \<Rightarrow> Some (d\<lparr>launcher := l, sched := s\<rparr>))"

definition gui_handle_left_click :: "u64 \<Rightarrow> u64 \<Rightarrow> int \<Rightarrow> int \<Rightarrow> desktop_t \<Rightarrow> desktop_t option" where
  "gui_handle_left_click w ts x y d =
     (let status_notif_x = screen_width (gui d) - 18;
          status_ctrl_x = screen_width (gui d) - 10;
          taskbar_y = screen_height (gui d) - 6
      in if point_in_rect x y status_notif_x 0 3 1 then Some (toggle_notifications d)
         else if point_in_rect x y status_ctrl_x 0 3 1 then Some (toggle_control d)
         else if point_in_rect x y (screen_width (gui d) - 18) (taskbar_y + 1) 7 1 then Some (toggle_notifications d)
         else if point_in_rect x y (screen_width (gui d) - 10) (taskbar_y + 1) 6 1 then Some (toggle_control d)
         else if point_in_rect x y 6 (taskbar_y + 1) 7 1 then launch w ts ''Files'' d
         else if point_in_rect x y 14 (taskbar_y + 1) 6 1 then launch w ts ''Terminal'' d
         else if point_in_rect x y 21 (taskbar_y + 1) 6 1 then launch w ts ''Settings'' d
         else if point_in_rect x y 28 (taskbar_y + 1) 5 1 then launch w ts ''Web'' d
         else if point_in_rect x y 34 (taskbar_y + 1) 6 1 then launch w ts ''Edit'' d
         else if point_in_rect x y 2 2 7 1 then launch w ts ''Files'' d
         else if point_in_rect x y 2 4 7 1 then launch w ts ''Terminal'' d
         else if point_in_rect x y 2 6 7 1 then launch w ts ''Settings'' d
         else Some d)"

definition gui_handle_right_click :: "u64 \<Rightarrow> u64 \<Rightarrow> int \<Rightarrow> int \<Rightarrow> desktop_t \<Rightarrow> desktop_t option" where
  "gui_handle_right_click w ts x y d =
     (let status_notif_x = screen_width (gui d) - 18;
          status_ctrl_x = screen_width (gui d) - 10;
          taskbar_y = screen_height (gui d) - 6
      in if y = 0 \<and> x \<ge> status_ctrl_x \<and> x < status_ctrl_x + 3 then Some (toggle_control d)
         else if y = 0 \<and> x \<ge> status_notif_x \<and> x < status_notif_x + 3 then Some (toggle_notifications d)
         else if x \<ge> 2 \<and> x \<le> 8 \<and> y = 2 then launch w ts ''Files'' d
         else if x \<ge> 2 \<and> x \<le> 8 \<and> y = 4 then launch w ts ''Terminal'' d
         else if x \<ge> 2 \<and> x \<le> 8 \<and> y = 6 then launch w ts ''Settings'' d
         else if x \<ge> screen_width (gui d) - 18 \<and> x < screen_width (gui d) - 11 \<and> y = taskbar_y + 1 then Some (toggle_notifications d)
         else if x \<ge> screen_width (gui d) - 10 \<and> x < screen_width (gui d) - 4 \<and> y = taskbar_y + 1 then Some (toggle_control d)
         else Some (d\<lparr>vga := fold plot_char (draw_context_menu (gui d) x y) (vga d)\<rparr>))"

definition gui_handle_mouse_click :: "u64 \<Rightarrow> u64 \<Rightarrow> int \<Rightarrow> int \<Rightarrow> bool \<Rightarrow> bool \<Rightarrow> bool \<Rightarrow> desktop_t \<Rightarrow> desktop_t option" where
  "gui_handle_mouse_click w ts x y left right middle d =
     Option.bind (if left then gui_handle_left_click w ts x y d else Some d) (\<lambda>d.
     Option.bind (if right then gui_handle_right_click w ts x y d else Some d) (\<lambda>d.
       Some (if middle then toggle_control d else d)))"

subsection \<open>What drawing leaves on the screen\<close>

lemma text_plots_nth:
  "length (text_plots tx lim y color str) = min (nat (lim - tx)) (length str)"
  "k < min (nat (lim - tx)) (length str) \<Longrightarrow> text_plots tx lim y color str ! k = (tx + int k, y, of_char (str ! k), color)"
  by (simp_all add: text_plots_def nth_enumerate_eq)

lemma in_text_plots:
  "(x, y, c, col) \<in> set (text_plots tx lim ly color str) \<longleftrightarrow>
     y = ly \<and> col = color \<and> tx \<le> x \<and> x < lim \<and> x < tx + int (length str) \<and> c = of_char (str ! nat (x - tx))"
proof
  assume "(x, y, c, col) \<in> set (text_plots tx lim ly color str)"
  then obtain k where k: "k < min (nat (lim - tx)) (length str)" "text_plots tx lim ly color str ! k = (x, y, c, col)"
    unfolding in_set_conv_nth text_plots_nth(1) by blast
  then show "y = ly \<and> col = color \<and> tx \<le> x \<and> x < lim \<and> x < tx + int (length str) \<and> c = of_char (str ! nat (x - tx))"
    using text_plots_nth(2) [OF k(1), of ly color] by auto
next
  assume asm: "y = ly \<and> col = color \<and> tx \<le> x \<and> x < lim \<and> x < tx + int (length str) \<and> c = of_char (str ! nat (x - tx))"
  then have k: "nat (x - tx) < min (nat (lim - tx)) (length str)" by linarith
  then show "(x, y, c, col) \<in> set (text_plots tx lim ly color str)"
    unfolding in_set_conv_nth text_plots_nth(1) using asm text_plots_nth(2) [OF k, of ly color] by (intro exI [of _ "nat (x - tx)"]) simp
qed

lemma text_plots_find:
  "List.find (plot_at x y) (rev (text_plots tx lim ly color str)) =
     (if y = ly \<and> tx \<le> x \<and> x < lim \<and> x < tx + int (length str) then Some (x, y, of_char (str ! nat (x - tx)), color) else None)"
proof (cases "y = ly \<and> tx \<le> x \<and> x < lim \<and> x < tx + int (length str)")
  case True
  have "List.find (plot_at x y) (rev (text_plots tx lim ly color str)) = Some (x, y, of_char (str ! nat (x - tx)), color)"
  proof (rule find_unique)
    show "(x, y, of_char (str ! nat (x - tx)), color) \<in> set (rev (text_plots tx lim ly color str))"
      using True by (simp add: in_text_plots)
    show "plot_at x y p \<longleftrightarrow> p = (x, y, of_char (str ! nat (x - tx)), color)" if "p \<in> set (rev (text_plots tx lim ly color str))" for p
    proof -
      obtain px py c col where p: "p = (px, py, c, col)" by (cases p)
      then have "(px, py, c, col) \<in> set (text_plots tx lim ly color str)" using that by simp
      then show ?thesis unfolding p in_text_plots by auto
    qed
  qed
  then show ?thesis using True by simp
next
  case False
  then have "\<not> plot_at x y p" if "p \<in> set (text_plots tx lim ly color str)" for p
    using that by (cases p) (auto simp: in_text_plots)
  then have "List.find (plot_at x y) (rev (text_plots tx lim ly color str)) = None"
    unfolding find_None_iff set_rev by blast
  then show ?thesis using False by simp
qed

lemma fill_rect_within: "plots_within x y (x + width) (y + height) (fill_rect g x y width height color)"
  by (auto simp: fill_rect_def plots_within_def)

lemma draw_lines_within:
  "x0 \<le> x \<Longrightarrow> x + len \<le> x1 \<Longrightarrow> y0 \<le> y \<Longrightarrow> y < y1 \<Longrightarrow> plots_within x0 y0 x1 y1 (draw_horizontal g x y len c color)"
  "y0 \<le> y \<Longrightarrow> y + len \<le> y1 \<Longrightarrow> x0 \<le> x \<Longrightarrow> x < x1 \<Longrightarrow> plots_within x0 y0 x1 y1 (draw_vertical g x y len c color)"
  by (auto simp: draw_horizontal_def draw_vertical_def plots_within_def)

lemma plots_within_mono:
  "plots_within a b c d ps \<Longrightarrow> a' \<le> a \<Longrightarrow> b' \<le> b \<Longrightarrow> c \<le> c' \<Longrightarrow> d \<le> d' \<Longrightarrow> plots_within a' b' c' d' ps"
  unfolding plots_within_def by fastforce

lemma draw_panel_within:
  assumes "x < screen_width g" "y < screen_height g"
  shows "plots_within x y (x + width) (y + height) (draw_panel g x y width height caption)"
proof -
  let ?w = "if x + width > screen_width g then screen_width g - x else width"
  let ?h = "if y + height > screen_height g then screen_height g - y else height"
  have w: "?w \<le> width" "?h \<le> height" "0 < ?w \<or> width < 2" "0 < ?h \<or> height < 2" using assms by auto
  show ?thesis
  proof (cases "width < 2 \<or> height < 2 \<or> x < 0 \<or> y < 0")
    case False
    have fill: "plots_within x y (x + width) (y + height) (fill_rect g x y ?w ?h GUI_PANEL_COLOR)"
      by (rule plots_within_mono [OF fill_rect_within]) (use w in auto)
    have lines: "plots_within x y (x + width) (y + height) (draw_horizontal g (x + 1) y (?w - 2) CHR ''-'' GUI_FRAME_COLOR)"
      "plots_within x y (x + width) (y + height) (draw_horizontal g (x + 1) (y + ?h - 1) (?w - 2) CHR ''-'' GUI_FRAME_COLOR)"
      "plots_within x y (x + width) (y + height) (draw_vertical g x (y + 1) (?h - 2) CHR ''|'' GUI_FRAME_COLOR)"
      "plots_within x y (x + width) (y + height) (draw_vertical g (x + ?w - 1) (y + 1) (?h - 2) CHR ''|'' GUI_FRAME_COLOR)"
      using w False by (auto intro!: draw_lines_within)
    have cap: "plots_within x y (x + width) (y + height) (text_plots (x + 2) (x + ?w - 2) y GUI_PANEL_TEXT t)" for t
      using w False by (intro text_plots_within) auto
    show ?thesis
      using False w fill lines cap unfolding draw_panel_def Let_def
      by (simp only: if_False plots_within_append plots_within_Cons plots_within_Nil simp_thms split: option.split) auto
  qed (simp add: draw_panel_def)
qed

lemma render_invariant: "vga_inv (vga d) \<Longrightarrow> vga_inv (gui_render d)"
  unfolding gui_render_def Let_def app_launcher_render_def draw_box_def control_center_render_def notification_center_render_def render_concat
  by (simp add: screen.puts_invar)

subsection \<open>Clicks\<close>

datatype gui_action = Toggle_Notifications | Toggle_Control | Launch string

fun run_action :: "u64 \<Rightarrow> u64 \<Rightarrow> gui_action \<Rightarrow> desktop_t \<Rightarrow> desktop_t option" where
  "run_action w ts Toggle_Notifications d = Some (toggle_notifications d)"
| "run_action w ts Toggle_Control d = Some (toggle_control d)"
| "run_action w ts (Launch name) d = launch w ts name d"

text \<open>
  The areas of the screen of 80 columns and 24 rows in which a left click is recognised, with the text meant to be seen there, and the action. The icons
  \<^verbatim>\<open>Web\<close> and \<^verbatim>\<open>Edit\<close> of the desktop have no such area.
\<close>

definition click_areas :: "(int \<times> int \<times> string \<times> gui_action) list" where
  "click_areas =
     [(62, 0, ''[N]'', Toggle_Notifications), (70, 0, ''[C]'', Toggle_Control),
      (62, 19, ''[NOTIF]'', Toggle_Notifications), (70, 19, ''[CTRL]'', Toggle_Control),
      (6, 19, ''[Files]'', Launch ''Files''), (14, 19, ''[Term]'', Launch ''Terminal''), (21, 19, ''[Sets]'', Launch ''Settings''),
      (28, 19, ''[Web]'', Launch ''Web''), (34, 19, ''[Edit]'', Launch ''Edit''),
      (2, 2, ''[Files]'', Launch ''Files''), (2, 4, ''[Term ]'', Launch ''Terminal''), (2, 6, ''[Sets ]'', Launch ''Settings'')]"

definition area_covers :: "int \<Rightarrow> int \<Rightarrow> int \<times> int \<times> string \<times> gui_action \<Rightarrow> bool" where
  "area_covers x y = (\<lambda>(lx, ly, str, a). y = ly \<and> lx \<le> x \<and> x < lx + int (length str))"

definition std_screen :: "gui_t \<Rightarrow> bool" where
  "std_screen g \<longleftrightarrow> screen_width g = 80 \<and> screen_height g = 24"

lemma point_in_row: "point_in_rect x y rx ry rw 1 \<longleftrightarrow> y = ry \<and> rx \<le> x \<and> x < rx + rw"
  by (auto simp: point_in_rect_def)

lemma left_click_areas:
  assumes "std_screen (gui d)"
  shows "gui_handle_left_click w ts x y d =
    (case List.find (area_covers x y) click_areas of None \<Rightarrow> Some d | Some (_, _, _, a) \<Rightarrow> run_action w ts a d)"
  using assms unfolding gui_handle_left_click_def click_areas_def std_screen_def point_in_row
  by (simp add: area_covers_def)

subsection \<open>Properties\<close>

text \<open>
  C19: The application launcher is drawn last, over the taskbar: where the user reads its third entry, \<^verbatim>\<open>Settings\<close>, a click
  launches \<^verbatim>\<open>Files\<close>, whose label is no longer on the screen.
\<close>

theorem gui_launcher_covers_taskbar:
  assumes "std_screen (gui d)" "vga_inv (vga d)" "length (app_registry l) = MAX_APPS" "launcher d = app_launcher_initialize f t s l" "k < 7"
  shows "vga_cell (gui_render d) (6 + int k) 19 = vga_entry (of_char (''Settings'' ! k)) 0x0F \<and>
    gui_handle_left_click w ts (6 + int k) 19 d = launch w ts ''Files'' d"
proof -
  obtain v where v: "gui_render d = app_launcher_render (launcher d) v" "vga_inv v"
    using render_invariant [OF assms(2)] unfolding gui_render_def Let_def control_center_render_def notification_center_render_def render_concat
    by (simp add: screen.puts_invar assms(2))
  have upt: "[0..<3] = [0, 1, 2 :: nat]" by (simp add: upt_rec)
  have reg: "app_count (launcher d) = 3" "app_name (app_registry (launcher d) ! 0) = Some ''Files''"
    "app_name (app_registry (launcher d) ! 1) = Some ''Terminal''" "app_name (app_registry (launcher d) ! 2) = Some ''Settings''"
    using assms(3) unfolding assms(4) by (simp_all add: app_launcher_initialize_def register_app_def numeral_2_eq_2)
  have "on_screen (6 + int k) 19" using assms(5) by (simp add: on_screen_def)
  then have "vga_cell (gui_render d) (6 + int k) 19 = vga_entry (of_char (''Settings'' ! k)) 0x0F"
    unfolding v(1) app_launcher_render_def draw_box_def
    using v(2) reg assms(5) by (simp add: upt screen.puts_cell screen.puts_invar find_append text_plots_find)
  moreover have "gui_handle_left_click w ts (6 + int k) 19 d = launch w ts ''Files'' d"
    unfolding left_click_areas [OF assms(1)] using assms(5) by (simp add: click_areas_def area_covers_def)
  ultimately show ?thesis by simp
qed

text \<open>
  The windows of the desktop and its taskbar go together: there are as many items as windows, item \<open>i\<close> has the title of window \<open>i\<close> and leads to it,
  and the first window stays the active one.
\<close>

definition gui_inv :: "gui_t \<Rightarrow> bool" where
  "gui_inv g \<longleftrightarrow> length (gui_windows g) = GUI_MAX_WINDOWS \<and> length (taskbar_items g) = GUI_MAX_TASKBAR \<and>
     gui_window_count g \<le> GUI_MAX_WINDOWS \<and> taskbar_count g = gui_window_count g \<and>
     active_window g = (if gui_window_count g = 0 then - 1 else 0) \<and>
     (\<forall>i < gui_window_count g. ti_label (taskbar_items g ! i) = gw_title (gui_windows g ! i) \<and> ti_active (taskbar_items g ! i) \<and>
        ti_window_id (taskbar_items g ! i) = int i)"

definition opened :: "gui_t \<Rightarrow> (string option \<times> int \<times> int \<times> int \<times> int) list" where
  "opened g = map (\<lambda>w. (gw_title w, gw_x w, gw_y w, gw_width w, gw_height w)) (take (gui_window_count g) (gui_windows g))"

lemma gui_open_window_step:
  assumes "gui_inv g"
  shows "gui_inv (gui_open_window t x y w h g) \<and>
    opened (gui_open_window t x y w h g) = (if length (opened g) < GUI_MAX_WINDOWS then opened g @ [(t, x, y, w, h)] else opened g)"
proof -
  have len: "length (opened g) = gui_window_count g" using assms by (simp add: opened_def gui_inv_def)
  show ?thesis
  proof (cases "gui_window_count g < 6")
    case True
    then have "gui_inv (gui_open_window t x y w h g)"
      using assms by (auto simp: gui_inv_def gui_open_window_def Let_def nth_list_update less_Suc_eq)
    moreover have "opened (gui_open_window t x y w h g) = opened g @ [(t, x, y, w, h)]"
      using True assms by (simp add: opened_def gui_inv_def gui_open_window_def Let_def take_Suc_conv_app_nth)
    ultimately show ?thesis using True len by simp
  qed (use assms len in \<open>simp add: gui_open_window_def\<close>)
qed

text \<open>
  C21: After a start, opening windows keeps the first six in order, with one taskbar item for each, and refuses all later ones without a change.
\<close>

theorem gui_open_windows:
  assumes "length (gui_windows (gui d)) = GUI_MAX_WINDOWS" "length (taskbar_items (gui d)) = GUI_MAX_TASKBAR"
  shows "opened (fold (\<lambda>(t, x, y, w, h). gui_open_window t x y w h) ws (gui (gui_initialize d))) = take GUI_MAX_WINDOWS ws \<and>
    gui_inv (fold (\<lambda>(t, x, y, w, h). gui_open_window t x y w h) ws (gui (gui_initialize d)))"
proof (induction ws rule: rev_induct)
  case Nil
  show ?case using assms by (simp add: gui_initialize_def opened_def gui_inv_def)
next
  case (snoc win ws)
  obtain t x y w h where win: "win = (t, x, y, w, h)" by (cases win)
  show ?case using gui_open_window_step [of _ t x y w h] snoc by (auto simp: win take_Suc_conv_app_nth not_less min_def)
qed

lemma context_menu_within:
  assumes "0 \<le> x" "0 \<le> y" "19 \<le> screen_width g" "6 \<le> screen_height g"
  shows "plots_within 0 0 (screen_width g) (screen_height g) (draw_context_menu g x y)"
proof -
  define mx where "mx = (if x + 18 \<ge> screen_width g then screen_width g - 18 - 1 else x)"
  define my where "my = (if y + 5 \<ge> screen_height g then screen_height g - 5 - 1 else y)"
  have b: "0 \<le> mx" "mx + 18 \<le> screen_width g" "0 \<le> my" "my + 5 \<le> screen_height g" using assms by (auto simp: mx_def my_def)
  have upt: "[0..<4] = [0, 1, 2, 3 :: nat]" by (simp add: upt_rec)
  show ?thesis
    unfolding draw_context_menu_def Let_def mx_def [symmetric] my_def [symmetric] upt
    using b by (auto intro!: draw_lines_within text_plots_within)
qed

lemma no_labelD:
  assumes "List.find (area_covers x y) click_areas = None" "i < length click_areas"
  shows "case click_areas ! i of (lx, ly, str, a) \<Rightarrow> y \<noteq> ly \<or> x < lx \<or> lx + int (length str) \<le> x"
proof -
  have "\<not> area_covers x y (click_areas ! i)" using assms(1) nth_mem [OF assms(2)] unfolding find_None_iff by blast
  then show ?thesis by (auto simp: area_covers_def)
qed

text \<open>
  The context menu of a right click stays on the screen wherever the mouse is: it is moved left and up as far as necessary. A right click that
  opens it changes nothing but the cells of the menu. Its last entry lies on its lower border.
\<close>

theorem gui_context_menu_on_screen:
  assumes "std_screen (gui d)" "vga_inv (vga d)" "0 \<le> x" "0 \<le> y" "List.find (area_covers x y) click_areas = None"
  shows "\<exists>d'. gui_handle_right_click w ts x y d = Some d' \<and> d'\<lparr>vga := vga d\<rparr> = d \<and> vga_inv (vga d') \<and>
    plots_within 0 0 80 24 (draw_context_menu (gui d) x y) \<and>
    (\<forall>k < 5. vga_cell (vga d') (min x 61 + 2 + int k) (min y 18 + 4) = vga_entry (of_char (''Close'' ! k)) 0x0F)"
proof -
  let ?d = "d\<lparr>vga := fold plot_char (draw_context_menu (gui d) x y) (vga d)\<rparr>"
  have size: "screen_width (gui d) = 80" "screen_height (gui d) = 24" using assms(1) by (simp_all add: std_screen_def)
  note miss = no_labelD [OF assms(5)]
  have o0: "\<not> (y = 0 \<and> 70 \<le> x \<and> x < 73)" using miss [of 1] by (auto simp: click_areas_def)
  have o1: "\<not> (y = 0 \<and> 62 \<le> x \<and> x < 65)" using miss [of 0] by (auto simp: click_areas_def)
  have o2: "\<not> (2 \<le> x \<and> x \<le> 8 \<and> y = 2)" using miss [of 9] by (auto simp: click_areas_def)
  have o3: "\<not> (2 \<le> x \<and> x \<le> 8 \<and> y = 4)" using miss [of 10] by (auto simp: click_areas_def)
  have o4: "\<not> (2 \<le> x \<and> x \<le> 8 \<and> y = 6)" using miss [of 11] by (auto simp: click_areas_def)
  have o5: "\<not> (62 \<le> x \<and> x < 69 \<and> y = 19)" using miss [of 2] by (auto simp: click_areas_def)
  have o6: "\<not> (70 \<le> x \<and> x < 76 \<and> y = 19)" using miss [of 3] by (auto simp: click_areas_def)
  have run: "gui_handle_right_click w ts x y d = Some ?d"
    unfolding gui_handle_right_click_def Let_def size using o0 o1 o2 o3 o4 o5 o6 by simp blast
  have m: "(if 80 \<le> x + 18 then 80 - 18 - 1 else x) = min x 61" "(if 24 \<le> y + 5 then 24 - 5 - 1 else y) = min y 18" by auto
  have upt: "[0..<4] = [0, 1, 2, 3 :: nat]" by (simp add: upt_rec)
  have "vga_cell (vga ?d) (min x 61 + 2 + int k) (min y 18 + 4) = vga_entry (of_char (''Close'' ! k)) 0x0F" if "k < 5" for k
  proof -
    have on: "on_screen (min x 61 + 2 + int k) (min y 18 + 4)" using assms(3,4) that by (auto simp: on_screen_def min_def)
    have "List.find (plot_at (min x 61 + 2 + int k) (min y 18 + 4)) (rev (draw_context_menu (gui d) x y)) =
        Some (min x 61 + 2 + int k, min y 18 + 4, of_char (''Close'' ! k), 0x0F)"
      unfolding draw_context_menu_def Let_def size m upt using that by (simp add: find_append text_plots_find)
    then show ?thesis using screen.puts_cell [OF assms(2) on] by simp
  qed
  then show ?thesis
    using context_menu_within [OF assms(3,4), of "gui d"] assms(2) size
    by (intro exI [of _ ?d]) (simp add: run screen.puts_invar)
qed

subsection \<open>Examples\<close>

definition desktop_example :: desktop_t where
  "desktop_example = \<lparr>gui = gui_static, notif = notifications_static, control_visible = False, wm = wm_static, launcher = launcher3,
     sched = sched2, vga = vga_example\<rparr>"

lemma desktop_example_ok: "std_screen (gui desktop_example)" "vga_inv (vga desktop_example)"
  using vga_example_fits by (simp_all add: desktop_example_def gui_static_def std_screen_def)

theorem gui_launcher_covers_taskbar_witness:
  "vga_cell (gui_render desktop_example) 6 19 = vga_entry 0x53 0x0F \<and>
   gui_handle_left_click 0x1000 0x800000 6 19 desktop_example = launch 0x1000 0x800000 ''Files'' desktop_example"
  using gui_launcher_covers_taskbar [OF desktop_example_ok, of launcher_static "0x5000" "0x6000" "0x7000" 0]
  by (simp add: desktop_example_def launcher3_def launcher_static_def)

theorem gui_open_windows_witness:
  "opened (fold (\<lambda>(t, x, y, w, h). gui_open_window t x y w h) (map (\<lambda>i. (None, i, i, 10, 5)) [1..7]) (gui (gui_initialize desktop_example))) =
     map (\<lambda>i. (None, i, i, 10, 5)) [1..6]"
  using gui_open_windows [of desktop_example "map (\<lambda>i. (None, i, i, 10, 5)) [1..7]"]
  by (simp add: desktop_example_def gui_static_def upto_rec1)

theorem gui_context_menu_on_screen_witness:
  "\<exists>d'. gui_handle_right_click 0x1000 0x800000 79 23 desktop_example = Some d' \<and> vga_cell (vga d') 63 22 = vga_entry 0x43 0x0F"
proof -
  obtain d' where d': "gui_handle_right_click 0x1000 0x800000 79 23 desktop_example = Some d'"
    and cells: "\<forall>k < 5. vga_cell (vga d') (63 + int k) 22 = vga_entry (of_char (''Close'' ! k)) 0x0F"
    using gui_context_menu_on_screen [OF desktop_example_ok, of 79 23 "0x1000" "0x800000"]
    by (auto simp: click_areas_def area_covers_def)
  then show ?thesis using spec [OF cells, of 0] by simp
qed

end
