(* ===== verification/Console.thy ===== *)
theory Console
  imports Kprintf Gui Keyboard Mouse Network "HOL-Library.Signed_Division"
begin

text \<open>
  The parts of \<^verbatim>\<open>kernel.c\<close> that face the user: the status line of the mouse and the shell. One round of the shell's endless
  loop is a function on the states of all the components it calls; what the keyboard, the mouse and the
  network card deliver in that round is an argument.

  The theorems show that the shell is a line editor (a refinement to lists of characters), and that its
  prompt is overwritten by the status line of the mouse.
\<close>

subsection \<open>The mouse status line\<close>

definition draw_mouse_status :: "int \<Rightarrow> int \<Rightarrow> int \<Rightarrow> int \<Rightarrow> bool \<Rightarrow> bool \<Rightarrow> bool \<Rightarrow> plot list" where
  "draw_mouse_status x y mx my left right middle =
     (if x < 0 \<or> x \<ge> 78 \<or> y < 0 \<or> y \<ge> 24 then []
      else map (\<lambda>(i, c). (x + int i, y, c, 0x0F))
        (enumerate 0
          [of_char CHR ''M'', of_char CHR ''X'', of_char CHR '':'', of_int (0x30 + mx sdiv 10), of_int (0x30 + mx smod 10), 0x20,
           of_char CHR ''M'', of_char CHR ''Y'', of_char CHR '':'', of_int (0x30 + my sdiv 10), of_int (0x30 + my smod 10), 0x20,
           of_char (if left then CHR ''L'' else CHR ''-''), of_char (if right then CHR ''R'' else CHR ''-''),
           of_char (if middle then CHR ''M'' else CHR ''-'')]))"

subsection \<open>The shell\<close>

text \<open>The local variables of \<^verbatim>\<open>shell_task\<close>.\<close>

record shell_t =
  sh_x :: int
  sh_y :: int
  sh_pos :: nat
  sh_line :: "u8 list"

definition shell_prompt :: string where
  "shell_prompt = ''[.C OS]> ''"

definition draw_prompt :: "shell_t \<times> vga_t \<Rightarrow> shell_t \<times> vga_t" where
  "draw_prompt = (\<lambda>(sh, v).
     (sh\<lparr>sh_x := sh_x sh + int (length shell_prompt)\<rparr>,
      fold plot_char (text_plots (sh_x sh) (sh_x sh + int (length shell_prompt)) (sh_y sh) 0x0F shell_prompt) v))"

definition shell_start :: "vga_t \<Rightarrow> shell_t \<times> vga_t" where
  "shell_start v = draw_prompt (\<lparr>sh_x = 0, sh_y = 22, sh_pos = 0, sh_line = replicate 80 0\<rparr>, v)"

text \<open>What the shell does with one character; the first result is the command line it logs, up to its first NUL.\<close>

definition shell_key :: "u8 \<Rightarrow> shell_t \<times> vga_t \<Rightarrow> u8 list option \<times> shell_t \<times> vga_t" where
  "shell_key c = (\<lambda>(sh, v).
     if c = 13 \<or> c = 10
     then let line = (sh_line sh)[sh_pos sh := 0];
              y = sh_y sh + 1
          in (Some (takeWhile (\<lambda>b. b \<noteq> 0) line),
              draw_prompt (sh\<lparr>sh_line := line, sh_x := 0, sh_y := (if y \<ge> 24 then 23 else y), sh_pos := 0\<rparr>, v))
     else if c = 8
     then if sh_pos sh > 0
          then (None, sh\<lparr>sh_pos := sh_pos sh - 1, sh_x := sh_x sh - 1\<rparr>, vga_write_char (sh_x sh - 1) (sh_y sh) 0x20 0x0F v)
          else (None, sh, v)
     else if sh_pos sh < 80 - 1
     then (None, sh\<lparr>sh_line := (sh_line sh)[sh_pos sh := c], sh_pos := sh_pos sh + 1, sh_x := sh_x sh + 1\<rparr>,
           vga_write_char (sh_x sh) (sh_y sh) c 0x0F v)
     else (None, sh, v))"

record console_t =
  shell :: shell_t
  keyboard :: keyboard_t
  usb :: usb_t
  mouse :: mouse_t
  desktop :: desktop_t
  net :: net_t
  net_time :: nat
  serial :: serial_io

text \<open>
  What the ports deliver in one round: the status and data of the keyboard controller for the two polls of the keyboard and the poll of the mouse, and the
  port registers of the USB controller.
\<close>

record shell_input =
  in_key1 :: "u8 \<times> u8"
  in_key2 :: "u8 \<times> u8"
  in_mouse :: "u8 \<times> u8"
  in_portsc :: "nat \<Rightarrow> u32"

definition shell_keyboard :: "shell_input \<Rightarrow> console_t \<Rightarrow> console_t option" where
  "shell_keyboard inp s =
     (let (has, k, u) = keyboard_has_data (fst (in_key1 inp)) (snd (in_key1 inp)) (keyboard s, usb s);
          s = s\<lparr>keyboard := k, usb := u\<rparr>
      in if \<not> has then Some s
         else
           let (c, k, u) = keyboard_read_char (fst (in_key2 inp)) (snd (in_key2 inp)) (keyboard s, usb s);
               (command, sh, v) = shell_key c (shell s, vga (desktop s));
               s = s\<lparr>keyboard := k, usb := u, shell := sh, desktop := (desktop s)\<lparr>vga := v\<rparr>\<rparr>
           in case command of
                None \<Rightarrow> Some s
              | Some line \<Rightarrow>
                  map_option (\<lambda>(_, io). s\<lparr>serial := io\<rparr>) (kprintf (''Shell command: %s'' @ [CHR 0x0A]) [KStr line] (serial s)))"

definition shell_mouse :: "u64 \<Rightarrow> u64 \<Rightarrow> shell_input \<Rightarrow> console_t \<Rightarrow> console_t option" where
  "shell_mouse w ts inp s =
     (let (has, m, u) = mouse_has_event (fst (in_mouse inp)) (snd (in_mouse inp)) (in_portsc inp) (mouse s, usb s);
          s = s\<lparr>mouse := m, usb := u\<rparr>
      in if \<not> has then Some s
         else
           let (ev, m) = mouse_get_event False (mouse s);
               mx = mouse_get_x m; my = mouse_get_y m;
               left = ev_left ev; right = ev_right ev; middle = ev_middle ev;
               d = desktop s;
               d = d\<lparr>vga := fold plot_char (draw_mouse_status 0 23 mx my left right middle) (vga d)\<rparr>
           in map_option (\<lambda>d. s\<lparr>mouse := m, desktop := d\<rparr>)
                (if left \<or> right \<or> middle then gui_handle_mouse_click w ts mx my left right middle d else Some d))"

definition shell_round :: "u64 \<Rightarrow> u64 \<Rightarrow> net_layout \<Rightarrow> nic \<Rightarrow> shell_input \<Rightarrow> console_t \<Rightarrow> console_t option" where
  "shell_round w ts lay nic inp s =
     Option.bind (shell_keyboard inp s) (\<lambda>s.
     Option.bind (shell_mouse w ts inp s) (\<lambda>s.
     Option.bind (network_poll lay nic (net_time s) (net s)) (\<lambda>(t, n).
     Option.bind (task_yield (sched (desktop s))) (\<lambda>sch.
       Some (s\<lparr>net := n, net_time := t, desktop := (desktop s)\<lparr>sched := sch\<rparr>\<rparr>)))))"

subsection \<open>The shell as a line editor\<close>

text \<open>The editor on lists: what one key does to the text of the line, and the command that it completes.\<close>

definition edit_key :: "u8 \<Rightarrow> u8 list \<Rightarrow> u8 list option \<times> u8 list" where
  "edit_key c buf =
     (if c = 13 \<or> c = 10 then (Some (takeWhile (\<lambda>b. b \<noteq> 0) buf), [])
      else if c = 8 then (None, butlast buf)
      else if length buf < 79 then (None, buf @ [c]) else (None, buf))"

definition shell_text :: "shell_t \<Rightarrow> u8 list" where
  "shell_text sh = take (sh_pos sh) (sh_line sh)"

text \<open>The line fits its array and the cursor is behind the text; the row of the screen shows the prompt and the text as far as it has room.\<close>

definition shell_inv :: "shell_t \<times> vga_t \<Rightarrow> bool" where
  "shell_inv = (\<lambda>(sh, v). length (sh_line sh) = 80 \<and> sh_pos sh \<le> 79 \<and> sh_x sh = 9 + int (sh_pos sh) \<and> (sh_y sh = 22 \<or> sh_y sh = 23) \<and>
     vga_inv v \<and> (\<forall>i < 9. vga_cell v (int i) (sh_y sh) = vga_entry (of_char (shell_prompt ! i)) 0x0F) \<and>
     (\<forall>i < sh_pos sh. 9 + i < 80 \<longrightarrow> vga_cell v (9 + int i) (sh_y sh) = vga_entry (sh_line sh ! i) 0x0F))"

fun run_keys :: "u8 list \<Rightarrow> shell_t \<times> vga_t \<Rightarrow> u8 list list \<times> shell_t \<times> vga_t" where
  "run_keys [] st = ([], st)"
| "run_keys (c # cs) st =
     (case shell_key c st of (command, st) \<Rightarrow> case run_keys cs st of (commands, st) \<Rightarrow>
        ((case command of None \<Rightarrow> commands | Some l \<Rightarrow> l # commands), st))"

fun edit_keys :: "u8 list \<Rightarrow> u8 list \<Rightarrow> u8 list list \<times> u8 list" where
  "edit_keys [] buf = ([], buf)"
| "edit_keys (c # cs) buf =
     (case edit_key c buf of (command, buf) \<Rightarrow> case edit_keys cs buf of (commands, buf) \<Rightarrow>
        ((case command of None \<Rightarrow> commands | Some l \<Rightarrow> l # commands), buf))"

lemma write_char_plot: "vga_write_char x y c color v = plot_char (x, y, c, color) v"
  by (simp add: plot_char_def)

lemma prompt_drawn:
  assumes "vga_inv v" "y = 22 \<or> y = 23" "length l = 80"
  shows "shell_inv (draw_prompt (\<lparr>sh_x = 0, sh_y = y, sh_pos = 0, sh_line = l\<rparr>, v))"
proof -
  have "on_screen (int i) y" if "i < 9" for i using that assms(2) by (auto simp: on_screen_def)
  then show ?thesis
    using assms unfolding shell_inv_def draw_prompt_def
    by (auto simp: screen.puts_invar screen.puts_cell text_plots_find shell_prompt_def)
qed

lemma shell_key_step:
  assumes "shell_inv (sh, v)"
  shows "fst (shell_key c (sh, v)) = fst (edit_key c (shell_text sh)) \<and>
    shell_text (fst (snd (shell_key c (sh, v)))) = snd (edit_key c (shell_text sh)) \<and> shell_inv (snd (shell_key c (sh, v)))"
proof -
  have inv: "length (sh_line sh) = 80" "sh_pos sh \<le> 79" "sh_x sh = 9 + int (sh_pos sh)" "sh_y sh = 22 \<or> sh_y sh = 23" "vga_inv v"
    using assms by (simp_all add: shell_inv_def)
  have len: "length (shell_text sh) = sh_pos sh" using inv by (simp add: shell_text_def)
  consider (enter) "c = 13 \<or> c = 10" | (bksp) "c = 8" | (typed) "c \<noteq> 13" "c \<noteq> 10" "c \<noteq> 8" by blast
  then show ?thesis
  proof cases
    case enter
    have "takeWhile (\<lambda>b. b \<noteq> 0) ((sh_line sh)[sh_pos sh := 0]) = takeWhile (\<lambda>b. b \<noteq> 0) (shell_text sh)"
    proof -
      have "(sh_line sh)[sh_pos sh := 0] = shell_text sh @ 0 # drop (Suc (sh_pos sh)) (sh_line sh)"
        using inv(1,2) by (simp add: upd_conv_take_nth_drop shell_text_def)
      then show ?thesis by (simp add: takeWhile_tail)
    qed
    moreover have "shell_inv (draw_prompt (sh\<lparr>sh_line := (sh_line sh)[sh_pos sh := 0], sh_x := 0,
        sh_y := (if sh_y sh + 1 \<ge> 24 then 23 else sh_y sh + 1), sh_pos := 0\<rparr>, v))"
      using prompt_drawn [OF inv(5), of "if sh_y sh + 1 \<ge> 24 then 23 else sh_y sh + 1" "(sh_line sh)[sh_pos sh := 0]"] inv(1,4)
      by (cases sh) auto
    ultimately show ?thesis
      using enter by (auto simp: shell_key_def edit_key_def Let_def draw_prompt_def shell_text_def)
  next
    case bksp
    have on: "on_screen (9 + int i) (sh_y sh)" if "9 + i < 80" for i using that inv(4) by (auto simp: on_screen_def)
    have on9: "on_screen (int i) (sh_y sh)" if "i < 9" for i using that inv(4) by (auto simp: on_screen_def)
    have "take (sh_pos sh - 1) (sh_line sh) = butlast (shell_text sh)"
      using inv(1,2) by (simp add: shell_text_def butlast_take)
    then show ?thesis
      using bksp assms inv screen.put_cell [OF inv(5) on] screen.put_cell [OF inv(5) on9] screen.put_invar [OF inv(5)]
      by (auto simp: shell_key_def edit_key_def shell_text_def shell_inv_def write_char_plot)
  next
    case typed
    have on: "on_screen (9 + int i) (sh_y sh)" if "9 + i < 80" for i using that inv(4) by (auto simp: on_screen_def)
    have on9: "on_screen (int i) (sh_y sh)" if "i < 9" for i using that inv(4) by (auto simp: on_screen_def)
    have "take (Suc (sh_pos sh)) ((sh_line sh)[sh_pos sh := c]) = shell_text sh @ [c]"
      using inv(1,2) by (simp add: shell_text_def take_Suc_conv_app_nth)
    then show ?thesis
      using typed assms inv len screen.put_cell [OF inv(5) on] screen.put_cell [OF inv(5) on9] screen.put_invar [OF inv(5)]
      by (auto simp: shell_key_def edit_key_def shell_text_def shell_inv_def write_char_plot nth_list_update less_Suc_eq)
  qed
qed

subsection \<open>Properties\<close>

text \<open>
  C14: The shell is a line editor: whatever keys are pressed, the commands it reports are those of the editor on lists (backspace removes the last character, lines
  are cut at 79 characters), the array keeps the text within its bounds, and the last row of the screen shows the prompt and the text.
\<close>

theorem shell_refines_editor:
  assumes "vga_inv v"
  shows "fst (run_keys cs (shell_start v)) = fst (edit_keys cs []) \<and>
    shell_text (fst (snd (run_keys cs (shell_start v)))) = snd (edit_keys cs []) \<and> shell_inv (snd (run_keys cs (shell_start v)))"
proof -
  have start: "shell_inv (shell_start v)" "shell_text (fst (shell_start v)) = []"
    using prompt_drawn [OF assms] by (simp_all add: shell_start_def draw_prompt_def shell_text_def)
  have "fst (run_keys cs st) = fst (edit_keys cs (shell_text (fst st))) \<and>
      shell_text (fst (snd (run_keys cs st))) = snd (edit_keys cs (shell_text (fst st))) \<and> shell_inv (snd (run_keys cs st))"
    if "shell_inv st" for st
    using that
  proof (induction cs arbitrary: st)
    case (Cons c cs)
    obtain command st' where key: "shell_key c st = (command, st')" by (rule prod.exhaust)
    have step: "command = fst (edit_key c (shell_text (fst st)))" "shell_text (fst st') = snd (edit_key c (shell_text (fst st)))" "shell_inv st'"
      using shell_key_step [of "fst st" "snd st" c] Cons.prems key by simp_all
    show ?case using Cons.IH [OF step(3)] step(1,2) by (auto simp: key split: prod.split option.split)
  qed simp
  from this [OF start(1)] show ?thesis using start(2) by simp
qed

text \<open>
  The status line of the mouse is drawn at the left end of row 23, where the shell has its prompt after the first command: it shows the position
  in decimal, and every movement of the mouse overwrites the prompt and the beginning of the line.
\<close>

theorem mouse_status_overwrites_prompt:
  assumes "shell_inv (sh, v)" "sh_y sh = 23" "0 \<le> mx" "mx < 100" "0 \<le> my" "my < 100"
  shows "let v' = fold plot_char (draw_mouse_status 0 23 mx my left right middle) v in
    vga_cell v' 3 23 = vga_entry (of_int (0x30 + mx div 10)) 0x0F \<and> vga_cell v' 4 23 = vga_entry (of_int (0x30 + mx mod 10)) 0x0F \<and>
    vga_cell v' 9 23 = vga_entry (of_int (0x30 + my div 10)) 0x0F \<and> vga_cell v' 10 23 = vga_entry (of_int (0x30 + my mod 10)) 0x0F \<and>
    \<not> shell_inv (sh, v')"
proof -
  let ?v = "fold plot_char (draw_mouse_status 0 23 mx my left right middle) v"
  have v: "vga_inv v" using assms(1) by (simp add: shell_inv_def)
  have d: "mx sdiv 10 = mx div 10" "mx smod 10 = mx mod 10" "my sdiv 10 = my div 10" "my smod 10 = my mod 10"
    using assms(3,5) by (simp_all add: signed_divide_int_def signed_modulo_int_def sgn_if abs_if)
  have on: "on_screen x 23" if "0 \<le> x" "x < 80" for x using that by (simp add: on_screen_def)
  have cell: "vga_cell ?v x 23 = (case List.find (plot_at x 23) (rev (draw_mouse_status 0 23 mx my left right middle)) of
      None \<Rightarrow> vga_cell v x 23 | Some p \<Rightarrow> plot_entry p)" if "0 \<le> x" "x < 80" for x
    by (rule screen.puts_cell [OF v on [OF that]])
  let ?found = "\<lambda>x. List.find (plot_at x 23) (rev (draw_mouse_status 0 23 mx my left right middle))"
  have found: "?found 3 = Some (3, 23, of_int (0x30 + mx div 10), 0x0F)" "?found 4 = Some (4, 23, of_int (0x30 + mx mod 10), 0x0F)"
    "?found 9 = Some (9, 23, of_int (0x30 + my div 10), 0x0F)" "?found 10 = Some (10, 23, of_int (0x30 + my mod 10), 0x0F)"
    "?found 0 = Some (0, 23, 0x4D, 0x0F)"
    by (simp_all add: draw_mouse_status_def d)
  have cells: "vga_cell ?v 3 23 = vga_entry (of_int (0x30 + mx div 10)) 0x0F" "vga_cell ?v 4 23 = vga_entry (of_int (0x30 + mx mod 10)) 0x0F"
    "vga_cell ?v 9 23 = vga_entry (of_int (0x30 + my div 10)) 0x0F" "vga_cell ?v 10 23 = vga_entry (of_int (0x30 + my mod 10)) 0x0F"
    "vga_cell ?v 0 23 = vga_entry 0x4D 0x0F"
    using found cell [of 3] cell [of 4] cell [of 9] cell [of 10] cell [of 0] by simp_all
  have "vga_cell ?v (int 0) (sh_y sh) \<noteq> vga_entry (of_char (shell_prompt ! 0)) 0x0F"
    using cells(5) assms(2) by (simp add: shell_prompt_def vga_entry_def)
  then have "\<not> shell_inv (sh, ?v)" by (auto simp: shell_inv_def dest!: spec [of _ 0])
  then show ?thesis using cells by (simp add: Let_def)
qed

theorem shell_refines_editor_witness:
  "fst (run_keys (map of_char ''lsx'' @ [8, 13]) (shell_start vga_example)) = [map of_char ''ls'']"
  using shell_refines_editor [OF vga_example_fits(1), of "map of_char ''lsx'' @ [8, 13]"] by (simp add: edit_key_def)

theorem mouse_status_overwrites_prompt_witness:
  "\<exists>sh v. shell_inv (sh, v) \<and> \<not> shell_inv (sh, fold plot_char (draw_mouse_status 0 23 40 12 False False False) v)"
proof -
  obtain sh v where d: "draw_prompt (\<lparr>sh_x = 0, sh_y = 23, sh_pos = 0, sh_line = replicate 80 0\<rparr>, vga_example) = (sh, v)" by (rule prod.exhaust)
  have "shell_inv (sh, v)" using prompt_drawn [OF vga_example_fits(1), of 23 "replicate 80 0"] d by simp
  moreover have "sh_y sh = 23" using d by (auto simp: draw_prompt_def)
  ultimately show ?thesis using mouse_status_overwrites_prompt [of sh v 40 12 False False False] by (auto simp: Let_def)
qed

end
