(* ===== verification/Audio.thy ===== *)
theory Audio
  imports Pci
begin

text \<open>
  The sound driver of \<^verbatim>\<open>audio.c\<close> (its PCI functions are in \<open>Pci\<close>): the PC speaker, driven through channel 2 of the timer, and the search for an HDA
  controller. The port writes are a log; the values that the code reads from the speaker port and from the controller's
  register \<^verbatim>\<open>GCTL\<close> are arguments.

  The theorems give the tone that reaches the timer, show that the speaker is always left off, and that a controller that behaves as the HDA
  specification says is never accepted.
\<close>

subsection \<open>State and operations\<close>

abbreviation PIT_CONTROL_PORT :: u16 where "PIT_CONTROL_PORT \<equiv> 0x43"
abbreviation PIT_CHANNEL_2_PORT :: u16 where "PIT_CHANNEL_2_PORT \<equiv> 0x42"
abbreviation PC_SPEAKER_PORT :: u16 where "PC_SPEAKER_PORT \<equiv> 0x61"
abbreviation PIT_FREQUENCY :: u32 where "PIT_FREQUENCY \<equiv> 1193180"
abbreviation HDA_GCTL_RESET :: u32 where "HDA_GCTL_RESET \<equiv> 1"

text \<open>\<open>hda_mmio\<close> is the address of the registers, 0 for \<^verbatim>\<open>NULL\<close>; \<open>gctl_log\<close> are the values written to the register \<^verbatim>\<open>GCTL\<close>.\<close>

record audio_t =
  audio_initialized :: bool
  hda_controller_present :: bool
  hda_mmio :: u64
  hda_bar0 :: u32
  audio_volume :: u8
  audio_log :: "port_write list"
  gctl_log :: "u32 list"

definition audio_static :: audio_t where
  "audio_static = \<lparr>audio_initialized = False, hda_controller_present = False, hda_mmio = 0, hda_bar0 = 0, audio_volume = 128,
     audio_log = [], gctl_log = []\<rparr>"

definition log_writes :: "port_write list \<Rightarrow> audio_t \<Rightarrow> audio_t" where
  "log_writes ws s = s\<lparr>audio_log := audio_log s @ ws\<rparr>"

text \<open>\<open>v\<close> is the value read from the speaker port.\<close>

definition audio_pit_disable :: "u8 \<Rightarrow> audio_t \<Rightarrow> audio_t" where
  "audio_pit_disable v s = log_writes [Outb PC_SPEAKER_PORT (v AND 0xFC)] s"

definition audio_pit_set_frequency :: "u8 \<Rightarrow> u32 \<Rightarrow> audio_t \<Rightarrow> audio_t" where
  "audio_pit_set_frequency v frequency s =
     (if frequency = 0 then audio_pit_disable v s
      else
        let divisor = ucast (PIT_FREQUENCY div frequency) :: u16
        in log_writes [Outb PIT_CONTROL_PORT 0xB6, Outb PIT_CHANNEL_2_PORT (ucast (divisor AND 0xFF)),
             Outb PIT_CHANNEL_2_PORT (ucast (drop_bit 8 divisor AND 0xFF)), Outb PC_SPEAKER_PORT (v OR 0x03)] s)"

text \<open>The number of rounds of the waiting loop; a round changes nothing.\<close>

definition audio_busy_wait :: "u32 \<Rightarrow> nat" where
  "audio_busy_wait milliseconds = unat (ucast milliseconds * 2000 :: u64)"

definition audio_play_tone :: "u8 \<Rightarrow> u8 \<Rightarrow> u32 \<Rightarrow> u32 \<Rightarrow> audio_t \<Rightarrow> audio_t" where
  "audio_play_tone v1 v2 frequency duration_ms s =
     (if \<not> audio_initialized s \<or> frequency = 0 \<or> duration_ms = 0 then audio_pit_disable v1 s
      else audio_pit_disable v2 (audio_pit_set_frequency v1 frequency s))"

definition audio_stop_tone :: "u8 \<Rightarrow> audio_t \<Rightarrow> audio_t" where
  "audio_stop_tone v s = audio_pit_disable v s"

text \<open>\<open>gctl n\<close> is the value of read number \<open>n\<close> of the register: the first one is that of the read-modify-write.\<close>

definition hda_reset :: "(nat \<Rightarrow> u32) \<Rightarrow> audio_t \<Rightarrow> bool \<times> audio_t" where
  "hda_reset gctl s =
     (if hda_mmio s = 0 then (False, s)
      else (find (\<lambda>i. gctl (Suc i) AND HDA_GCTL_RESET = 0) [0..<100000] \<noteq> None,
            s\<lparr>gctl_log := gctl_log s @ [gctl 0 OR HDA_GCTL_RESET]\<rparr>))"

definition hda_enable_bus_master :: "pci_space \<Rightarrow> u8 \<Rightarrow> u8 \<Rightarrow> u8 \<Rightarrow> audio_t \<Rightarrow> bool \<times> audio_t" where
  "hda_enable_bus_master cfg bus device func s =
     (True, log_writes (pci_write_config_dword bus device func 0x04 (pci_read_config_dword cfg bus device func 0x04 OR 6)) s)"

text \<open>\<open>junk\<close> is what the local variable \<^verbatim>\<open>controller\<close> holds before the search.\<close>

definition hda_find_controller :: "pci_space \<Rightarrow> pci_device_t \<Rightarrow> audio_t \<Rightarrow> bool \<times> audio_t" where
  "hda_find_controller cfg junk s =
     (case pci_find_class cfg 0x04 0x03 0x00 (Some junk) of
        (True, Some controller) \<Rightarrow>
          (if pd_bar0 controller = 0 then (False, s)
           else hda_enable_bus_master cfg (pd_bus controller) (pd_device controller) (pd_function controller)
                  (s\<lparr>hda_bar0 := pd_bar0 controller, hda_mmio := ucast (pd_bar0 controller)\<rparr>))
      | _ \<Rightarrow> (False, s))"

definition audio_initialize :: "pci_space \<Rightarrow> pci_device_t \<Rightarrow> (nat \<Rightarrow> u32) \<Rightarrow> audio_t \<Rightarrow> audio_t" where
  "audio_initialize cfg junk gctl s =
     (let s = s\<lparr>audio_volume := 128, audio_initialized := False, hda_controller_present := False, hda_mmio := 0, hda_bar0 := 0\<rparr>;
          (found, s) = hda_find_controller cfg junk s;
          s = (if found
               then let (ok, s) = hda_reset gctl s in
                    if ok then s\<lparr>hda_controller_present := True\<rparr> else s\<lparr>hda_mmio := 0, hda_bar0 := 0\<rparr>
               else s)
      in s\<lparr>audio_initialized := True\<rparr>)"

definition audio_is_ready :: "audio_t \<Rightarrow> bool" where
  "audio_is_ready s \<longleftrightarrow> audio_initialized s \<and> (hda_controller_present s \<or> True)"

definition audio_set_volume :: "u8 \<Rightarrow> audio_t \<Rightarrow> audio_t" where
  "audio_set_volume volume s = s\<lparr>audio_volume := (if unat volume > 255 then 255 else volume)\<rparr>"

definition audio_play_pcm :: "audio_t \<Rightarrow> bool" where
  "audio_play_pcm s = (if \<not> audio_initialized s then False else if \<not> hda_controller_present s then False else False)"

subsection \<open>Properties\<close>

definition speaker_off :: "audio_t \<Rightarrow> bool" where
  "speaker_off s \<longleftrightarrow> (\<exists>v. last (audio_log s) = Outb PC_SPEAKER_PORT v \<and> v AND 3 = 0)"

text \<open>
  The frequency that the timer gets: the two bytes written to channel 2 are the low and the high byte of the divisor, and together they are the quotient of the clock
  and the frequency as long as that fits 16 bits, which it does from 19 Hz on. Below, the quotient is cut off modulo 65536. Whatever the
  arguments, the speaker is off at the end.
\<close>

theorem audio_play_tone_divisor:
  assumes "audio_initialized s" "frequency \<noteq> 0" "duration_ms \<noteq> 0"
  shows "\<exists>lo hi. audio_log (audio_play_tone v1 v2 frequency duration_ms s) = audio_log s @
      [Outb PIT_CONTROL_PORT 0xB6, Outb PIT_CHANNEL_2_PORT lo, Outb PIT_CHANNEL_2_PORT hi, Outb PC_SPEAKER_PORT (v1 OR 3),
       Outb PC_SPEAKER_PORT (v2 AND 0xFC)] \<and>
    unat lo + 256 * unat hi = (1193180 div unat frequency) mod 65536 \<and>
    (19 \<le> frequency \<longrightarrow> unat lo + 256 * unat hi = 1193180 div unat frequency) \<and>
    speaker_off (audio_play_tone v1 v2 frequency duration_ms s)"
proof -
  define d where "d = (ucast (PIT_FREQUENCY div frequency) :: u16)"
  have d: "unat d = (1193180 div unat frequency) mod 65536" by (simp add: d_def word_nat_simps)
  let ?lo = "ucast (d AND 0xFF) :: u8" and ?hi = "ucast (drop_bit 8 d AND 0xFF) :: u8"
  have "unat d < 65536" using unsigned_less [of d, where 'a = nat] by simp
  then have "unat ?lo = unat d mod 256" "unat ?hi = unat d div 256"
    by (simp_all add: word_nat_simps less_mult_imp_div_less)
  then have sum: "unat ?lo + 256 * unat ?hi = unat d" by simp
  have small: "1193180 div unat frequency < 65536" if "19 \<le> frequency"
  proof -
    have "19 \<le> unat frequency" using that by (simp add: word_le_nat_alt)
    then have "1193180 div unat frequency \<le> 1193180 div 19" by (rule div_le_mono2 [rotated]) simp
    then show ?thesis by simp
  qed
  have off: "(v2 AND 0xFC) AND 3 = 0" by (simp add: and.assoc)
  have log: "audio_log (audio_play_tone v1 v2 frequency duration_ms s) = audio_log s @
      [Outb PIT_CONTROL_PORT 0xB6, Outb PIT_CHANNEL_2_PORT ?lo, Outb PIT_CHANNEL_2_PORT ?hi, Outb PC_SPEAKER_PORT (v1 OR 3),
       Outb PC_SPEAKER_PORT (v2 AND 0xFC)]"
    using assms by (simp add: audio_play_tone_def audio_pit_set_frequency_def audio_pit_disable_def log_writes_def d_def Let_def)
  show ?thesis
    using log sum d small off by (intro exI [of _ ?lo] exI [of _ ?hi]) (auto simp: speaker_off_def)
qed

lemma find_controller_keeps:
  assumes "hda_find_controller cfg junk s = (found, t)"
  shows "hda_controller_present t = hda_controller_present s" "\<not> found \<Longrightarrow> t = s"
proof -
  obtain f out where p: "pci_find_class cfg 0x04 0x03 0x00 (Some junk) = (f, out)" by (rule prod.exhaust)
  show "hda_controller_present t = hda_controller_present s" "\<not> found \<Longrightarrow> t = s"
    using assms p
    by (cases f; cases out; auto simp: hda_find_controller_def hda_enable_bus_master_def log_writes_def split: if_splits)+
qed

text \<open>
  \<^verbatim>\<open>hda_reset\<close> sets the reset bit and waits for it to become 0. On a controller whose bit reads back as it was written, as the specification demands
  for leaving the reset, it gives up after 100000 reads and the controller is not used; sound stays with the PC speaker.
\<close>

theorem hda_never_accepted:
  assumes "\<forall>n. gctl (Suc n) AND HDA_GCTL_RESET = HDA_GCTL_RESET"
  shows "\<not> hda_controller_present (audio_initialize cfg junk gctl s) \<and> hda_mmio (audio_initialize cfg junk gctl s) = 0 \<and>
    audio_is_ready (audio_initialize cfg junk gctl s)"
proof -
  have "hda_reset gctl t = (False, if hda_mmio t = 0 then t else t\<lparr>gctl_log := gctl_log t @ [gctl 0 OR HDA_GCTL_RESET]\<rparr>)" for t
    using assms by (simp add: hda_reset_def find_None_iff)
  moreover obtain found t where t: "hda_find_controller cfg junk
      (s\<lparr>audio_volume := 128, audio_initialized := False, hda_controller_present := False, hda_mmio := 0, hda_bar0 := 0\<rparr>) = (found, t)"
    by (rule prod.exhaust)
  moreover have "\<not> hda_controller_present t \<and> (\<not> found \<longrightarrow> hda_mmio t = 0)"
    using find_controller_keeps [OF t] by auto
  ultimately show ?thesis by (simp add: audio_initialize_def audio_is_ready_def)
qed

theorem audio_play_tone_divisor_witness:
  "\<exists>lo hi. audio_log (audio_play_tone 0 3 880 100 (audio_static\<lparr>audio_initialized := True\<rparr>)) =
     [Outb 0x43 0xB6, Outb 0x42 lo, Outb 0x42 hi, Outb 0x61 3, Outb 0x61 0] \<and> unat lo + 256 * unat hi = 1355"
  using audio_play_tone_divisor [of "audio_static\<lparr>audio_initialized := True\<rparr>" 880 100 0 3]
  by (auto simp: audio_static_def)

theorem hda_never_accepted_witness:
  "\<not> hda_controller_present (audio_initialize (\<lambda>_. 0x04030000) (fill_device (\<lambda>_. 0) (0, 0, 0)) (\<lambda>_. 1) audio_static)"
  using hda_never_accepted [of "\<lambda>_. 1"] by simp

end
