(* ===== verification/Kernel.thy ===== *)
theory Kernel
  imports Multiboot Console Audio Vmm Kheap Syscalls Interrupts Clipboard File_Ops Usb Ahci Fat32 Services
begin

text \<open>
  \<^verbatim>\<open>kernel_main\<close> of \<^verbatim>\<open>kernel.c\<close>: the start of all components in the order of the code, the first tasks, and the main loop. The state is that of all
  components; everything the machine contributes (addresses of code and data, the boot loader's structure, what devices deliver) is the record
  \<open>machine_t\<close>. The disk driver below the file system is represented by the sectors it delivers.
  The log messages that \<^verbatim>\<open>kprintf\<close> sends to the serial port between the steps are left out; \<^verbatim>\<open>kprintf\<close> itself is modelled in
  the theory Console.

  The theorems show what state the start leaves: the frames that are free, the invariants of the components, the queue of tasks, and
  where the components do not fit together.
\<close>

subsection \<open>State\<close>

record kernel_t =
  k_serial :: serial_io
  k_interrupts :: interrupts_t
  k_ports :: "port_write list"
  k_pmm :: pmm_t
  k_vmm :: vmm_t
  k_heap :: heap_t
  k_msrs :: msrs
  k_desktop :: desktop_t
  k_clipboard :: clipboard_t
  k_files :: file_ops_t
  k_usb :: usb_t
  k_audio :: audio_t
  k_net :: net_t
  k_mouse :: mouse_t
  k_keyboard :: keyboard_t
  k_ahci :: ahci_t
  k_fat32 :: fat32_t
  k_services :: services_t
  kernel_initialized :: bool

record machine_t =
  m_stub :: "nat \<Rightarrow> u64"
  m_idt :: u64
  m_pit_tick :: u64
  m_multiboot :: "mb_mem option"
  m_pml4 :: u64
  m_pdpt :: u64
  m_syscall_entry :: u64
  m_wrapper :: u64
  m_stacks :: u64
  m_apps :: "u64 \<times> u64 \<times> u64"
  m_idle :: u64
  m_shell :: u64
  m_service_entries :: "u64 list"
  m_generic_service :: u64
  m_pci :: pci_space
  m_mmio8 :: "u64 \<Rightarrow> u8"
  m_mmio32 :: "u64 \<Rightarrow> u32"
  m_usb :: usb_layout
  m_portsc :: "nat \<Rightarrow> u32"
  m_mouse_status :: "nat \<Rightarrow> u8"
  m_mouse_response :: u8
  m_junk_device :: pci_device_t
  m_gctl :: "nat \<Rightarrow> u32"
  m_speaker :: "u8 \<times> u8"
  m_net :: net_layout
  m_mac :: "nat \<Rightarrow> u8"
  m_nic :: nic
  m_ahci :: ahci_layout
  m_ahci_pi :: u32
  m_ahci_regs :: "nat \<Rightarrow> ahci_port_mem_t"
  m_ahci_reads :: "nat \<Rightarrow> u32 list"
  m_disk :: disk
  m_junk :: "u8 list"
  m_fresh :: "u64 \<Rightarrow> u8 list"

subsection \<open>The start\<close>

definition pit_tick :: "sched_t \<Rightarrow> sched_t" where
  "pit_tick = request_schedule"

text \<open>One round of the idle task, after the \<^verbatim>\<open>hlt\<close>.\<close>

definition idle_task_func :: "sched_t \<Rightarrow> sched_t option" where
  "idle_task_func = task_yield"

text \<open>From the serial port to the scheduler.\<close>

definition kernel_core_init :: "machine_t \<Rightarrow> kernel_t \<Rightarrow> kernel_t option" where
  "kernel_core_init m k =
     (let k = k\<lparr>k_serial := serial_initialize (k_serial k)\<rparr>;
          (ints, pic) = idt_initialize (m_stub m) (m_idt m) (k_interrupts k);
          ints = set_interrupt_handler 32 (m_pit_tick m) ints
      in Option.bind (pit_initialize 100) (\<lambda>pit.
         Option.bind (kernel_memory_setup (m_multiboot m) (k_pmm k)) (\<lambda>(max_memory, p).
           let d = k_desktop k in
           Some (k\<lparr>k_interrupts := ints, k_ports := k_ports k @ pic @ pit, k_pmm := p,
                   k_vmm := vmm_initialize (m_pml4 m) (m_pdpt m) (k_vmm k),
                   k_heap := heap_initialize (k_heap k),
                   k_msrs := enable_syscall_engine (m_syscall_entry m) (k_msrs k),
                   k_desktop := d\<lparr>sched := scheduler_initialize (sched d)\<rparr>\<rparr>))))"

text \<open>From the screen to the first picture of the desktop.\<close>

definition kernel_desktop_init :: "machine_t \<Rightarrow> kernel_t \<Rightarrow> kernel_t" where
  "kernel_desktop_init m k =
     (let d = k_desktop k;
          d = d\<lparr>vga := vga_clear_screen (vga_initialize (vga d))\<rparr>;
          d = gui_initialize d;
          d = d\<lparr>gui := gui_set_resolution 80 24 (gui d)\<rparr>;
          d = d\<lparr>notif := notification_post ''Welcome'' ''System started'' 0 (notification_center_initialize (notif d))\<rparr>;
          d = d\<lparr>control_visible := control_center_initialize (control_visible d)\<rparr>;
          k = k\<lparr>k_clipboard := clipboard_initialize (k_clipboard k), k_files := file_ops_initialize (k_files k)\<rparr>;
          (files_app, terminal_app, settings_app) = m_apps m;
          d = d\<lparr>launcher := app_launcher_initialize files_app terminal_app settings_app (launcher d)\<rparr>;
          d = d\<lparr>gui := gui_open_window (Some ''System Console'') 10 3 40 12 (gui d)\<rparr>;
          d = d\<lparr>gui := gui_open_window (Some ''Task Monitor'') 52 3 26 10 (gui d)\<rparr>;
          d = d\<lparr>gui := gui_open_window (Some ''File Manager'') 15 14 50 8 (gui d)\<rparr>;
          d = d\<lparr>wm := window_manager_initialize (wm d)\<rparr>;
          d = d\<lparr>wm := window_manager_create_window 2 2 36 10 (Some ''System Console'') (wm d)\<rparr>;
          d = d\<lparr>wm := window_manager_create_window 40 2 36 10 (Some ''Task Monitor'') (wm d)\<rparr>;
          d = d\<lparr>vga := gui_render d\<rparr>
      in k\<lparr>k_desktop := d\<rparr>)"

text \<open>From the USB controller to the file system.\<close>

definition kernel_drivers_init :: "machine_t \<Rightarrow> kernel_t \<Rightarrow> kernel_t option" where
  "kernel_drivers_init m k =
     (let (u, _) = usb_initialize (m_pci m) (m_mmio8 m) (m_mmio32 m) (m_usb m) (k_usb k);
          k = k\<lparr>k_usb := u\<rparr>;
          a = audio_initialize (m_pci m) (m_junk_device m) (m_gctl m) (k_audio k);
          a = (if audio_is_ready a then audio_play_tone (fst (m_speaker m)) (snd (m_speaker m)) 880 100 (audio_set_volume 128 a) else a);
          k = k\<lparr>k_audio := a\<rparr>
      in Option.bind (network_initialize (m_net m) (m_pci m) (m_junk_device m) (m_mac m) (m_nic m) (k_net k)) (\<lambda>(_, n).
         let k = k\<lparr>k_net := n\<rparr>;
             ((mo, u), out, _) = mouse_initialize (m_pci m) (m_mmio8 m) (m_mmio32 m) (m_usb m) (m_portsc m) (m_mouse_status m)
                                   (m_mouse_response m) (k_mouse k, k_usb k);
             k = k\<lparr>k_mouse := mo, k_usb := u, k_ports := k_ports k @ out\<rparr>
         in Option.bind (ahci_initialize (m_ahci m) (m_pci m) (m_ahci_pi m) (m_ahci_regs m) (m_ahci_reads m) (k_ahci k)) (\<lambda>(out, a).
            let k = k\<lparr>k_ahci := a, k_ports := k_ports k @ out\<rparr>
            in map_option (\<lambda>(h, f). k\<lparr>k_heap := h, k_fat32 := f\<rparr>)
                 (fat32_initialize (m_disk m) (m_junk m) (m_fresh m) (k_heap k) (k_fat32 k)))))"

text \<open>From the end of the start to the main loop.\<close>

definition kernel_start_tasks :: "machine_t \<Rightarrow> kernel_t \<Rightarrow> kernel_t option" where
  "kernel_start_tasks m k =
     (let k = k\<lparr>kernel_initialized := True, k_keyboard := keyboard_initialize (k_keyboard k)\<rparr>
      in Option.bind (create_task (m_wrapper m) (m_stacks m) ''idle'' (m_idle m) 0 (sched (k_desktop k))) (\<lambda>(_, sch).
         Option.bind (create_task (m_wrapper m) (m_stacks m) ''shell'' (m_shell m) 1 sch) (\<lambda>(_, sch).
           map_option (\<lambda>(srv, sch). k\<lparr>k_services := srv, k_desktop := (k_desktop k)\<lparr>sched := sch\<rparr>\<rparr>)
             (background_services_initialize (m_wrapper m) (m_stacks m) (m_service_entries m) (m_generic_service m) (k_services k, sch)))))"

definition kernel_main_init :: "machine_t \<Rightarrow> kernel_t \<Rightarrow> kernel_t option" where
  "kernel_main_init m k =
     Option.bind (kernel_core_init m k) (\<lambda>k.
     Option.bind (kernel_drivers_init m (kernel_desktop_init m k)) (kernel_start_tasks m))"

text \<open>One round of the main loop, up to the \<^verbatim>\<open>hlt\<close>.\<close>

definition kernel_loop_round :: "kernel_t \<Rightarrow> kernel_t option" where
  "kernel_loop_round k =
     (if scheduler_pending (sched (k_desktop k))
      then map_option (\<lambda>sch. k\<lparr>k_desktop := (k_desktop k)\<lparr>sched := sch\<rparr>\<rparr>) (schedule (sched (k_desktop k)))
      else Some k)"

text \<open>\<^verbatim>\<open>kpanic\<close> clears the screen before it halts the processor for good; its messages go to the serial port.\<close>

definition kpanic :: "kernel_t \<Rightarrow> kernel_t" where
  "kpanic k = k\<lparr>k_desktop := (k_desktop k)\<lparr>vga := vga_clear_screen (vga (k_desktop k))\<rparr>\<rparr>"

subsection \<open>Memory after the start\<close>

text \<open>The kernel is started by a boot loader that passes a memory map, with its static data as the linker made them.\<close>

definition boot_ok :: "machine_t \<Rightarrow> kernel_t \<Rightarrow> mb_tag list \<Rightarrow> bool" where
  "boot_ok m k tags \<longleftrightarrow> (\<exists>mb. m_multiboot m = Some mb \<and> mem_holds mb 0 (info_bytes tags)) \<and> info_ok tags \<and>
     (\<forall>e \<in> set (mmap_regions tags). region_fits e) \<and> has_mmap tags \<and> 0 < regions_top (mmap_regions tags) \<and>
     k_pmm k = pmm_static \<and> tables_sized (k_vmm k) \<and> page_aligned (m_pdpt m) \<and>
     (\<exists>c mem. sched (k_desktop k) = sched_static c mem)"

lemma memory_setup_facts:
  assumes "mem_holds mb 0 (info_bytes tags)" "info_ok tags" "\<forall>e \<in> set (mmap_regions tags). region_fits e"
    "has_mmap tags" "0 < regions_top (mmap_regions tags)"
  obtains top s where "kernel_memory_setup (Some mb) pmm_static = Some (top, s)" "pmm_inv s"
    "free_set s = {f. 512 \<le> f \<and> f < (regions_top (mmap_regions tags) + 4095) div 4096 \<and> f < BITMAP_WORDS * 64 \<and>
       (\<exists>e \<in> set (mmap_regions tags). region_touches e f)}"
proof -
  obtain top s where s: "kernel_memory_setup (Some mb) pmm_static = Some (top, s)" "pmm_inv s" and top: "unat top = regions_top (mmap_regions tags)"
    and free: "free_set s = {f. 512 \<le> f \<and> f < (unat top + 4095) div 4096 \<and> f < BITMAP_WORDS * 64 \<and>
       (\<exists>e \<in> set (mmap_regions tags). region_touches e f)}"
    using memory_setup_free [OF assms] by blast
  show thesis by (rule that [OF s free [unfolded top]])
qed

lemma core_init_effect:
  assumes "boot_ok m k tags"
  obtains k' where "kernel_core_init m k = Some k'" "pmm_inv (k_pmm k')"
    "free_set (k_pmm k') = {f. 512 \<le> f \<and> f < (regions_top (mmap_regions tags) + 4095) div 4096 \<and> f < BITMAP_WORDS * 64 \<and>
       (\<exists>e \<in> set (mmap_regions tags). region_touches e f)}"
    "k_heap k' = heap_initialize (k_heap k)" "k_vmm k' = vmm_initialize (m_pml4 m) (m_pdpt m) (k_vmm k)"
    "sched_inv (sched (k_desktop k')) []" "task_count (sched (k_desktop k')) = 0"
proof -
  obtain mb where mb: "m_multiboot m = Some mb" "mem_holds mb 0 (info_bytes tags)" using assms by (auto simp: boot_ok_def)
  have ok: "info_ok tags" "\<forall>e \<in> set (mmap_regions tags). region_fits e" "has_mmap tags" "0 < regions_top (mmap_regions tags)" "k_pmm k = pmm_static"
    using assms by (simp_all add: boot_ok_def)
  obtain top s where s: "kernel_memory_setup (Some mb) pmm_static = Some (top, s)" "pmm_inv s"
    "free_set s = {f. 512 \<le> f \<and> f < (regions_top (mmap_regions tags) + 4095) div 4096 \<and> f < BITMAP_WORDS * 64 \<and>
       (\<exists>e \<in> set (mmap_regions tags). region_touches e f)}"
    by (rule memory_setup_facts [OF mb(2) ok(1-4)])
  obtain c mem where sch: "sched (k_desktop k) = sched_static c mem" using assms by (auto simp: boot_ok_def)
  obtain ints pic where ints: "idt_initialize (m_stub m) (m_idt m) (k_interrupts k) = (ints, pic)" by (rule prod.exhaust)
  obtain pit where pit: "pit_initialize 100 = Some pit" by (simp add: pit_initialize_def)
  let ?k' = "k\<lparr>k_serial := serial_initialize (k_serial k), k_interrupts := set_interrupt_handler 32 (m_pit_tick m) ints,
      k_ports := k_ports k @ pic @ pit, k_pmm := s, k_vmm := vmm_initialize (m_pml4 m) (m_pdpt m) (k_vmm k),
      k_heap := heap_initialize (k_heap k), k_msrs := enable_syscall_engine (m_syscall_entry m) (k_msrs k),
      k_desktop := (k_desktop k)\<lparr>sched := scheduler_initialize (sched_static c mem)\<rparr>\<rparr>"
  have "kernel_core_init m k = Some ?k'"
    by (simp add: kernel_core_init_def ints pit mb(1) ok(5) s(1) sch)
  moreover have "task_count (scheduler_initialize (sched_static c mem)) = 0" by (simp add: scheduler_initialize_def)
  ultimately show thesis using that [of ?k'] s(2,3) sched_init_inv [of c mem] by simp
qed

lemma walk_low:
  assumes "tables_sized s" "page_aligned pdpt" "v < 0x180000000"
  shows "page_walk pdpt (vmm_initialize pml4 pdpt s) v = Some v"
  using page_walk_huge [OF assms(1,2), of v] low_address_indices [OF assms(3)] join_1gb_page [of v] by simp

lemma walk_high:
  assumes "tables_sized s" "0x180000000 \<le> unat v" "unat v < 2 ^ 39"
  shows "page_walk pdpt (vmm_initialize pml4 pdpt s) v = None"
proof -
  have m: "(0x1FF :: u64) = mask 9" by (simp add: mask_eq_exp_minus_1)
  have "unat (PDPT_INDEX v) = (unat v div 2 ^ 30) mod 512"
    unfolding PDPT_INDEX_def m by (simp add: unat_and_mask unat_drop_bit_div)
  moreover have "6 \<le> unat v div 2 ^ 30" using div_le_mono [OF assms(2), of "2 ^ 30"] by simp
  moreover have "unat v div 2 ^ 30 < 512" using assms(3) by (simp add: less_mult_imp_div_less)
  ultimately have "\<not> unat (PDPT_INDEX v) < 6" "unat (PDPT_INDEX v) < 512" by simp_all
  then show ?thesis by (simp add: page_walk_def vmm_initialize_pdpt [OF assms(1)])
qed

subsection \<open>Properties\<close>

text \<open>
  C11: The memory part of the start, put together: with a memory map from the boot loader it returns; the frame allocator and the heap satisfy their invariants, no task
  exists yet, and every free frame below 6 GB can be used at once, because the page tables map its address to itself.
\<close>

theorem kernel_memory_ready:
  assumes "boot_ok m k tags"
  shows "\<exists>k'. kernel_core_init m k = Some k' \<and> pmm_inv (k_pmm k') \<and> heap_inv (k_heap k') \<and> sched_inv (sched (k_desktop k')) [] \<and>
    free_set (k_pmm k') = {f. 512 \<le> f \<and> f < (regions_top (mmap_regions tags) + 4095) div 4096 \<and> f < BITMAP_WORDS * 64 \<and>
       (\<exists>e \<in> set (mmap_regions tags). region_touches e f)} \<and>
    (\<forall>f \<in> free_set (k_pmm k'). f < 0x180000 \<longrightarrow> page_walk (m_pdpt m) (k_vmm k') (of_nat f * 4096) = Some (of_nat f * 4096))"
proof -
  obtain k' where k': "kernel_core_init m k = Some k'" "pmm_inv (k_pmm k')"
    "free_set (k_pmm k') = {f. 512 \<le> f \<and> f < (regions_top (mmap_regions tags) + 4095) div 4096 \<and> f < BITMAP_WORDS * 64 \<and>
       (\<exists>e \<in> set (mmap_regions tags). region_touches e f)}"
    "k_heap k' = heap_initialize (k_heap k)" "k_vmm k' = vmm_initialize (m_pml4 m) (m_pdpt m) (k_vmm k)" "sched_inv (sched (k_desktop k')) []"
    by (rule core_init_effect [OF assms])
  have "page_walk (m_pdpt m) (k_vmm k') (of_nat f * 4096) = Some (of_nat f * 4096)" if "f < 0x180000" for f
  proof -
    have "unat (of_nat f * 4096 :: u64) < 0x180000000" using frame_address_unat(1) [of f] that by simp
    then show ?thesis unfolding k'(5) using assms by (intro walk_low) (simp_all add: boot_ok_def word_less_nat_alt)
  qed
  then show ?thesis using k' heap_initialize_inv [of "k_heap k"] by auto
qed

text \<open>
  C24: The two allocators of the kernel give out the same memory: only the first 2 MB are reserved in the frame bitmap, and the heap begins there. When the frame
  at 2 MB is available, the first frame and the first large block of the heap are both at address 0x200000.
\<close>

theorem frame_allocator_overlaps_heap:
  assumes "boot_ok m k tags" "e \<in> set (mmap_regions tags)" "region_touches e 512" "256 < sz" "sz \<le> 0x100000"
  shows "\<exists>k'. kernel_core_init m k = Some k' \<and> fst (pmm_allocate_frame (k_pmm k')) = 0x200000 \<and> fst (kmalloc sz owner (k_heap k')) = 0x200000"
proof -
  obtain k' where k': "kernel_core_init m k = Some k'" "pmm_inv (k_pmm k')"
    "free_set (k_pmm k') = {f. 512 \<le> f \<and> f < (regions_top (mmap_regions tags) + 4095) div 4096 \<and> f < BITMAP_WORDS * 64 \<and>
       (\<exists>e \<in> set (mmap_regions tags). region_touches e f)}" "k_heap k' = heap_initialize (k_heap k)"
    by (rule core_init_effect [OF assms(1)])
  have "512 * 4096 < regions_top (mmap_regions tags)"
    using regions_top_max [OF assms(2)] assms(3) by (simp add: region_touches_def)
  then have "512 < (regions_top (mmap_regions tags) + 4095) div 4096"
    using div_le_mono [of "513 * 4096" "regions_top (mmap_regions tags) + 4095" 4096] by simp
  then have m: "512 \<in> free_set (k_pmm k')" using assms(2,3) unfolding k'(3) by auto
  have "Min (free_set (k_pmm k')) = 512"
    using m by (intro Min_eqI) (simp_all, simp add: k'(3))
  moreover have "free_set (k_pmm k') \<noteq> {}" using m by blast
  ultimately have "fst (pmm_allocate_frame (k_pmm k')) = 0x200000"
    using pmm_allocate_frame_Min [OF k'(2)] by simp
  moreover have "fst (kmalloc sz owner (k_heap k')) = 0x200000"
  proof -
    have "slab_cache_index sz = None" "sz \<noteq> 0" using assms(4) by (auto simp: slab_cache_index_def word_less_nat_alt word_le_nat_alt)
    moreover have "first_idx (\<lambda>b. \<not> bb_used b \<and> bb_size b \<ge> sz) (take 64 (buddy_blocks (heap_initialize (k_heap k)))) = Some 0"
      using assms(5) by (intro first_idx_SomeI) (simp_all add: heap_initialize_def init_buddy_blocks_def)
    ultimately show ?thesis
      unfolding k'(4) by (simp add: kmalloc_def buddy_alloc_def) (simp add: heap_initialize_def init_buddy_blocks_def)
  qed
  ultimately show ?thesis using k'(1) by blast
qed

text \<open>
  The frame bitmap reaches up to 32 GB but the page tables map only 6 GB: on a larger machine the allocator hands out frames that the kernel cannot access
  at their address.
\<close>

theorem frames_beyond_6gb_unmapped:
  assumes "boot_ok m k tags" "e \<in> set (mmap_regions tags)" "region_touches e f" "0x180000 \<le> f" "f < BITMAP_WORDS * 64"
  shows "\<exists>k'. kernel_core_init m k = Some k' \<and> f \<in> free_set (k_pmm k') \<and> page_walk (m_pdpt m) (k_vmm k') (of_nat f * 4096) = None"
proof -
  obtain k' where k': "kernel_core_init m k = Some k'"
    "free_set (k_pmm k') = {f. 512 \<le> f \<and> f < (regions_top (mmap_regions tags) + 4095) div 4096 \<and> f < BITMAP_WORDS * 64 \<and>
       (\<exists>e \<in> set (mmap_regions tags). region_touches e f)}" "k_vmm k' = vmm_initialize (m_pml4 m) (m_pdpt m) (k_vmm k)"
    by (rule core_init_effect [OF assms(1)])
  have "f * 4096 < regions_top (mmap_regions tags)"
    using regions_top_max [OF assms(2)] assms(3) by (simp add: region_touches_def)
  then have "f < (regions_top (mmap_regions tags) + 4095) div 4096"
    using div_le_mono [of "(f + 1) * 4096" "regions_top (mmap_regions tags) + 4095" 4096] by simp
  then have "f \<in> free_set (k_pmm k')" using assms(2-5) unfolding k'(2) by auto
  moreover have "page_walk (m_pdpt m) (k_vmm k') (of_nat f * 4096) = None"
    unfolding k'(3) by (rule walk_high) (use assms(1,4,5) in \<open>simp_all add: boot_ok_def frame_address_unat(1)\<close>)
  ultimately show ?thesis using k'(1) by blast
qed

subsection \<open>The first tasks\<close>

lemma start_tasks_effect:
  assumes "sched_inv (sched (k_desktop k)) []" "task_count (sched (k_desktop k)) = 0" "k_services k = services_static"
  obtains k' where "kernel_start_tasks m k = Some k'" "sched_inv (sched (k_desktop k')) [0..<202]" "current_task (sched (k_desktop k')) = Some 0"
    "cpu (sched (k_desktop k')) = cpu (sched (k_desktop k))" "kernel_initialized k'"
proof -
  let ?s = "sched (k_desktop k)"
  obtain s1 where s1: "create_task (m_wrapper m) (m_stacks m) ''idle'' (m_idle m) 0 ?s = Some (Some 0, s1)" "sched_inv s1 [0]"
    "current_task s1 = Some 0" "task_count s1 = 1" "cpu s1 = cpu ?s"
    using create_task_inv [OF assms(1), of "m_wrapper m" "m_stacks m" "''idle''" "m_idle m" 0] assms(2) by auto
  obtain s2 where s2: "create_task (m_wrapper m) (m_stacks m) ''shell'' (m_shell m) 1 s1 = Some (Some 1, s2)" "sched_inv s2 [0, 1]"
    "current_task s2 = Some 0" "task_count s2 = 2" "cpu s2 = cpu s1"
    using create_task_inv [OF s1(2), of "m_wrapper m" "m_stacks m" "''shell''" "m_shell m" 1] s1(3,4) by auto
  obtain srv s3 where s3: "background_services_initialize (m_wrapper m) (m_stacks m) (m_service_entries m) (m_generic_service m) (services_static, s2) = Some (srv, s3)"
    "sched_inv s3 ([0, 1] @ map (\<lambda>i. 2 + i) [0..<200])" "current_task s3 = current_task s2" "cpu s3 = cpu s2"
    using background_services_run [OF s2(2), of "m_wrapper m" "m_stacks m" "m_service_entries m" "m_generic_service m"] s2(4) by auto
  have "[0, 1] @ map (\<lambda>i. 2 + i) [0..<200] = [0..<202 :: nat]"
    using map_add_upt [of 2 200] upt_add_eq_append [of 0 2 200] by (simp add: add.commute upt_rec [of 0 2] upt_rec [of 1 2] numeral_2_eq_2)
  then have inv: "sched_inv s3 [0..<202]" using s3(2) by simp
  let ?k' = "k\<lparr>kernel_initialized := True, k_keyboard := keyboard_initialize (k_keyboard k), k_services := srv,
      k_desktop := (k_desktop k)\<lparr>sched := s3\<rparr>\<rparr>"
  have "kernel_start_tasks m k = Some ?k'" by (simp add: kernel_start_tasks_def s1(1) s2(1) s3(1) assms(3))
  then show thesis using that [of ?k'] inv s3(3,4) s2(3,5) s1(5) by simp
qed

text \<open>
  C22: The start creates 202 tasks: the idle task, the shell and the services, in one queue, and the idle task counts as the running one although the processor still
  executes \<^verbatim>\<open>kernel_main\<close>. So the first tick of the timer that the main loop sees switches to the shell and saves the context of
  the main loop as that of the idle task: the main loop plays the idle task from then on.
\<close>

theorem kernel_tasks_started:
  assumes "sched_inv (sched (k_desktop k)) []" "task_count (sched (k_desktop k)) = 0" "k_services k = services_static"
  shows "\<exists>k' k''. kernel_start_tasks m k = Some k' \<and> sched_inv (sched (k_desktop k')) [0..<202] \<and> current_task (sched (k_desktop k')) = Some 0 \<and>
    kernel_loop_round (k'\<lparr>k_desktop := (k_desktop k')\<lparr>sched := pit_tick (sched (k_desktop k'))\<rparr>\<rparr>) = Some k'' \<and>
    sched_inv (sched (k_desktop k'')) [0..<202] \<and> current_task (sched (k_desktop k'')) = Some 1 \<and> \<not> scheduler_pending (sched (k_desktop k'')) \<and>
    tcb_stack_pointer (task_table (sched (k_desktop k'')) ! 0) = rsp (cpu (sched (k_desktop k))) - 48"
proof -
  obtain k' where k': "kernel_start_tasks m k = Some k'" "sched_inv (sched (k_desktop k')) [0..<202]" "current_task (sched (k_desktop k')) = Some 0"
    "cpu (sched (k_desktop k')) = cpu (sched (k_desktop k))"
    by (rule start_tasks_effect [OF assms])
  let ?s = "pit_tick (sched (k_desktop k'))"
  have s: "sched_inv ?s [0..<202]" "current_task ?s = Some ([0..<202] ! 0)" "schedule_requested ?s" "cpu ?s = cpu (sched (k_desktop k))"
    using k'(2,3,4) by (simp_all add: pit_tick_def request_schedule_def sched_inv_def)
  obtain t where t: "task_yield ?s = Some t" "sched_inv t [0..<202]" "current_task t = Some 1" "schedule_requested t = False"
    "(tcb_stack_pointer (task_table t ! 0), cpu t, mem t) = switch_task_context (tcb_stack_pointer (task_table ?s ! 1)) (cpu ?s, mem ?s)"
    using task_yield_inv [OF s(1) _ s(2)] by auto
  have "tcb_stack_pointer (task_table t ! 0) = rsp (cpu (sched (k_desktop k))) - 48"
    using t(5) s(4) by (simp add: switch_task_context_eq)
  then show ?thesis
    using k'(1-3) t s(3) by (auto simp: kernel_loop_round_def scheduler_pending_def schedule_def)
qed

subsection \<open>The desktop after the start\<close>

lemma desktop_init_parts:
  fixes k m
  defines "d \<equiv> k_desktop k" and "e \<equiv> k_desktop (kernel_desktop_init m k)"
  shows "gui e = gui_open_window (Some ''File Manager'') 15 14 50 8 (gui_open_window (Some ''Task Monitor'') 52 3 26 10
      (gui_open_window (Some ''System Console'') 10 3 40 12 (gui (gui_initialize d))))"
    "wm e = window_manager_create_window 40 2 36 10 (Some ''Task Monitor'')
      (window_manager_create_window 2 2 36 10 (Some ''System Console'') (window_manager_initialize (wm d)))"
    "notif e = notification_post ''Welcome'' ''System started'' 0 (notification_center_initialize (notif d))"
    "\<not> control_visible e" "m_apps m = (f, t, g) \<Longrightarrow> launcher e = app_launcher_initialize f t g (launcher d)" "sched e = sched d"
    "vga_inv (vga d) \<Longrightarrow> vga_inv (vga e)"
proof -
  have "screen_width (gui (gui_initialize x)) = 80" "screen_height (gui (gui_initialize x)) = 24" for x by (simp_all add: gui_initialize_def)
  then have res: "gui_set_resolution 80 24 (gui (gui_initialize x)) = gui (gui_initialize x)" for x by (simp add: gui_set_resolution_def)
  have clear: "vga_inv (vga_clear_screen v)" if "vga_inv v" for v using that by (simp add: vga_clear_screen_def vga_inv_def Let_def)
  have init: "vga_inv (vga_initialize v)" if "vga_inv v" for v using that by (simp add: vga_initialize_def vga_inv_def)
  obtain f' t' g' where apps: "m_apps m = (f', t', g')" by (cases "m_apps m") auto
  note [simp] = res control_center_initialize_def
  note un = e_def d_def kernel_desktop_init_def Let_def apps
  have keep: "wm (gui_initialize x) = wm x" "notif (gui_initialize x) = notif x" "launcher (gui_initialize x) = launcher x"
    "sched (gui_initialize x) = sched x"
    "vga (gui_initialize x) = vga_clear_screen (vga x)" "gui (gui_initialize (x\<lparr>vga := v\<rparr>)) = gui (gui_initialize x)" for x v
    by (simp_all add: gui_initialize_def)
  show "gui e = gui_open_window (Some ''File Manager'') 15 14 50 8 (gui_open_window (Some ''Task Monitor'') 52 3 26 10
      (gui_open_window (Some ''System Console'') 10 3 40 12 (gui (gui_initialize d))))"
    unfolding un by (simp add: keep)
  show "wm e = window_manager_create_window 40 2 36 10 (Some ''Task Monitor'')
      (window_manager_create_window 2 2 36 10 (Some ''System Console'') (window_manager_initialize (wm d)))"
    unfolding un by (simp add: keep)
  show "notif e = notification_post ''Welcome'' ''System started'' 0 (notification_center_initialize (notif d))"
    unfolding un by (simp add: keep)
  show "\<not> control_visible e" unfolding un by simp
  show "launcher e = app_launcher_initialize f t g (launcher d)" if "m_apps m = (f, t, g)"
    using that unfolding un by (simp add: keep)
  show "sched e = sched d" unfolding un by (simp add: keep)
  show "vga_inv (vga e)" if "vga_inv (vga d)"
    using that unfolding un by (simp, intro render_invariant) (simp add: keep clear init)
qed

lemma first_windows:
  fixes s
  defines "w \<equiv> window_manager_create_window 40 2 36 10 (Some ''Task Monitor'')
    (window_manager_create_window 2 2 36 10 (Some ''System Console'') (window_manager_initialize s))"
  assumes "length (windows s) = MAX_WINDOWS"
  shows "wm_inv w"
    "take (window_count w) (windows w) =
       [\<lparr>win_id = 1, win_x = 2, win_y = 2, win_width = 36, win_height = 10, win_title = Some ''System Console'', z_order = 0, win_active = True,
         minimized = False, focused = True\<rparr>,
        \<lparr>win_id = 2, win_x = 40, win_y = 2, win_width = 36, win_height = 10, win_title = Some ''Task Monitor'', z_order = 1, win_active = True,
         minimized = False, focused = False\<rparr>]"
  using assms(2) unfolding w_def
  by (auto simp: wm_inv_def window_manager_create_window_def window_manager_initialize_def z_orders_def less_Suc_eq numeral_2_eq_2
      take_Suc_conv_app_nth)

lemma first_apps:
  "length (app_registry l) = MAX_APPS \<Longrightarrow>
   take (app_count (app_launcher_initialize f t g l)) (app_registry (app_launcher_initialize f t g l)) =
     [\<lparr>app_name = Some ''Files'', app_entry = f, running = False, app_pid = 0\<rparr>, \<lparr>app_name = Some ''Terminal'', app_entry = t, running = False, app_pid = 0\<rparr>,
      \<lparr>app_name = Some ''Settings'', app_entry = g, running = False, app_pid = 0\<rparr>]"
  by (simp add: app_launcher_initialize_def register_app_def take_Suc_conv_app_nth numeral_2_eq_2)

text \<open>
  C23: The desktop part of the start, with the static arrays in place: the desktop has its three windows with a taskbar item each, the window manager its two windows,
  the first focused and below the second, one notification waits, both overlays are closed, the three applications are registered with their entry points
  and none runs. The invariants of desktop, window manager, notification center, launcher and text screen hold, and the scheduler is not touched.
\<close>

theorem kernel_desktop_ready:
  assumes "length (gui_windows (gui (k_desktop k))) = GUI_MAX_WINDOWS" "length (taskbar_items (gui (k_desktop k))) = GUI_MAX_TASKBAR"
    "length (windows (wm (k_desktop k))) = MAX_WINDOWS" "length (notifications (notif (k_desktop k))) = MAX_NOTIFICATIONS"
    "length (app_registry (launcher (k_desktop k))) = MAX_APPS" "vga_inv (vga (k_desktop k))" "m_apps m = (f, t, g)"
  shows "let d = k_desktop (kernel_desktop_init m k) in
    gui_inv (gui d) \<and>
    opened (gui d) = [(Some ''System Console'', 10, 3, 40, 12), (Some ''Task Monitor'', 52, 3, 26, 10), (Some ''File Manager'', 15, 14, 50, 8)] \<and>
    wm_inv (wm d) \<and>
    take (window_count (wm d)) (windows (wm d)) =
       [\<lparr>win_id = 1, win_x = 2, win_y = 2, win_width = 36, win_height = 10, win_title = Some ''System Console'', z_order = 0, win_active = True,
         minimized = False, focused = True\<rparr>,
        \<lparr>win_id = 2, win_x = 40, win_y = 2, win_width = 36, win_height = 10, win_title = Some ''Task Monitor'', z_order = 1, win_active = True,
         minimized = False, focused = False\<rparr>] \<and>
    notifications_inv (notif d) \<and> posted (notif d) = [(''Welcome'', ''System started'', 0)] \<and> \<not> notification_center_visible (notif d) \<and>
    \<not> control_visible d \<and> launcher_inv (launcher d) \<and>
    take (app_count (launcher d)) (app_registry (launcher d)) =
      [\<lparr>app_name = Some ''Files'', app_entry = f, running = False, app_pid = 0\<rparr>, \<lparr>app_name = Some ''Terminal'', app_entry = t, running = False, app_pid = 0\<rparr>,
       \<lparr>app_name = Some ''Settings'', app_entry = g, running = False, app_pid = 0\<rparr>] \<and>
    vga_inv (vga d) \<and> sched d = sched (k_desktop k)"
proof -
  note parts = desktop_init_parts [where k = k and m = m]
  let ?g = "gui (gui_initialize (k_desktop k))"
  have g: "gui_inv ?g" "opened ?g = []" using assms(1,2) by (simp_all add: gui_initialize_def gui_inv_def opened_def)
  note g1 = gui_open_window_step [OF g(1), of "Some ''System Console''" 10 3 40 12]
  note g2 = gui_open_window_step [OF conjunct1 [OF g1], of "Some ''Task Monitor''" 52 3 26 10]
  note g3 = gui_open_window_step [OF conjunct1 [OF g2], of "Some ''File Manager''" 15 14 50 8]
  let ?n = "notification_center_initialize (notif (k_desktop k))"
  have n: "notifications_inv ?n" "posted ?n = []" using assms(4) by (simp_all add: notification_center_initialize_def notifications_inv_def posted_def)
  have vis: "\<not> notification_center_visible (notification_post t msg p ?n)" for t msg p
    by (simp add: notification_post_def notification_center_initialize_def)
  note post = notification_post_step [OF n(1), of "''Welcome''" "''System started''" 0]
  show ?thesis
    unfolding Let_def parts(1-3) parts(5) [OF assms(7)] parts(6)
    using g1 g2 g3 g(2) first_windows [OF assms(3)] post n(2) vis parts(4,7) app_launcher_initialize_inv [OF assms(5)] first_apps [OF assms(5)] assms(6)
    by (intro conjI) simp_all
qed

subsection \<open>Examples\<close>

definition example_machine :: "mb_tag list \<Rightarrow> machine_t" where
  "example_machine tags =
     \<lparr>m_stub = (\<lambda>v. 0x101000 + 16 * of_nat v), m_idt = 0x110000, m_pit_tick = 0x102000, m_multiboot = Some (mem_of (info_bytes tags)),
      m_pml4 = 0x4000, m_pdpt = 0x5000, m_syscall_entry = 0x103000, m_wrapper = 0x1000, m_stacks = 0x800000, m_apps = (0x5000, 0x6000, 0x7000),
      m_idle = 0x2000, m_shell = 0x3000, m_service_entries = [1, 2, 3, 4], m_generic_service = 5, m_pci = (\<lambda>_. - 1), m_mmio8 = (\<lambda>_. 0),
      m_mmio32 = (\<lambda>_. 0), m_usb = \<lparr>at_cmd_ring = 0, at_event_ring = 0, at_cmd_ring_segment = 0, at_event_ring_segment = 0, at_dcbaa = 0\<rparr>,
      m_portsc = (\<lambda>_. 0), m_mouse_status = (\<lambda>_. 1), m_mouse_response = 0xFA, m_junk_device = fill_device (\<lambda>_. 0) (0, 0, 0),
      m_gctl = (\<lambda>_. 1), m_speaker = (0, 0), m_net = \<lparr>at_rx_buffer = 0x300000, at_tx_buffers = 0x310000\<rparr>, m_mac = (\<lambda>_. 2), m_nic = quiet_nic,
      m_ahci = example_layout, m_ahci_pi = 0, m_ahci_regs = example_drive, m_ahci_reads = (\<lambda>_. [0, 0, 0]), m_disk = (\<lambda>_. None), m_junk = replicate 4096 0,
      m_fresh = (\<lambda>_. [])\<rparr>"

definition example_kernel :: kernel_t where
  "example_kernel =
     \<lparr>k_serial = ([], []), k_interrupts = interrupts_static, k_ports = [], k_pmm = pmm_static, k_vmm = vmm_static, k_heap = heap_static, k_msrs = (\<lambda>_. 0),
      k_desktop = desktop_example\<lparr>sched := sched_static cpu0 (\<lambda>_. 0)\<rparr>, k_clipboard = clipboard_static, k_files = file_ops_static, k_usb = usb_static,
      k_audio = audio_static, k_net = net_static, k_mouse = mouse_static, k_keyboard = keyboard_static, k_ahci = ahci_static, k_fat32 = example_state,
      k_services = services_static, kernel_initialized = False\<rparr>"

text \<open>A machine of 8 GB in one region.\<close>

definition large_tags :: "mb_tag list" where
  "large_tags = [Mmap [\<lparr>me_addr = 0x100000, me_len = 0x1FFF00000, me_type = 1\<rparr>]]"

lemma example_boot: "boot_ok (example_machine example_tags) example_kernel example_tags" "boot_ok (example_machine large_tags) example_kernel large_tags"
proof -
  have "info_ok large_tags" "\<forall>e \<in> set (mmap_regions large_tags). region_fits e" "has_mmap large_tags" "0 < regions_top (mmap_regions large_tags)"
    by (simp_all add: info_ok_def info_bytes_def large_tags_def mmap_regions_def region_fits_def has_mmap_def regions_top_def region_end_def)
  then show "boot_ok (example_machine example_tags) example_kernel example_tags" "boot_ok (example_machine large_tags) example_kernel large_tags"
    using mem_of_holds example_tags_ok
    by (auto simp: boot_ok_def example_machine_def example_kernel_def vmm_static_def tables_sized_def page_aligned_def)
qed

lemma example_region: "\<lparr>me_addr = 0x100000, me_len = 0x7F00000, me_type = 1\<rparr> \<in> set (mmap_regions example_tags)"
  "region_touches \<lparr>me_addr = 0x100000, me_len = 0x7F00000, me_type = 1\<rparr> 512"
  by (simp_all add: example_tags_def mmap_regions_def region_touches_def region_end_def)

theorem kernel_memory_ready_witness:
  "\<exists>k'. kernel_core_init (example_machine example_tags) example_kernel = Some k' \<and> 512 \<in> free_set (k_pmm k') \<and>
     page_walk 0x5000 (k_vmm k') 0x200000 = Some 0x200000"
proof -
  obtain k' where k': "kernel_core_init (example_machine example_tags) example_kernel = Some k'"
    "free_set (k_pmm k') = {f. 512 \<le> f \<and> f < (regions_top (mmap_regions example_tags) + 4095) div 4096 \<and> f < BITMAP_WORDS * 64 \<and>
       (\<exists>e \<in> set (mmap_regions example_tags). region_touches e f)}"
    "\<forall>f \<in> free_set (k_pmm k'). f < 0x180000 \<longrightarrow>
       page_walk (m_pdpt (example_machine example_tags)) (k_vmm k') (of_nat f * 4096) = Some (of_nat f * 4096)"
    using kernel_memory_ready [OF example_boot(1)] by blast
  have "512 \<in> free_set (k_pmm k')" unfolding k'(2) using example_region by (auto simp: example_tags_ok(4))
  then show ?thesis using k'(1) bspec [OF k'(3), of 512] by (auto simp: example_machine_def)
qed

theorem frame_allocator_overlaps_heap_witness:
  "\<exists>k'. kernel_core_init (example_machine example_tags) example_kernel = Some k' \<and> fst (pmm_allocate_frame (k_pmm k')) = 0x200000 \<and>
     fst (kmalloc 4096 ''fat'' (k_heap k')) = 0x200000"
  using frame_allocator_overlaps_heap [OF example_boot(1) example_region, of 4096 "''fat''"] by simp

theorem frames_beyond_6gb_unmapped_witness:
  "\<exists>k'. kernel_core_init (example_machine large_tags) example_kernel = Some k' \<and> 0x180000 \<in> free_set (k_pmm k') \<and>
     page_walk 0x5000 (k_vmm k') 0x180000000 = None"
  using frames_beyond_6gb_unmapped [OF example_boot(2), of "\<lparr>me_addr = 0x100000, me_len = 0x1FFF00000, me_type = 1\<rparr>" "0x180000"]
  by (simp add: large_tags_def mmap_regions_def region_touches_def region_end_def) (simp add: example_machine_def)

theorem kernel_tasks_started_witness:
  "\<exists>k'. kernel_start_tasks (example_machine example_tags) (example_kernel\<lparr>k_desktop := desktop_example\<lparr>sched := sched0\<rparr>\<rparr>) = Some k' \<and>
     sched_inv (sched (k_desktop k')) [0..<202]"
  using kernel_tasks_started [of "example_kernel\<lparr>k_desktop := desktop_example\<lparr>sched := sched0\<rparr>\<rparr>" "example_machine example_tags"] sched0_inv
  by (auto simp: example_kernel_def)

theorem kernel_desktop_ready_witness:
  "let d = k_desktop (kernel_desktop_init (example_machine example_tags) example_kernel) in
     map win_title (take (window_count (wm d)) (windows (wm d))) = [Some ''System Console'', Some ''Task Monitor''] \<and>
     map app_entry (take (app_count (launcher d)) (app_registry (launcher d))) = [0x5000, 0x6000, 0x7000] \<and>
     posted (notif d) = [(''Welcome'', ''System started'', 0)] \<and> length (opened (gui d)) = 3"
proof -
  have "length (app_registry launcher3) = MAX_APPS"
    by (simp add: launcher3_def launcher_static_def app_launcher_initialize_def register_app_def)
  then have k: "length (gui_windows (gui (k_desktop example_kernel))) = GUI_MAX_WINDOWS" "length (taskbar_items (gui (k_desktop example_kernel))) = GUI_MAX_TASKBAR"
    "length (windows (wm (k_desktop example_kernel))) = MAX_WINDOWS" "length (notifications (notif (k_desktop example_kernel))) = MAX_NOTIFICATIONS"
    "length (app_registry (launcher (k_desktop example_kernel))) = MAX_APPS" "vga_inv (vga (k_desktop example_kernel))"
    using vga_example_fits(1) by (simp_all add: example_kernel_def desktop_example_def gui_static_def wm_static_def notifications_static_def)
  have "m_apps (example_machine example_tags) = (0x5000, 0x6000, 0x7000)" by (simp add: example_machine_def)
  from kernel_desktop_ready [OF k this] show ?thesis by (simp add: Let_def)
qed

end
