(* ===== verification/Spec2Isabelle.thy ===== *)
theory Spec2Isabelle
  imports Vmm Pmm Kheap Sync Syscalls Interrupts Keyboard Mouse Overlays Clipboard Window_Manager App_Launcher Services Network Ahci Kernel
begin

text \<open>
  This development models a small x86-64 operating system kernel written in C and proves its components correct. Every component of the kernel is a theory; the
  definitions carry the names of the C functions, types and constants they translate.

  \<^bold>\<open>The program.\<close> The boot loader enters \<^verbatim>\<open>kernel_main\<close> (\<^verbatim>\<open>kernel.c\<close>) with the address of a Multiboot information structure. The kernel reads the memory map from it
  and sets up the frame allocator (\<^verbatim>\<open>pmm.c\<close>), the page tables (\<^verbatim>\<open>vmm.c\<close>), the heap (\<^verbatim>\<open>heap.c\<close>) and the scheduler (\<^verbatim>\<open>scheduler.c\<close>), then the devices: interrupt
  controllers and timer, keyboard, mouse, USB, sound, disk, network. It mounts a FAT32 volume, opens the windows of a text-mode desktop, registers three
  applications, creates the idle task, the shell, which polls keyboard, mouse and network, and two hundred service tasks, and ends in a loop that
  schedules whenever the timer interrupt has asked for it. The components call each other directly and keep their state in static variables; the only concurrency is the task switch and, in the spinlocks, several processors.

  \<^bold>\<open>How C is modelled.\<close> A fixed-width unsigned integer is a word of that width, so that arithmetic wraps as in C (\<open>u8\<close>, \<open>u16\<close>, \<open>u32\<close>, \<open>u64\<close> of \<open>Prelude\<close>); a signed one is an
  \<open>int\<close>, with the range tested where a result could leave it (\<open>int32\<close> in \<open>Vga\<close>). The static variables of a file are a record, a static array is a list of its length, and a
  function is a function on that record. A pointer to an element of a static array is an index, \<^verbatim>\<open>NULL\<close> is \<open>None\<close>; buffers are lists of bytes. An access outside of an array
  or a buffer, a division by zero, a conversion without an argument and a loop that never ends are the outer result \<open>None\<close>; so a theorem that gives \<open>Some\<close> says that the
  code neither faults nor loops. Loops over arrays are structural recursion or a fold. The loops over linked tasks, cluster chains, boot tags, received packets, port status and the
  spinlock are \<^theory_text>\<open>partial_function (option)\<close>: there is no fuel and no bound of our own in the development, and that such a loop returns is proved where it does. The
  values that the hardware delivers (port and register reads, received packets, sector contents, configuration space) are parameters, and the writes to ports are recorded in order.

  \<^bold>\<open>Foundations.\<close>
  \<^item> \<open>Prelude\<close>: integer types, search of an array, lemmas on lists and words, the theorem collections.
  \<^item> \<open>Bytes\<close>: little- and big-endian loads and stores, checked reads and block copies.
  \<^item> \<open>Allocator\<close>: the locale \<open>allocator\<close>, what a client of an allocator relies on; interpreted in \<open>Pmm\<close> by the frames and in \<open>Kheap\<close> by the heap.
  \<^item> \<open>Ring\<close>: the locale \<open>bounded_queue\<close>, interpreted by the four queues of \<open>Keyboard\<close>, \<open>Mouse\<close> and \<open>Usb\<close>.
  \<^item> \<open>Vga\<close> holds the locale \<open>display\<close>, a screen of cells that a list of writes changes, interpreted by the text screen and used by all that draws.
  \<^item> \<open>Fat32\<close> holds the locale \<open>sector_driver\<close>, a driver with state that delivers the sectors of a disk, interpreted in \<open>Ahci\<close> by the SATA driver.

  \<^bold>\<open>Memory.\<close>
  \<^item> \<open>Pmm\<close> (\<^verbatim>\<open>pmm.c\<close>): the bitmap as a list of 64-bit words, abstracted to the set of free frames. Allocation takes the least one, ranges add and remove the frames that overlap them.
  \<^item> \<open>Vmm\<close> (\<^verbatim>\<open>vmm.c\<close>): the four boot tables and the walk of the processor over them, which is the identity below 6 GB; the table of mappings, which refines a queue
    of mappings per page with the oldest in force.
  \<^item> \<open>Kheap\<close> (\<^verbatim>\<open>heap.c\<close>): slab caches and blocks. A ledger of the pointers that were returned shows that no memory is given out twice.
  \<^item> \<open>Multiboot\<close> (\<^verbatim>\<open>kernel.c\<close>): both walks over the boot tags, correct on well-formed structures and endless on sizes of 0, and the memory set-up.

  \<^bold>\<open>Tasks.\<close>
  \<^item> \<open>Scheduler\<close> (\<^verbatim>\<open>scheduler.c\<close>, \<^verbatim>\<open>context_switch.asm\<close>): the task table with its linked ready queue, abstracted to a list of indices; the context switch on registers and a
    memory of words; the reachable states as an inductive predicate. Round robin, totality of all operations, the initial frame, and the end of scheduling after \<^verbatim>\<open>task_exit\<close>.
  \<^item> \<open>Sync\<close> (\<^verbatim>\<open>sync.c\<close>): the spinlock as a call and, built from the same definitions, as interleaved steps of processors.
  \<^item> \<open>Syscalls\<close> (\<^verbatim>\<open>syscalls.c\<close>, \<^verbatim>\<open>syscall_entry.asm\<close>): the dispatcher with its messages and its reads of user strings, and the registers at its entry.
  \<^item> \<open>Interrupts\<close> (\<^verbatim>\<open>interrupts.c\<close>): descriptor table, controllers, timer, dispatch and acknowledgement.

  \<^bold>\<open>Devices.\<close>
  \<^item> \<open>Pci\<close> (\<^verbatim>\<open>audio.c\<close>, \<^verbatim>\<open>usb.c\<close>): configuration access and the searches, sound and complete for what the scan can see.
  \<^item> \<open>Serial\<close> (\<^verbatim>\<open>serial.c\<close>) and \<open>Kprintf\<close> (\<^verbatim>\<open>kprintf\<close> of \<^verbatim>\<open>kernel.c\<close>, the log macros of \<^verbatim>\<open>kernel.h\<close>): sending, and formatted printing, which prints no argument.
  \<^item> \<open>Usb\<close>, \<open>Keyboard\<close>, \<open>Mouse\<close> (\<^verbatim>\<open>usb.c\<close>, \<^verbatim>\<open>keyboard.c\<close>, \<^verbatim>\<open>mouse.c\<close>): report and scan code translation, the packet state machine, the queues.
  \<^item> \<open>Vga\<close> (\<^verbatim>\<open>vga.c\<close>): text screen and framebuffer. \<open>Audio\<close> (\<^verbatim>\<open>audio.c\<close>): speaker and HDA controller.
  \<^item> \<open>Ahci\<close> (\<^verbatim>\<open>ahci.c\<close>): command lists and tables as bytes, transfers and the start. The controller is the parameter \<open>hba\<close>, which stores at the addresses it is given; the
    hypothesis \<open>hba_executes\<close> says that it carries out the command it finds. Under it the driver implements the disk of \<open>Fat32\<close>.
  \<^item> \<open>Fat32\<close> (\<^verbatim>\<open>fat32.c\<close>): mounting, directory walks, handles and reading along cluster chains.
  \<^item> \<open>Packets\<close>, \<open>Network\<close> (\<^verbatim>\<open>network.c\<close>): packet formats; the RTL8139 driver with ARP and DHCP. Receiving is safe for every content of the buffer.

  \<^bold>\<open>Desktop and kernel.\<close>
  \<^item> \<open>Overlays\<close> (\<^verbatim>\<open>notifications.c\<close>, \<^verbatim>\<open>control_center.c\<close>), \<open>Clipboard\<close>, \<open>File_Ops\<close>, \<open>Window_Manager\<close>, \<open>App_Launcher\<close>, \<open>Gui\<close>: the components of the same names. What they draw is a list
    of writes to cells, so that theorems speak about the final screen.
  \<^item> \<open>Services\<close> (\<^verbatim>\<open>services.c\<close>): one round of each service task; the print queue delivers its messages in order.
  \<^item> \<open>Console\<close> (\<^verbatim>\<open>kernel.c\<close>): the shell, which refines a line editor on lists, and the mouse status.
  \<^item> \<open>Kernel\<close> (\<^verbatim>\<open>kernel.c\<close>): the state of all components, the start in the order of the code and one round of the main loop, with the properties that span components: the
    invariants after the start, the tasks and the first tick, the memory that frame allocator and heap share.

  \<^bold>\<open>What the theorems show.\<close> Each component has an invariant that its operations keep and, where it has a contract, an abstraction: sets of frames and of live allocations, queues of
  tasks, mappings, characters and messages, a list of files, the pixels and cells of a figure. The functional theorems state each operation over the abstraction on every branch. Some
  theorems state behaviour that the code does not intend: the endless walk, the end of scheduling, DHCP that never completes, the overlap of the two allocators, the launcher that
  covers the taskbar. Their texts say so.

  \<^bold>\<open>Not modelled.\<close> The assembly entry code (\<^verbatim>\<open>boot.asm\<close>, \<^verbatim>\<open>gdt.asm\<close>, \<^verbatim>\<open>isr_stubs.asm\<close>), whose addresses are parameters; \<^verbatim>\<open>ahci_new.c\<close>, which is not compiled, and
  \<^verbatim>\<open>multiboot2.h\<close>, which is not included; control register writes and TLB flushes; delays, except as a number of rounds; the log messages inside the components other
  than \<open>Syscalls\<close>; the 16- and 32-bit port helpers of \<^verbatim>\<open>serial.c\<close>, which nothing calls; the bodies of the applications, which only write to the log; and interrupts inside a function, since
  the timer handler only sets a flag and tasks are switched only in \<^verbatim>\<open>schedule\<close> and \<^verbatim>\<open>task_yield\<close>.
\<close>

end
